(* ===== verification/Prelude.thy ===== *)
theory Prelude
  imports Main "HOL-Library.Char_ord" "HOL-Library.Word"
begin

text \<open>
  Shared vocabulary of the development: Go strings as byte lists, the functions of Go's
  packages \<open>strings\<close> and \<open>slices\<close> that the code calls, and the lemmas about them that
  every component uses.  A Go string is a sequence of bytes, and \<open>char\<close> is Isabelle's
  8-bit character, so \<open>string\<close> is exactly Go's \<open>string\<close> (and \<open>[]byte\<close>).
  A Go error return is the left side of a sum type.
\<close>

named_theorems go_strings \<open>rewriting of the string functions of the Go library\<close>
named_theorems bytes \<open>facts about single bytes\<close>

type_synonym gostring = string

section \<open>Bytes\<close>

text \<open>The byte value of a character and the character of a byte.\<close>

definition byte_of :: "char \<Rightarrow> 8 word" where
  "byte_of c = of_char c"

definition char_of_byte :: "8 word \<Rightarrow> char" where
  "char_of_byte w = char_of (unat w)"

lemma unat_byte_of [bytes]: "unat (byte_of c) = of_char c"
proof -
  have "byte_of c = of_nat (of_char c)"
    by (simp add: byte_of_def of_nat_of_char)
  then show ?thesis
    by (simp add: unat_of_nat)
qed

lemma char_of_byte_of [simp]: "char_of_byte (byte_of c) = c"
  by (simp add: char_of_byte_def unat_byte_of)

lemma byte_of_char_of [simp]: "byte_of (char_of_byte w) = w"
proof -
  have "unat w < 256"
    using unsigned_less [of w] by simp
  then have "unat (byte_of (char_of_byte w)) = unat w"
    by (simp add: unat_byte_of char_of_byte_def)
  then show ?thesis
    by (simp only: word_unat_eq_iff)
qed

lemma byte_of_inj [simp]: "byte_of c = byte_of d \<longleftrightarrow> c = d"
  by (metis char_of_byte_of)

section \<open>strings.Split, strings.Join\<close>

fun split_on :: "char \<Rightarrow> string \<Rightarrow> string list" where
  "split_on c [] = [[]]"
| "split_on c (x # xs) =
     (if x = c then [] # split_on c xs
      else (case split_on c xs of [] \<Rightarrow> [[x]] | y # ys \<Rightarrow> (x # y) # ys))"

fun join_with :: "string \<Rightarrow> string list \<Rightarrow> string" where
  "join_with sep [] = []"
| "join_with sep [x] = x"
| "join_with sep (x # y # ys) = x @ sep @ join_with sep (y # ys)"

lemma split_on_not_Nil [simp]: "split_on c s \<noteq> []"
  by (induction s) (auto split: list.splits)

lemma split_on_no_sep: "c \<notin> set s \<Longrightarrow> split_on c s = [s]"
  by (induction s) auto

lemma split_on_append: "c \<notin> set x \<Longrightarrow> split_on c (x @ c # s) = x # split_on c s"
  by (induction x) auto

lemma split_on_joined: "split_on c (a @ c # b) = split_on c a @ split_on c b"
  by (induction a) (auto split: list.split)

lemma split_on_parts: "x \<in> set (split_on c s) \<Longrightarrow> c \<notin> set x"
  by (induction s arbitrary: x) (auto split: list.splits if_splits)

lemma join_split [go_strings]: "join_with [c] (split_on c s) = s"
proof (induction s)
  case Nil
  then show ?case by simp
next
  case (Cons a s)
  then show ?case
    by (cases "split_on c s"; cases "tl (split_on c s)") auto
qed

lemma split_join [go_strings]:
  "xs \<noteq> [] \<Longrightarrow> \<forall>x \<in> set xs. c \<notin> set x \<Longrightarrow> split_on c (join_with [c] xs) = xs"
  by (induction "[c]" xs rule: join_with.induct) (auto simp: split_on_no_sep split_on_append)

lemma length_join_with_Cons: "ys \<noteq> [] \<Longrightarrow> join_with sep (x # ys) = x @ sep @ join_with sep ys"
  by (cases ys) auto

section \<open>strings.IndexByte, strings.LastIndexByte, strings.Cut\<close>

text \<open>
  Go returns -1 when the byte is missing; the model returns \<open>None\<close>.
\<close>

fun index_byte :: "char \<Rightarrow> string \<Rightarrow> nat option" where
  "index_byte c [] = None"
| "index_byte c (x # xs) = (if x = c then Some 0 else map_option Suc (index_byte c xs))"

fun last_index_byte :: "char \<Rightarrow> string \<Rightarrow> nat option" where
  "last_index_byte c [] = None"
| "last_index_byte c (x # xs) =
     (case last_index_byte c xs of
        Some i \<Rightarrow> Some (Suc i)
      | None \<Rightarrow> if x = c then Some 0 else None)"

text \<open>\<open>strings.Cut\<close>: the text around the first separator, and whether it was found.\<close>

definition cut_on :: "char \<Rightarrow> string \<Rightarrow> string \<times> string \<times> bool" where
  "cut_on c s =
     (case index_byte c s of
        None \<Rightarrow> (s, [], False)
      | Some i \<Rightarrow> (take i s, drop (Suc i) s, True))"

lemma index_byte_None [simp]: "index_byte c s = None \<longleftrightarrow> c \<notin> set s"
  by (induction s) auto

lemma index_byte_append: "c \<notin> set x \<Longrightarrow> index_byte c (x @ c # s) = Some (length x)"
  by (induction x) auto

lemma index_byte_Some:
  "index_byte c s = Some i \<Longrightarrow> i < length s \<and> s ! i = c \<and> c \<notin> set (take i s)"
  by (induction s arbitrary: i) (auto split: if_splits simp: nth_Cons split: nat.splits)

lemma last_index_byte_None [simp]: "last_index_byte c s = None \<longleftrightarrow> c \<notin> set s"
  by (induction s) (auto split: option.splits)

lemma last_index_byte_fresh [simp]: "c \<notin> set s \<Longrightarrow> last_index_byte c s = None"
  by simp

lemma index_byte_fresh [simp]: "c \<notin> set s \<Longrightarrow> index_byte c s = None"
  by simp

lemma last_index_byte_append:
  "c \<notin> set y \<Longrightarrow> last_index_byte c (x @ c # y) = Some (length x)"
  by (induction x) (auto simp del: last_index_byte_None)

lemma last_index_byte_Some:
  "last_index_byte c s = Some i \<Longrightarrow> i < length s \<and> s ! i = c \<and> c \<notin> set (drop (Suc i) s)"
  by (induction s arbitrary: i) (auto split: option.splits if_splits)

lemma split_at_last:
  assumes "c \<in> set s"
  obtains x y where "s = x @ c # y" and "c \<notin> set y"
  using assms by (metis split_list_last)

lemma cut_on_append: "c \<notin> set x \<Longrightarrow> cut_on c (x @ c # s) = (x, s, True)"
  by (simp add: cut_on_def index_byte_append)

lemma cut_on_none: "c \<notin> set s \<Longrightarrow> cut_on c s = (s, [], False)"
  by (simp add: cut_on_def split: option.splits)

section \<open>strings.HasPrefix, HasSuffix, TrimPrefix, TrimLeft\<close>

fun has_prefix :: "string \<Rightarrow> string \<Rightarrow> bool" where
  "has_prefix s [] = True"
| "has_prefix [] (p # ps) = False"
| "has_prefix (x # xs) (p # ps) = (x = p \<and> has_prefix xs ps)"

definition has_suffix :: "string \<Rightarrow> string \<Rightarrow> bool" where
  "has_suffix s t = has_prefix (rev s) (rev t)"

lemma has_prefix_iff [go_strings]: "has_prefix s p \<longleftrightarrow> (\<exists>t. s = p @ t)"
  by (induction s p rule: has_prefix.induct) auto

lemma has_suffix_iff [go_strings]: "has_suffix s p \<longleftrightarrow> (\<exists>t. s = t @ p)"
  unfolding has_suffix_def has_prefix_iff by (metis rev_append rev_rev_ident)

end
