(* ===== verification/Errors.thy ===== *)
theory Errors
  imports Prelude
begin

text \<open>
  Errors and their HTTP form: \<open>errors.go\<close> and lines 35 to 138 of \<open>httprule.go\<close> (the status
  tables, \<open>httpWriteError\<close>, \<open>httpWriteStatus\<close>, \<open>httpErrorFromResponse\<close>, \<open>typeNameFromURL\<close>).

  A Go error is a value of \<open>goError\<close>: a \<open>*connect.Error\<close>, one of the sentinel errors the
  code tests for, any other error with its text, an error that wraps another one
  (\<open>fmt.Errorf\<close> with \<open>%w\<close>), or two joined by \<open>errors.Join\<close>.  The code of a \<open>*connect.Error\<close> is a 32-bit word, which both
  \<open>connect.Code\<close> (unsigned) and the \<open>int32\<close> of a status message read.  What belongs to
  other packages is an argument: the text of a \<open>*connect.Error\<close>, the codec's reading and
  writing of a status message, \<open>http.StatusText\<close> and \<open>anypb.New\<close>.
\<close>

section \<open>Errors\<close>

type_synonym detail = "string \<times> string"

datatype goError =
    Conn connectError
  | ContextCanceled
  | DeadlineExceeded
  | EOF
  | UnexpectedEOF
  | ErrClosedPipe
  | ErrNotSupported
  | MaxBytesError
  | OtherError string
  | Wrapped string goError
  | Joined goError goError
and connectError =
  ConnectError (code: "32 word") (message: string) (details: "detail list") (remote: bool)
    (cause: "goError option")

abbreviation "CodeCanceled \<equiv> (1 :: 32 word)"
abbreviation "CodeUnknown \<equiv> (2 :: 32 word)"
abbreviation "CodeInvalidArgument \<equiv> (3 :: 32 word)"
abbreviation "CodeDeadlineExceeded \<equiv> (4 :: 32 word)"
abbreviation "CodeNotFound \<equiv> (5 :: 32 word)"
abbreviation "CodePermissionDenied \<equiv> (7 :: 32 word)"
abbreviation "CodeResourceExhausted \<equiv> (8 :: 32 word)"
abbreviation "CodeUnimplemented \<equiv> (12 :: 32 word)"
abbreviation "CodeInternal \<equiv> (13 :: 32 word)"
abbreviation "CodeUnavailable \<equiv> (14 :: 32 word)"
abbreviation "CodeUnauthenticated \<equiv> (16 :: 32 word)"

definition newError :: "32 word \<Rightarrow> string \<Rightarrow> connectError" where
  "newError c msg = ConnectError c msg [] False None"

definition withCause :: "goError \<Rightarrow> connectError \<Rightarrow> connectError" where
  "withCause err e = ConnectError (code e) (message e) (details e) (remote e) (Some err)"

definition withDetail :: "detail \<Rightarrow> connectError \<Rightarrow> connectError" where
  "withDetail d e = ConnectError (code e) (message e) (details e @ [d]) (remote e) (cause e)"

definition withRemote :: "connectError \<Rightarrow> connectError" where
  "withRemote e = ConnectError (code e) (message e) (details e) True (cause e)"

lemma newError_simps [simp]:
  "code (newError c msg) = c" "message (newError c msg) = msg" "details (newError c msg) = []"
  "remote (newError c msg) = False"
  by (simp_all add: newError_def)

lemma with_simps [simp]:
  "code (withCause err e) = code e" "message (withCause err e) = message e"
  "details (withCause err e) = details e" "remote (withCause err e) = remote e"
  "code (withDetail d e) = code e" "message (withDetail d e) = message e"
  "details (withDetail d e) = details e @ [d]" "remote (withDetail d e) = remote e"
  "code (withRemote e) = code e" "message (withRemote e) = message e"
  "details (withRemote e) = details e" "remote (withRemote e) = True"
  by (simp_all add: withCause_def withDetail_def withRemote_def)

text \<open>\<open>errors.AsType[*connect.Error]\<close>: the first \<open>*connect.Error\<close> of the chain.\<close>

fun asType :: "goError \<Rightarrow> connectError option" where
  "asType (Conn e) = Some e"
| "asType (Wrapped s e) = asType e"
| "asType (Joined a b) = (case asType a of Some e \<Rightarrow> Some e | None \<Rightarrow> asType b)"
| "asType _ = None"

text \<open>\<open>errors.AsType[*http.MaxBytesError]\<close> and \<open>errors.Is\<close>: a \<open>*connect.Error\<close> unwraps to its cause.\<close>

fun errorsIs :: "goError \<Rightarrow> goError \<Rightarrow> bool" where
  "errorsIs (Conn (ConnectError c m d r None)) target = (target = Conn (ConnectError c m d r None))"
| "errorsIs (Conn (ConnectError c m d r (Some e))) target =
     (target = Conn (ConnectError c m d r (Some e)) \<or> errorsIs e target)"
| "errorsIs (Wrapped s e) target = (target = Wrapped s e \<or> errorsIs e target)"
| "errorsIs (Joined a b) target = (target = Joined a b \<or> errorsIs a target \<or> errorsIs b target)"
| "errorsIs err target = (err = target)"

text \<open>The text of joined errors has a newline between them.\<close>

definition newline :: char where
  "newline = CHR 0x0A"

fun errorText :: "(connectError \<Rightarrow> string) \<Rightarrow> goError \<Rightarrow> string" where
  "errorText ct (Conn e) = ct e"
| "errorText ct ContextCanceled = ''context canceled''"
| "errorText ct DeadlineExceeded = ''context deadline exceeded''"
| "errorText ct EOF = ''EOF''"
| "errorText ct UnexpectedEOF = ''unexpected EOF''"
| "errorText ct ErrClosedPipe = ''io: read/write on closed pipe''"
| "errorText ct ErrNotSupported = ''feature not supported''"
| "errorText ct MaxBytesError = ''http: request body too large''"
| "errorText ct (OtherError s) = s"
| "errorText ct (Wrapped s e) = s"
| "errorText ct (Joined a b) = errorText ct a @ [newline] @ errorText ct b"

section \<open>errors.go\<close>

definition contextError :: "(connectError \<Rightarrow> string) \<Rightarrow> goError \<Rightarrow> connectError" where
  "contextError ct err =
     (if errorsIs err DeadlineExceeded
      then withCause err (newError CodeDeadlineExceeded (errorText ct err))
      else withCause err (newError CodeCanceled (errorText ct err)))"

definition asConnectError :: "(connectError \<Rightarrow> string) \<Rightarrow> goError \<Rightarrow> connectError" where
  "asConnectError ct err =
     (case asType err of
        Some connectErr \<Rightarrow>
          if remote connectErr then withCause err (newError CodeInternal [])
          else connectErr
      | None \<Rightarrow>
          if errorsIs err ContextCanceled \<or> errorsIs err DeadlineExceeded then contextError ct err
          else withCause err (newError CodeUnknown []))"

definition wrapError :: "(connectError \<Rightarrow> string) \<Rightarrow> 32 word \<Rightarrow> string \<Rightarrow> goError \<Rightarrow> connectError" where
  "wrapError ct c pre err =
     (case asType err of
        Some connectErr \<Rightarrow> connectErr
      | None \<Rightarrow> withCause err (newError c (pre @ '': '' @ errorText ct err)))"

text \<open>\<open>google.rpc.Status\<close>; an \<open>Any\<close> is its type URL and value.\<close>

record status =
  statusCode :: "32 word"
  statusMessage :: string
  statusDetails :: "(string \<times> string) list"

definition grpcStatusFromError :: "connectError \<Rightarrow> status" where
  "grpcStatusFromError err =
     \<lparr>statusCode = code err, statusMessage = message err,
      statusDetails = map (\<lambda>(ty, v). (''type.googleapis.com/'' @ ty, v)) (details err)\<rparr>"

section \<open>Status codes\<close>

definition httpStatusCodeFromRPCIndex :: "nat list" where
  "httpStatusCodeFromRPCIndex =
     [200, 499, 500, 400, 504, 404, 409, 403, 429, 400, 409, 400, 501, 500, 503, 500, 401]"

definition httpStatusCodeFromRPC :: "32 word \<Rightarrow> nat" where
  "httpStatusCodeFromRPC c =
     (if unat c \<ge> length httpStatusCodeFromRPCIndex then 500
      else httpStatusCodeFromRPCIndex ! unat c)"

definition httpStatusCodeToRPC :: "nat \<Rightarrow> 32 word" where
  "httpStatusCodeToRPC c =
     (if c = 200 then 0
      else if c = 400 then CodeInternal
      else if c = 401 then CodeUnauthenticated
      else if c = 403 then CodePermissionDenied
      else if c = 404 then CodeUnimplemented
      else if c = 429 \<or> c = 502 \<or> c = 503 \<or> c = 504 then CodeUnavailable
      else CodeUnknown)"

section \<open>HTTP responses\<close>

text \<open>
  What \<open>net/http\<close> keeps of a response: the header map the handler may change, the status and
  the header that were sent with the first \<open>WriteHeader\<close> (later ones are ignored), and the
  body.  Writing to the body sends status 200 first if no status was sent.
\<close>

type_synonym headers = "string \<Rightarrow> string list option"

definition header_get :: "headers \<Rightarrow> string \<Rightarrow> string" where
  "header_get h k = (case h k of Some (v # vs) \<Rightarrow> v | _ \<Rightarrow> [])"

definition header_set :: "string \<Rightarrow> string \<Rightarrow> headers \<Rightarrow> headers" where
  "header_set k v h = h(k \<mapsto> [v])"

record response =
  rspHeader :: headers
  rspSent :: "(nat \<times> headers) option"
  rspBody :: string

definition writeHeader :: "nat \<Rightarrow> response \<Rightarrow> response" where
  "writeHeader st r = (if rspSent r = None then r\<lparr>rspSent := Some (st, rspHeader r)\<rparr> else r)"

definition writeBody :: "string \<Rightarrow> response \<Rightarrow> response" where
  "writeBody data r = (let r = writeHeader 200 r in r\<lparr>rspBody := rspBody r @ data\<rparr>)"

lemma header_get_set [simp]: "header_get (header_set k v h) k' = (if k' = k then v else header_get h k')"
  by (simp add: header_get_def header_set_def)

text \<open>The part of a codec this file uses: its name, what it writes for a status message.\<close>

definition httpWriteStatus ::
  "string \<Rightarrow> (status \<Rightarrow> string) \<Rightarrow> response \<Rightarrow> nat \<Rightarrow> connectError \<Rightarrow> response"
where
  "httpWriteStatus codecName marshal rsp st cerr =
     (let stat = grpcStatusFromError cerr;
          rsp = rsp\<lparr>rspHeader := header_set ''Content-Type'' (''application/'' @ codecName) (rspHeader rsp)\<rparr>;
          rsp = rsp\<lparr>rspHeader := header_set ''Content-Encoding'' ''identity'' (rspHeader rsp)\<rparr>;
          rsp = writeHeader st rsp
      in writeBody (marshal stat) rsp)"

definition httpWriteError ::
  "(connectError \<Rightarrow> string) \<Rightarrow> string \<Rightarrow> (status \<Rightarrow> string) \<Rightarrow> response \<Rightarrow> goError \<Rightarrow> response"
where
  "httpWriteError ct codecName marshal rsp err =
     (let cerr = asConnectError ct err in
      httpWriteStatus codecName marshal rsp (httpStatusCodeFromRPC (code cerr)) cerr)"

definition typeNameFromURL :: "string \<Rightarrow> string" where
  "typeNameFromURL url =
     (case last_index_byte CHR ''/'' url of Some i \<Rightarrow> drop (i + 1) url | None \<Rightarrow> url)"

text \<open>
  \<open>unmarshal\<close> gives the status message it has filled and whether it failed (a failing
  codec may leave a partly filled message); \<open>pack\<close> is \<open>anypb.New\<close> on an \<open>HttpBody\<close>.
\<close>

definition httpErrorFromResponse ::
  "(string \<Rightarrow> status \<times> bool) \<Rightarrow> (nat \<Rightarrow> string) \<Rightarrow> (string \<Rightarrow> string \<Rightarrow> string + string \<times> string) \<Rightarrow>
   nat \<Rightarrow> string \<Rightarrow> string \<Rightarrow> connectError option"
where
  "httpErrorFromResponse unmarshal statusText pack st contentType src =
     (if st = 200 then None
      else
        (let (stat, failed) = unmarshal src;
             result =
               (if failed then
                  (case pack contentType src of
                     Inl err \<Rightarrow> Inl (newError CodeInternal err)
                   | Inr body \<Rightarrow>
                       Inr (stat\<lparr>statusDetails := statusDetails stat @ [body],
                                 statusCode := httpStatusCodeToRPC st,
                                 statusMessage := statusText st\<rparr>))
                else Inr stat)
         in
         case result of
           Inl e \<Rightarrow> Some e
         | Inr stat \<Rightarrow>
             Some (foldl (\<lambda>e (url, v). withDetail (typeNameFromURL url, v) e)
                     (withRemote (newError (statusCode stat) (statusMessage stat)))
                     (statusDetails stat))))"

section \<open>Facts about the tables and the classification\<close>

lemma length_index [simp]: "length httpStatusCodeFromRPCIndex = 17"
  by (simp add: httpStatusCodeFromRPCIndex_def)

lemma index_entries:
  "list_all (\<lambda>i. 400 \<le> httpStatusCodeFromRPCIndex ! i \<and> httpStatusCodeFromRPCIndex ! i < 600 \<or> i = 0)
     [0..<17]"
  by code_simp

lemma index_entry:
  assumes "n < 17" and "n \<noteq> 0"
  shows "400 \<le> httpStatusCodeFromRPCIndex ! n \<and> httpStatusCodeFromRPCIndex ! n < 600"
  using index_entries assms by (simp only: list_all_iff set_upt) auto

lemma statusFromRPC_error: "c \<noteq> 0 \<Longrightarrow> 400 \<le> httpStatusCodeFromRPC c \<and> httpStatusCodeFromRPC c < 600"
  using index_entry [of "unat c"] unat_eq_0 [of c] by (simp add: httpStatusCodeFromRPC_def)

lemma statusFromRPC_OK: "httpStatusCodeFromRPC 0 = 200"
  by (simp add: httpStatusCodeFromRPC_def httpStatusCodeFromRPCIndex_def)

lemma statusFromRPC_200: "httpStatusCodeFromRPC c = 200 \<longleftrightarrow> c = 0"
  using statusFromRPC_error [of c] statusFromRPC_OK by (cases "c = 0") auto

lemma asConnectError_local: "\<not> remote (asConnectError ct err)"
  by (simp add: asConnectError_def contextError_def split: option.splits)

lemma typeName_prefix:
  "CHR ''/'' \<notin> set ty \<Longrightarrow> typeNameFromURL (''type.googleapis.com/'' @ ty) = ty"
  using last_index_byte_append [of "CHR ''/''" ty "''type.googleapis.com''"]
  by (simp add: typeNameFromURL_def)

lemma foldl_withDetail:
  "foldl (\<lambda>e (url, v). withDetail (typeNameFromURL url, v) e) e ds =
     ConnectError (code e) (message e) (details e @ map (\<lambda>(url, v). (typeNameFromURL url, v)) ds)
       (remote e) (cause e)"
proof (induction ds arbitrary: e)
  case Nil
  then show ?case by (cases e) simp
next
  case (Cons d ds)
  then show ?case by (cases d) (simp add: withDetail_def)
qed

lemma writeStatus_simps [simp]:
  assumes "rspSent rsp = None"
  shows "rspBody (httpWriteStatus name marshal rsp st cerr) = rspBody rsp @ marshal (grpcStatusFromError cerr)"
    and "map_option fst (rspSent (httpWriteStatus name marshal rsp st cerr)) = Some st"
  using assms by (simp_all add: httpWriteStatus_def Let_def writeBody_def writeHeader_def)

lemma details_roundtrip:
  assumes "\<And>ty v. (ty, v) \<in> set ds \<Longrightarrow> CHR ''/'' \<notin> set ty"
  shows "map (\<lambda>(url, v). (typeNameFromURL url, v))
    (map (\<lambda>(ty, v). (''type.googleapis.com/'' @ ty, v)) ds) = ds"
proof -
  have "map (\<lambda>(url, v). (typeNameFromURL url, v)) (map (\<lambda>(ty, v). (''type.googleapis.com/'' @ ty, v)) ds) =
      map id ds"
    unfolding map_map using assms typeName_prefix by (intro map_cong) (auto simp: comp_def)
  then show ?thesis by simp
qed

lemma error_roundtrip:
  assumes codec: "unmarshal (marshal (grpcStatusFromError cerr)) = (grpcStatusFromError cerr, False)"
    and fresh: "rspSent rsp = None" "rspBody rsp = []"
    and cerr: "asConnectError ct err = cerr" and nonzero: "code cerr \<noteq> 0"
    and types: "\<And>ty v. (ty, v) \<in> set (details cerr) \<Longrightarrow> CHR ''/'' \<notin> set ty"
  shows "\<exists>st h. rspSent (httpWriteError ct name marshal rsp err) = Some (st, h) \<and> 400 \<le> st \<and> st < 600 \<and>
    httpErrorFromResponse unmarshal statusText pack st ctype
      (rspBody (httpWriteError ct name marshal rsp err)) =
    Some (ConnectError (code cerr) (message cerr) (details cerr) True None)"
proof -
  let ?r = "httpWriteError ct name marshal rsp err" and ?st = "httpStatusCodeFromRPC (code cerr)"
  have r: "?r = httpWriteStatus name marshal rsp ?st cerr"
    by (simp add: httpWriteError_def cerr)
  obtain h where sent: "rspSent ?r = Some (?st, h)"
    using writeStatus_simps(2) [OF fresh(1), of name marshal ?st cerr] unfolding r by auto
  have body: "rspBody ?r = marshal (grpcStatusFromError cerr)"
    unfolding r using writeStatus_simps(1) [OF fresh(1)] fresh(2) by simp
  have range: "400 \<le> ?st" "?st < 600"
    using statusFromRPC_error [OF nonzero] by simp_all
  have "httpErrorFromResponse unmarshal statusText pack ?st ctype (rspBody ?r) =
      Some (ConnectError (code cerr) (message cerr) (details cerr) True None)"
    unfolding body httpErrorFromResponse_def codec
    using range details_roundtrip [OF types, of "details cerr"]
    by (simp add: foldl_withDetail grpcStatusFromError_def withRemote_def newError_def)
  then show ?thesis
    using sent range by blast
qed

section \<open>Properties\<close>

text \<open>An error crosses HTTP unchanged: when a handler error with a non-zero code is written to
  a fresh response, the status is an error status, and a client that reads status and body
  back gets an error of the same code, message and details, marked as remote; provided the
  codec reads back the status message it wrote and the detail types contain no slash.\<close>

theorem error_crosses_http:
  assumes "unmarshal (marshal (grpcStatusFromError cerr)) = (grpcStatusFromError cerr, False)"
    and "rspSent rsp = None" and "rspBody rsp = []"
    and "asConnectError ct err = cerr" and "code cerr \<noteq> 0"
    and "list_all (\<lambda>(ty, v). CHR ''/'' \<notin> set ty) (details cerr)"
  shows "\<exists>st h. rspSent (httpWriteError ct name marshal rsp err) = Some (st, h) \<and> 400 \<le> st \<and> st < 600 \<and>
    httpErrorFromResponse unmarshal statusText pack st ctype
      (rspBody (httpWriteError ct name marshal rsp err)) =
    Some (ConnectError (code cerr) (message cerr) (details cerr) True None)"
proof (rule error_roundtrip [where unmarshal = unmarshal])
  show "CHR ''/'' \<notin> set ty" if "(ty, v) \<in> set (details cerr)" for ty v
    using assms(6) that by (auto simp: list_all_iff)
qed (use assms in simp_all)

theorem error_crosses_http_witness:
  "\<exists>st h. rspSent (httpWriteError (\<lambda>_. []) ''json'' (\<lambda>s. ''{}'') \<lparr>rspHeader = \<lambda>_. None, rspSent = None, rspBody = []\<rparr>
       (Wrapped ''call: gone'' (Conn (ConnectError CodeNotFound ''gone'' [(''a.B'', ''v'')] False None)))) = Some (st, h) \<and>
     400 \<le> st"
  using error_crosses_http [where
      unmarshal = "\<lambda>_. (\<lparr>statusCode = CodeNotFound, statusMessage = ''gone'',
                       statusDetails = [(''type.googleapis.com/a.B'', ''v'')]\<rparr>, False)"
      and marshal = "\<lambda>s. ''{}''" and ct = "\<lambda>_. []" and name = "''json''"
      and rsp = "\<lparr>rspHeader = \<lambda>_. None, rspSent = None, rspBody = []\<rparr>"
      and err = "Wrapped ''call: gone'' (Conn (ConnectError CodeNotFound ''gone'' [(''a.B'', ''v'')] False None))"
      and cerr = "ConnectError CodeNotFound ''gone'' [(''a.B'', ''v'')] False None"
      and statusText = "\<lambda>_. []" and pack = "\<lambda>_ _. Inl []" and ctype = "[]"]
  by (auto simp: grpcStatusFromError_def asConnectError_def)

text \<open>The status of an error is an error status: only the code zero maps to 200, every other
  code, also one out of the table, to a status from 400 to 599; and an error that a peer sent
  is never passed on as the handler's own.\<close>

theorem error_status_range:
  "(if c = 0 then httpStatusCodeFromRPC c = 200
    else 400 \<le> httpStatusCodeFromRPC c \<and> httpStatusCodeFromRPC c < 600) \<and>
   \<not> remote (asConnectError ct err)"
  using statusFromRPC_error [of c] statusFromRPC_OK asConnectError_local by simp

text \<open>An error response whose body is a JSON object without a code, such as an empty object,
  is read as an error of code zero whatever the HTTP status says: the status table is only
  used when the body cannot be decoded at all.\<close>

theorem error_body_without_code:
  "httpErrorFromResponse (\<lambda>src. (\<lparr>statusCode = 0, statusMessage = [], statusDetails = []\<rparr>, False))
     statusText pack 503 ctype ''{}'' = Some (ConnectError 0 [] [] True None) \<and>
   httpStatusCodeToRPC 503 = CodeUnavailable"
  by (simp add: httpErrorFromResponse_def withRemote_def newError_def httpStatusCodeToRPC_def)

end
