(* ===== verification/Compression.thy ===== *)
theory Compression
  imports Errors
begin

text \<open>
  Content encodings: \<open>compression.go\<close>.  A compressor is an element of a type \<open>'c\<close> whose
  \<open>Name\<close> method is the argument \<open>Name\<close>; a nil \<open>connect.Compressor\<close> is \<open>None\<close>.
\<close>

section \<open>Registration\<close>

definition CompressionNameIdentity :: string where
  "CompressionNameIdentity = ''identity''"

record 'c compressors =
  byName :: "string \<Rightarrow> 'c option"
  names :: string

fun newCompressors_loop ::
  "('c \<Rightarrow> string) \<Rightarrow> 'c list \<Rightarrow> (string \<Rightarrow> 'c option) \<Rightarrow> string list \<Rightarrow>
   (string \<Rightarrow> 'c option) \<times> string list"
where
  "newCompressors_loop Name [] bn ns = (bn, ns)"
| "newCompressors_loop Name (compressor # lst) bn ns =
     (let name = Name compressor in
      if bn name \<noteq> None \<or> name = [] \<or> name = CompressionNameIdentity
      then newCompressors_loop Name lst bn ns
      else newCompressors_loop Name lst (bn(name \<mapsto> compressor)) (ns @ [name]))"

definition newCompressors :: "('c \<Rightarrow> string) \<Rightarrow> 'c list \<Rightarrow> 'c compressors" where
  "newCompressors Name lst =
     (let (bn, ns) = newCompressors_loop Name lst (\<lambda>_. None) []
      in \<lparr>byName = bn, names = join_with '', '' ns\<rparr>)"

definition encodingName :: "('c \<Rightarrow> string) \<Rightarrow> 'c option \<Rightarrow> string" where
  "encodingName Name compressor =
     (case compressor of None \<Rightarrow> CompressionNameIdentity | Some c \<Rightarrow> Name c)"

definition get :: "'c compressors \<Rightarrow> string \<Rightarrow> 'c option" where
  "get c name = byName c name"

section \<open>Negotiation\<close>

definition isCommaOrSpace :: "char \<Rightarrow> bool" where
  "isCommaOrSpace r \<longleftrightarrow> r = CHR '','' \<or> r = CHR '' ''"

text \<open>
  \<open>strings.FieldsFuncSeq\<close>: the maximal runs of bytes that are not separators.  Comma and
  space are single bytes in UTF-8, so the runes of the source and bytes split alike.
\<close>

fun fieldsFunc :: "(char \<Rightarrow> bool) \<Rightarrow> string \<Rightarrow> string \<Rightarrow> string list" where
  "fieldsFunc f run [] = (if run = [] then [] else [run])"
| "fieldsFunc f run (c # s) =
     (if f c then (if run = [] then [] else [run]) @ fieldsFunc f [] s
      else fieldsFunc f (run @ [c]) s)"

text \<open>The loop over the accepted names, with the weight after a semicolon dropped.\<close>

fun firstAccepted :: "'c compressors \<Rightarrow> string list \<Rightarrow> 'c option" where
  "firstAccepted c [] = None"
| "firstAccepted c (name # ns) =
     (let (name, _, _) = cut_on CHR '';'' name in
      case byName c name of
        Some compressor \<Rightarrow> Some compressor
      | None \<Rightarrow> firstAccepted c ns)"

text \<open>The text of the error is \<open>unknown compression ...\<close>; it is built by \<open>connect.Errorf\<close>.\<close>

definition negotiate ::
  "'c compressors \<Rightarrow> string \<Rightarrow> string \<Rightarrow> connectError + 'c option \<times> 'c option"
where
  "negotiate c sent accept =
     (let request = (if sent \<noteq> [] \<and> sent \<noteq> CompressionNameIdentity then byName c sent else None) in
      if sent \<noteq> [] \<and> sent \<noteq> CompressionNameIdentity \<and> request = None
      then Inl (newError CodeUnimplemented
             (''unknown compression '' @ sent @ '': supported encodings are '' @ names c))
      else
        (let response =
           (if request = None \<and> accept \<noteq> []
            then firstAccepted c (fieldsFunc isCommaOrSpace [] accept) else request)
         in Inr (request, response)))"

section \<open>The decompressed body\<close>

text \<open>
  A body with its decompressor.  \<open>closeLog\<close> records the calls of \<open>Close\<close> on the two; their
  results are arguments of \<open>closeBody\<close>, and \<open>errors.Join\<close> keeps the non-nil ones.
\<close>

datatype closer = CloseDecompressor | CloseBody

record decompressedBody =
  closeOnce :: bool
  closeErr :: "goError list"
  closeLog :: "closer list"

definition decompressBody :: "goError option \<Rightarrow> goError + decompressedBody" where
  "decompressBody decompressErr =
     (case decompressErr of
        Some err \<Rightarrow> Inl err
      | None \<Rightarrow> Inr \<lparr>closeOnce = False, closeErr = [], closeLog = []\<rparr>)"

definition joinErrors :: "goError option list \<Rightarrow> goError list" where
  "joinErrors errs = List.map_filter id errs"

definition closeBody ::
  "goError option \<Rightarrow> goError option \<Rightarrow> decompressedBody \<Rightarrow> goError list \<times> decompressedBody"
where
  "closeBody decompressorErr bodyErr d =
     (let d = (if closeOnce d then d
               else d\<lparr>closeOnce := True, closeErr := joinErrors [decompressorErr, bodyErr],
                      closeLog := closeLog d @ [CloseDecompressor, CloseBody]\<rparr>)
      in (closeErr d, d))"

section \<open>What registration keeps\<close>

definition usable :: "('c \<Rightarrow> string) \<Rightarrow> 'c \<Rightarrow> bool" where
  "usable Name c \<longleftrightarrow> Name c \<noteq> [] \<and> Name c \<noteq> CompressionNameIdentity"

lemma newCompressors_loop_step:
  "newCompressors_loop Name (c # lst) bn ns =
     (if bn (Name c) \<noteq> None \<or> \<not> usable Name c then newCompressors_loop Name lst bn ns
      else newCompressors_loop Name lst (bn(Name c \<mapsto> c)) (ns @ [Name c]))"
  by (simp add: Let_def usable_def)

lemma newCompressors_loop_byName:
  "fst (newCompressors_loop Name lst bn ns) n =
     (case bn n of Some c \<Rightarrow> Some c | None \<Rightarrow> find (\<lambda>c. Name c = n \<and> usable Name c) lst)"
proof (induction lst arbitrary: bn ns)
  case (Cons c lst)
  show ?case
    unfolding newCompressors_loop_step
    by (cases "bn (Name c) \<noteq> None \<or> \<not> usable Name c") (auto simp: Cons.IH split: option.splits)
qed (auto split: option.splits)

lemma newCompressors_loop_names:
  "set ns = dom bn \<Longrightarrow> distinct ns \<Longrightarrow> newCompressors_loop Name lst bn ns = (bn', ns') \<Longrightarrow>
   set ns' = dom bn' \<and> distinct ns'"
proof (induction lst arbitrary: bn ns)
  case (Cons c lst)
  show ?case
  proof (cases "bn (Name c) \<noteq> None \<or> \<not> usable Name c")
    case True
    then show ?thesis
      using Cons.prems Cons.IH [of ns bn] unfolding newCompressors_loop_step by simp
  next
    case False
    then have "set (ns @ [Name c]) = dom (bn(Name c \<mapsto> c))" "distinct (ns @ [Name c])"
      using Cons.prems(1,2) by auto
    moreover have "newCompressors_loop Name lst (bn(Name c \<mapsto> c)) (ns @ [Name c]) = (bn', ns')"
      using Cons.prems(3) False unfolding newCompressors_loop_step by simp
    ultimately show ?thesis
      by (rule Cons.IH)
  qed
qed auto

lemma newCompressors_spec:
  obtains ns where "names (newCompressors Name lst) = join_with '', '' ns" and "distinct ns"
    and "set ns = dom (byName (newCompressors Name lst))"
    and "\<And>n. byName (newCompressors Name lst) n = find (\<lambda>c. Name c = n \<and> usable Name c) lst"
proof -
  obtain bn ns where r: "newCompressors_loop Name lst (\<lambda>_. None) [] = (bn, ns)"
    by fastforce
  show thesis
    using that [of ns] newCompressors_loop_names [OF _ _ r]
      newCompressors_loop_byName [of Name lst "\<lambda>_. None" "[]"] r
    by (simp add: newCompressors_def)
qed

lemma find_Some_set: "find P xs = Some x \<Longrightarrow> x \<in> set xs \<and> P x"
  by (induction xs) (auto split: if_splits)

lemma byName_new:
  "byName (newCompressors Name lst) n = Some c \<Longrightarrow> c \<in> set lst \<and> Name c = n \<and> usable Name c"
  by (rule newCompressors_spec [of Name lst]) (auto dest: find_Some_set)

text \<open>The accepted names of a header: its fields up to the semicolon.\<close>

definition accepted_names :: "string \<Rightarrow> string list" where
  "accepted_names accept = map (\<lambda>n. fst (cut_on CHR '';'' n)) (fieldsFunc isCommaOrSpace [] accept)"

lemma firstAccepted_find:
  "firstAccepted c ns =
     Option.bind (find (\<lambda>n. byName c n \<noteq> None) (map (\<lambda>n. fst (cut_on CHR '';'' n)) ns)) (byName c)"
  by (induction ns) (auto simp: Let_def split: option.splits prod.splits)

lemma negotiate_cases:
  "negotiate c sent accept =
     (if sent = [] \<or> sent = CompressionNameIdentity
      then Inr (None, Option.bind (find (\<lambda>n. byName c n \<noteq> None) (accepted_names accept)) (byName c))
      else
        (case byName c sent of
           Some compressor \<Rightarrow> Inr (Some compressor, Some compressor)
         | None \<Rightarrow> Inl (newError CodeUnimplemented
             (''unknown compression '' @ sent @ '': supported encodings are '' @ names c))))"
  by (auto simp: negotiate_def Let_def firstAccepted_find accepted_names_def split: option.splits)

fun closes :: "(goError option \<times> goError option) list \<Rightarrow> decompressedBody \<Rightarrow> decompressedBody" where
  "closes [] d = d"
| "closes ((a, b) # rs) d = closes rs (snd (closeBody a b d))"

lemma closes_once: "closeOnce d \<Longrightarrow> closes rs d = d"
  by (induction rs) (auto simp: closeBody_def Let_def)

section \<open>Properties\<close>

text \<open>Registration keeps, for every encoding name other than the empty one and identity, the
  first compressor of that name, and no other; the advertised names are exactly the
  registered ones, each once.\<close>

theorem registered_compressors:
  "\<exists>ns. names (newCompressors Name lst) = join_with '', '' ns \<and> distinct ns \<and>
     set ns = dom (byName (newCompressors Name lst)) \<and>
     byName (newCompressors Name lst) = (\<lambda>n. find (\<lambda>c. Name c = n \<and> usable Name c) lst)"
  by (rule newCompressors_spec [of Name lst]) blast

text \<open>C34: Negotiation decodes a request only with the registered compressor its encoding names,
  and fails exactly for an encoding that is neither empty, identity nor registered.  The
  response uses the request's compressor, or without one the first accepted name that is
  registered; whatever it uses was configured and is announced under its own name.\<close>

theorem negotiate_contract:
  fixes Name :: "'c \<Rightarrow> string"
  defines "cs lst \<equiv> newCompressors Name lst"
  shows "case negotiate (cs lst) sent accept of
     Inl err \<Rightarrow> sent \<noteq> [] \<and> sent \<noteq> CompressionNameIdentity \<and> byName (cs lst) sent = None \<and>
       code err = CodeUnimplemented
   | Inr (request, response) \<Rightarrow>
       encodingName Name request = (if sent = [] then CompressionNameIdentity else sent) \<and>
       (if request = None
        then response = Option.bind (find (\<lambda>n. byName (cs lst) n \<noteq> None) (accepted_names accept))
               (byName (cs lst))
        else response = request) \<and>
       set_option response \<subseteq> {c \<in> set lst. usable Name c}"
proof -
  have reg: "set_option (byName (newCompressors Name lst) n) \<subseteq> {c \<in> set lst. usable Name c}" for n
    using byName_new [of Name lst n] by auto
  have reg': "set_option (Option.bind no (byName (newCompressors Name lst))) \<subseteq> {c \<in> set lst. usable Name c}"
    for no
    using reg by (cases no) auto
  show ?thesis
    using reg [of sent] reg' byName_new [of Name lst sent]
    by (auto simp: cs_def negotiate_cases encodingName_def split: option.splits)
qed

text \<open>Closing a decompressed body is idempotent: however often it is closed, the decompressor
  and the raw body are closed exactly once, in this order, and every call returns the errors
  of that one time.\<close>

theorem close_idempotent:
  assumes "decompressBody None = Inr d" and "rs \<noteq> []"
  shows "closeLog (closes rs d) = [CloseDecompressor, CloseBody] \<and>
    fst (closeBody a b (closes rs d)) = joinErrors [fst (hd rs), snd (hd rs)]"
proof (cases rs)
  case (Cons r rest)
  obtain x y where [simp]: "r = (x, y)" by fastforce
  let ?d = "snd (closeBody x y d)"
  have d: "closeOnce ?d" "closeLog ?d = [CloseDecompressor, CloseBody]" "closeErr ?d = joinErrors [x, y]"
    using assms(1) by (auto simp: decompressBody_def closeBody_def)
  then have "closes rs d = ?d"
    using Cons closes_once by simp
  then show ?thesis
    using Cons d by (simp add: closeBody_def)
qed (use assms in simp)

theorem close_idempotent_witness:
  "closeLog (closes [(Some EOF, None), (None, None)] \<lparr>closeOnce = False, closeErr = [], closeLog = []\<rparr>) =
     [CloseDecompressor, CloseBody]"
  using close_idempotent [of "\<lparr>closeOnce = False, closeErr = [], closeLog = []\<rparr>"
      "[(Some EOF, None), (None, None)]"]
  by (simp add: decompressBody_def)

end
