(* ===== verification/PathEscape.thy ===== *)
theory PathEscape
  imports Prelude
begin

text \<open>
  The byte classes and the percent-encoding of \<open>path_parser.go\<close> (lines 234 to 373):
  \<open>isIdentStart\<close>, \<open>isIdent\<close>, \<open>isLiteral\<close>, \<open>isVariable\<close>, \<open>ishex\<close>, \<open>unhex\<close>,
  \<open>pathIsHexSlash\<close>, \<open>pathEscape\<close>, \<open>validateHex\<close> and \<open>pathUnescape\<close>, and
  \<open>canonicalSegment\<close> of \<open>router.go\<close>.  A loop over \<open>input[i:]\<close> is recursion on the
  remaining input; \<open>i += 2\<close> before the loop's own \<open>i++\<close> drops two more bytes.
\<close>

section \<open>Byte classes\<close>

definition isIdentStart :: "char \<Rightarrow> bool" where
  "isIdentStart c \<longleftrightarrow>
     (c \<ge> CHR ''a'' \<and> c \<le> CHR ''z'') \<or> (c \<ge> CHR ''A'' \<and> c \<le> CHR ''Z'') \<or> c = CHR ''_''"

definition isIdent :: "char \<Rightarrow> bool" where
  "isIdent c \<longleftrightarrow> isIdentStart c \<or> (c \<ge> CHR ''0'' \<and> c \<le> CHR ''9'')"

definition isVariable :: "char \<Rightarrow> bool" where
  "isVariable c \<longleftrightarrow> isIdent c \<or> c = CHR ''.'' \<or> c = CHR ''-'' \<or> c = CHR ''~''"

definition isLiteral :: "char \<Rightarrow> bool" where
  "isLiteral c \<longleftrightarrow> isVariable c \<or> c = CHR ''%''"

definition upperhex :: string where
  "upperhex = ''0123456789ABCDEF''"

definition ishex :: "char \<Rightarrow> bool" where
  "ishex c \<longleftrightarrow>
     (CHR ''0'' \<le> c \<and> c \<le> CHR ''9'') \<or> (CHR ''a'' \<le> c \<and> c \<le> CHR ''f'') \<or>
     (CHR ''A'' \<le> c \<and> c \<le> CHR ''F'')"

definition unhex :: "char \<Rightarrow> 8 word" where
  "unhex c =
     (if CHR ''0'' \<le> c \<and> c \<le> CHR ''9'' then byte_of c - byte_of CHR ''0''
      else if CHR ''a'' \<le> c \<and> c \<le> CHR ''f'' then byte_of c - byte_of CHR ''a'' + 10
      else if CHR ''A'' \<le> c \<and> c \<le> CHR ''F'' then byte_of c - byte_of CHR ''A'' + 10
      else 0)"

section \<open>Percent-encoding\<close>

datatype pathEncoding = pathEncodeSingle | pathEncodeMulti

definition pathIsHexSlash :: "string \<Rightarrow> bool" where
  "pathIsHexSlash s \<longleftrightarrow>
     \<not> length s < 3 \<and> s ! 0 = CHR ''%'' \<and> s ! 1 = CHR ''2'' \<and>
     (s ! 2 = CHR ''f'' \<or> s ! 2 = CHR ''F'')"

definition hexbyte :: "char \<Rightarrow> string" where
  "hexbyte c =
     [CHR ''%'', upperhex ! unat (drop_bit 4 (byte_of c)), upperhex ! unat (and (byte_of c) 15)]"

fun pathEscape_loop :: "pathEncoding \<Rightarrow> string \<Rightarrow> string" where
  "pathEscape_loop mode [] = []"
| "pathEscape_loop mode (c # s) =
     (if c = CHR ''%'' \<and> mode = pathEncodeMulti \<and> pathIsHexSlash (c # s)
      then ''%2F'' @ pathEscape_loop mode (drop 2 s)
      else if \<not> isVariable c then hexbyte c @ pathEscape_loop mode s
      else c # pathEscape_loop mode s)"

definition pathEscape :: "string \<Rightarrow> pathEncoding \<Rightarrow> string" where
  "pathEscape input mode =
     (let hexCount = length (filter (\<lambda>c. \<not> isVariable c) input)
      in if hexCount = 0 then input else pathEscape_loop mode input)"

text \<open>\<open>validateHex\<close> returns the bad escape, \<open>None\<close> for Go's nil error.\<close>

definition validateHex :: "string \<Rightarrow> string option" where
  "validateHex input =
     (if length input < 3 \<or> input ! 0 \<noteq> CHR ''%'' \<or> \<not> ishex (input ! 1) \<or> \<not> ishex (input ! 2)
      then Some (if length input > 3 then take 3 input else input)
      else None)"

text \<open>The first loop of \<open>pathUnescape\<close>: the first bad escape, or the count of escapes.\<close>

fun pathUnescape_count :: "string \<Rightarrow> nat \<Rightarrow> string + nat" where
  "pathUnescape_count [] n = Inr n"
| "pathUnescape_count (c # s) n =
     (if c = CHR ''%''
      then (case validateHex (c # s) of
              Some err \<Rightarrow> Inl err
            | None \<Rightarrow> pathUnescape_count (drop 2 s) (n + 1))
      else pathUnescape_count s n)"

fun pathUnescape_loop :: "pathEncoding \<Rightarrow> string \<Rightarrow> string" where
  "pathUnescape_loop mode [] = []"
| "pathUnescape_loop mode (c # s) =
     (if c = CHR ''%''
      then (if mode = pathEncodeMulti \<and> pathIsHexSlash (c # s) then ''%2F''
            else [char_of_byte (or (push_bit 4 (unhex (s ! 0))) (unhex (s ! 1)))])
           @ pathUnescape_loop mode (drop 2 s)
      else c # pathUnescape_loop mode s)"

definition pathUnescape :: "string \<Rightarrow> pathEncoding \<Rightarrow> string + string" where
  "pathUnescape input mode =
     (case pathUnescape_count input 0 of
        Inl err \<Rightarrow> Inl err
      | Inr percentCount \<Rightarrow>
          if percentCount = 0 then Inr input else Inr (pathUnescape_loop mode input))"

text \<open>\<open>canonicalSegment\<close> of \<open>router.go\<close>; \<open>None\<close> is its \<open>false\<close>.\<close>

definition canonicalSegment :: "string \<Rightarrow> string option" where
  "canonicalSegment segment =
     (case pathUnescape segment pathEncodeSingle of
        Inl err \<Rightarrow> None
      | Inr unescaped \<Rightarrow> Some (pathEscape unescaped pathEncodeSingle))"

section \<open>Facts about bytes\<close>

lemma length_upperhex [simp]: "length upperhex = 16"
  by (simp add: upperhex_def)

lemma upperhex_in [simp]: "n < 16 \<Longrightarrow> upperhex ! n \<in> set upperhex"
  by simp

text \<open>Closed facts about the sixteen digits are checked by evaluation, one digit at a time.\<close>

lemma upto_16: "(n::nat) < 16 \<longleftrightarrow> n \<in> set [0..<16]"
  by simp

lemma digits_unhex:
  "\<forall>n \<in> set [0..<16]. unat (unhex (upperhex ! n)) = n \<and> ishex (upperhex ! n) \<and> isVariable (upperhex ! n)"
  by code_simp

lemma unhex_upperhex [bytes]: "n < 16 \<Longrightarrow> unhex (upperhex ! n) = of_nat n"
  using digits_unhex
  by (simp add: word_unat_eq_iff unat_of_nat take_bit_nat_eq_self)

lemma ishex_upperhex [bytes]: "n < 16 \<Longrightarrow> ishex (upperhex ! n)"
  using digits_unhex upto_16 by blast

lemma isVariable_upperhex [bytes]: "n < 16 \<Longrightarrow> isVariable (upperhex ! n)"
  using digits_unhex upto_16 by blast

lemma high_nibble [bytes]: "unat (drop_bit 4 (w :: 8 word)) < 16"
proof -
  have "unat w < 256"
    using unsigned_less [of w] by simp
  then show ?thesis
    unfolding unat_drop_bit_eq by (simp add: drop_bit_eq_div)
qed

lemma low_nibble [bytes]: "unat (and (w :: 8 word) 15) < 16"
proof -
  have "and w 15 = take_bit 4 w"
    by (simp add: take_bit_eq_mask mask_eq_exp_minus_1)
  then show ?thesis
    by (simp add: unsigned_take_bit_eq take_bit_nat_def)
qed

lemma nibbles [bytes]: "or (push_bit 4 (drop_bit 4 w)) (and w 15) = (w :: 8 word)"
proof -
  have low: "and w 15 = take_bit 4 w"
    by (simp add: take_bit_eq_mask mask_eq_exp_minus_1)
  show ?thesis
    unfolding low by (rule bit_word_eqI) (auto simp: bit_simps)
qed

lemma isVariable_special [simp]:
  "\<not> isVariable CHR ''%''" "\<not> isVariable CHR ''/''" "\<not> isVariable CHR '':''"
  "\<not> isVariable CHR ''*''" "\<not> isVariable CHR ''{''" "\<not> isVariable CHR ''}''"
  by (simp_all add: isVariable_def isIdent_def isIdentStart_def)

section \<open>Escapes of one byte\<close>

lemma hexbyte_append: "hexbyte c @ s = CHR ''%'' # tl (hexbyte c) @ s"
  by (simp add: hexbyte_def)

lemma validateHex_hexbyte [simp]: "validateHex (hexbyte c @ s) = None"
  by (simp add: validateHex_def hexbyte_def ishex_upperhex high_nibble low_nibble)

lemma decode_hexbyte:
  "char_of_byte (or (push_bit 4 (unhex ((tl (hexbyte c) @ s) ! 0))) (unhex ((tl (hexbyte c) @ s) ! 1))) = c"
  by (simp add: hexbyte_def unhex_upperhex high_nibble low_nibble nibbles)

lemma upperhex_not_f: "n < 16 \<Longrightarrow> upperhex ! n \<noteq> CHR ''f''"
proof -
  assume "n < 16"
  then have "upperhex ! n \<in> set upperhex" by simp
  then show ?thesis by (auto simp: upperhex_def)
qed

lemma pathIsHexSlash_hexbyte [simp]: "pathIsHexSlash (hexbyte c @ s) \<longleftrightarrow> c = CHR ''/''"
proof
  assume "pathIsHexSlash (hexbyte c @ s)"
  then have "hexbyte c = ''%2F''"
    by (auto simp: pathIsHexSlash_def hexbyte_def upperhex_not_f low_nibble)
  then have "c = char_of_byte (or (push_bit 4 (unhex CHR ''2'')) (unhex CHR ''F''))"
    using decode_hexbyte [of c "[]"] by simp
  then show "c = CHR ''/''"
    by (simp add: unhex_def byte_of_def char_of_byte_def char_of_eq_iff)
next
  assume "c = CHR ''/''"
  then show "pathIsHexSlash (hexbyte c @ s)"
    by (simp add: pathIsHexSlash_def hexbyte_def upperhex_def byte_of_def)
qed

lemma length_hexbyte [simp]: "length (hexbyte c) = 3"
  by (simp add: hexbyte_def)

section \<open>The fast paths agree with the loops\<close>

lemma pathEscape_loop_plain: "\<forall>c \<in> set s. isVariable c \<Longrightarrow> pathEscape_loop mode s = s"
  by (induction s) auto

lemma pathEscape_eq: "pathEscape s mode = pathEscape_loop mode s"
  by (auto simp: pathEscape_def filter_empty_conv pathEscape_loop_plain)

lemma pathUnescape_count_ge: "pathUnescape_count s n = Inr m \<Longrightarrow> n \<le> m"
  by (induction s n rule: pathUnescape_count.induct) (auto split: if_splits option.splits)

lemma pathUnescape_count_eq: "pathUnescape_count s n = Inr n \<Longrightarrow> CHR ''%'' \<notin> set s"
  by (induction s n rule: pathUnescape_count.induct)
     (auto split: if_splits option.splits dest: pathUnescape_count_ge)

lemma pathUnescape_loop_plain: "CHR ''%'' \<notin> set s \<Longrightarrow> pathUnescape_loop mode s = s"
  by (induction s) auto

lemma pathUnescape_eq:
  "pathUnescape s mode =
     (case pathUnescape_count s 0 of Inl e \<Rightarrow> Inl e | Inr _ \<Rightarrow> Inr (pathUnescape_loop mode s))"
  by (auto simp: pathUnescape_def pathUnescape_loop_plain dest: pathUnescape_count_eq
      split: sum.splits)

section \<open>Round trips\<close>

lemma unescape_count_hexbyte [simp]:
  "pathUnescape_count (hexbyte c @ s) n = pathUnescape_count s (n + 1)"
proof -
  have "drop 2 (tl (hexbyte c) @ s) = s"
    by (simp add: hexbyte_def)
  then show ?thesis
    using validateHex_hexbyte [of c s] by (simp add: hexbyte_append)
qed

lemma unescape_loop_hexbyte:
  "pathUnescape_loop mode (hexbyte c @ s) =
     (if mode = pathEncodeMulti \<and> c = CHR ''/'' then ''%2F'' else [c]) @ pathUnescape_loop mode s"
proof -
  have "drop 2 (tl (hexbyte c) @ s) = s"
    by (simp add: hexbyte_def)
  then show ?thesis
    using pathIsHexSlash_hexbyte [of c s] decode_hexbyte [of c s] by (simp add: hexbyte_append)
qed

lemma unescape_escape_single_loop:
  "pathUnescape_loop pathEncodeSingle (pathEscape_loop pathEncodeSingle s) = s"
  by (induction s) (auto simp: unescape_loop_hexbyte)

lemma unescape_count_escape:
  "\<exists>m. pathUnescape_count (pathEscape_loop mode s) n = Inr m"
proof (induction mode s arbitrary: n rule: pathEscape_loop.induct)
  case (2 mode c s)
  have slash: "pathUnescape_count (''%2F'' @ t) n = pathUnescape_count t (n + 1)" for t n
    by (simp add: validateHex_def ishex_def numeral_2_eq_2)
  show ?case
    using "2.IH" slash by auto
qed simp

lemma unescape_escape_single:
  "pathUnescape (pathEscape s pathEncodeSingle) pathEncodeSingle = Inr s"
  using unescape_count_escape [of pathEncodeSingle s 0]
  by (auto simp: pathUnescape_eq pathEscape_eq unescape_escape_single_loop)

text \<open>
  Canonical segments: what \<open>pathEscape\<close> writes in single mode.  Unreserved bytes stand for
  themselves; every other byte is one upper-case escape.
\<close>

fun canonical :: "string \<Rightarrow> bool" where
  "canonical [] = True"
| "canonical (c # s) =
     (if c = CHR ''%''
      then 2 \<le> length s \<and> s ! 0 \<in> set upperhex \<and> s ! 1 \<in> set upperhex
           \<and> \<not> isVariable (char_of_byte (or (push_bit 4 (unhex (s ! 0))) (unhex (s ! 1))))
           \<and> canonical (drop 2 s)
      else isVariable c \<and> canonical s)"

lemma hex_nibble: "h \<in> set upperhex \<Longrightarrow> \<exists>n < 16. h = upperhex ! n"
  by (metis in_set_conv_nth length_upperhex)

lemma isLiteral_upperhex: "h \<in> set upperhex \<Longrightarrow> isLiteral h"
  using hex_nibble isVariable_upperhex isLiteral_def by blast

lemma join_nibbles_bits:
  fixes a b :: "8 word"
  assumes a: "take_bit 4 a = a" and b: "take_bit 4 b = b"
  shows "drop_bit 4 (or (push_bit 4 a) b) = a" and "and (or (push_bit 4 a) b) 15 = b"
proof -
  have a_high: "\<not> bit a i" and b_high: "\<not> bit b i" if "4 \<le> i" for i
    using that a b by (metis bit_take_bit_iff not_less)+
  have mask: "(15 :: 8 word) = mask 4"
    by (simp add: mask_eq_exp_minus_1)
  show "drop_bit 4 (or (push_bit 4 a) b) = a"
  proof (rule bit_word_eqI)
    fix i
    assume "i < LENGTH(8)"
    then show "bit (drop_bit 4 (or (push_bit 4 a) b)) i = bit a i"
      using a_high [of i] b_high [of "4 + i"] by (cases "i < 4") (auto simp: bit_simps)
  qed
  show "and (or (push_bit 4 a) b) 15 = b"
    unfolding mask
  proof (rule bit_word_eqI)
    fix i
    assume "i < LENGTH(8)"
    then show "bit (and (or (push_bit 4 a) b) (mask 4)) i = bit b i"
      using b_high [of i] by (cases "i < 4") (auto simp: bit_simps)
  qed
qed

lemma join_nibbles:
  fixes m n :: nat
  assumes "m < 16" and "n < 16"
  shows "unat (drop_bit 4 (or (push_bit 4 (of_nat m)) (of_nat n) :: 8 word)) = m"
    and "unat (and (or (push_bit 4 (of_nat m)) (of_nat n)) 15 :: 8 word) = n"
proof -
  have small: "take_bit 4 (of_nat k) = (of_nat k :: 8 word) \<and> unat (of_nat k :: 8 word) = k"
    if "k < 16" for k :: nat
    using that by (simp add: take_bit_of_nat unat_of_nat take_bit_nat_eq_self)
  show "unat (drop_bit 4 (or (push_bit 4 (of_nat m)) (of_nat n) :: 8 word)) = m"
    and "unat (and (or (push_bit 4 (of_nat m)) (of_nat n)) 15 :: 8 word) = n"
    using small assms join_nibbles_bits by simp_all
qed

lemma hexbyte_decode:
  assumes "h \<in> set upperhex" and "l \<in> set upperhex"
  shows "hexbyte (char_of_byte (or (push_bit 4 (unhex h)) (unhex l))) = [CHR ''%'', h, l]"
proof -
  obtain m n where "m < 16" "n < 16" "h = upperhex ! m" "l = upperhex ! n"
    using assms hex_nibble by blast
  then show ?thesis
    using join_nibbles [of m n] by (simp add: hexbyte_def unhex_upperhex)
qed

lemma canonical_hexbyte_append:
  "canonical (hexbyte c @ s) \<longleftrightarrow> \<not> isVariable c \<and> canonical s"
proof -
  have d: "drop 2 (tl (hexbyte c) @ s) = s" and l: "2 \<le> length (tl (hexbyte c) @ s)"
    by (simp_all add: hexbyte_def)
  have h: "(tl (hexbyte c) @ s) ! 0 \<in> set upperhex" "(tl (hexbyte c) @ s) ! 1 \<in> set upperhex"
    using high_nibble [of "byte_of c"] low_nibble [of "byte_of c"]
    by (simp_all add: hexbyte_def)
  show ?thesis
    using decode_hexbyte [of c s] d l h by (simp add: hexbyte_append)
qed

lemma canonical_escape_single: "canonical (pathEscape s pathEncodeSingle)"
  unfolding pathEscape_eq by (induction s) (auto simp: canonical_hexbyte_append)

text \<open>
  \<open>canonical\<close> strings are built from unreserved bytes and escapes: an induction rule that
  follows this shape, and with it the converse of the last lemma.
\<close>

lemma canonical_induct [consumes 1, case_names Nil plain escaped]:
  assumes "canonical s"
    and "P []"
    and "\<And>c s. isVariable c \<Longrightarrow> canonical s \<Longrightarrow> P s \<Longrightarrow> P (c # s)"
    and "\<And>c s. \<not> isVariable c \<Longrightarrow> canonical s \<Longrightarrow> P s \<Longrightarrow> P (hexbyte c @ s)"
  shows "P s"
  using assms(1)
proof (induction s rule: canonical.induct)
  case 1
  show ?case by (rule assms(2))
next
  case (2 c s)
  show ?case
  proof (cases "c = CHR ''%''")
    case False
    with 2 assms(3) show ?thesis by simp
  next
    case True
    with "2.prems" obtain h l t where s: "s = h # l # t"
      by (cases s; cases "tl s") auto
    let ?d = "char_of_byte (or (push_bit 4 (unhex h)) (unhex l))"
    from "2.prems" True s have hl: "h \<in> set upperhex" "l \<in> set upperhex" "\<not> isVariable ?d" "canonical t"
      by auto
    with "2.IH"(1) True s "2.prems" have "P t" by auto
    then have "P (hexbyte ?d @ t)"
      using assms(4) hl by blast
    then show ?thesis
      using hexbyte_decode hl True s by simp
  qed
qed

lemma canonical_is_escape:
  "canonical s \<Longrightarrow> pathEscape (pathUnescape_loop pathEncodeSingle s) pathEncodeSingle = s"
proof (induction rule: canonical_induct)
  case (plain c s)
  then have "c \<noteq> CHR ''%''" by auto
  with plain show ?case by (simp add: pathEscape_eq)
qed (auto simp: pathEscape_eq unescape_loop_hexbyte)

lemma canonical_iff: "canonical s \<longleftrightarrow> (\<exists>u. s = pathEscape u pathEncodeSingle)"
  using canonical_escape_single canonical_is_escape by metis

lemma canonical_literal: "canonical s \<Longrightarrow> c \<in> set s \<Longrightarrow> isLiteral c"
proof (induction rule: canonical_induct)
  case (escaped d s)
  then show ?case
    using high_nibble [of "byte_of d"] low_nibble [of "byte_of d"]
    by (auto simp: hexbyte_def isLiteral_def isVariable_upperhex)
qed (auto simp: isLiteral_def)

lemma isLiteral_special [simp]:
  "\<not> isLiteral CHR ''/''" "\<not> isLiteral CHR '':''" "\<not> isLiteral CHR ''*''"
  "\<not> isLiteral CHR ''{''" "\<not> isLiteral CHR ''}''"
  by (simp_all add: isLiteral_def)

lemma canonical_special:
  "canonical s \<Longrightarrow> CHR ''/'' \<notin> set s \<and> CHR '':'' \<notin> set s \<and> CHR ''*'' \<notin> set s"
  using canonical_literal isLiteral_special by blast

lemma canonicalSegment_Some: "canonicalSegment s = Some t \<Longrightarrow> canonical t"
  by (auto simp: canonicalSegment_def canonical_escape_single split: sum.splits)

lemma canonicalSegment_canonical: "canonical s \<Longrightarrow> canonicalSegment s = Some s"
  unfolding canonicalSegment_def
  using canonical_iff unescape_escape_single by (metis sum.simps(6))

lemma escape_single_Nil_iff [simp]: "pathEscape s pathEncodeSingle = [] \<longleftrightarrow> s = []"
  unfolding pathEscape_eq by (cases s) (auto simp: hexbyte_def)

section \<open>Multi-segment mode keeps the segments apart\<close>

lemma char_of_nat_of: "of_char c = (n::nat) \<Longrightarrow> c = char_of n"
  by auto

lemma ishex_cases: "ishex c \<Longrightarrow> c \<in> set ''0123456789abcdefABCDEF''"
proof -
  assume "ishex c"
  then have "of_char c \<in> set ([48..<58] @ [97..<103] @ [65..<71 :: nat])"
    by (auto simp: ishex_def less_eq_char_def simp del: upt_rec_numeral)
  then have "c \<in> set (map char_of ([48..<58] @ [97..<103] @ [65..<71 :: nat]))"
    by (metis char_of_char image_eqI list.set_map)
  also have "map char_of ([48..<58] @ [97..<103] @ [65..<71 :: nat]) = ''0123456789abcdefABCDEF''"
    by code_simp
  finally show ?thesis .
qed

lemma hexdigits_unhex:
  "\<forall>c \<in> set ''0123456789abcdefABCDEF''. unat (unhex c) < 16 \<and>
     (unat (unhex c) = 2 \<longleftrightarrow> c = CHR ''2'') \<and>
     (unat (unhex c) = 15 \<longleftrightarrow> c = CHR ''f'' \<or> c = CHR ''F'')"
  by code_simp

lemma unhex_nat:
  assumes "ishex c"
  shows "\<exists>n < 16. unhex c = of_nat n \<and>
    (n = 2 \<longleftrightarrow> c = CHR ''2'') \<and> (n = 15 \<longleftrightarrow> c = CHR ''f'' \<or> c = CHR ''F'')"
  using hexdigits_unhex ishex_cases [OF assms]
  by (intro exI [where x = "unat (unhex c)"]) auto

text \<open>
  A decoded escape is a slash exactly when \<open>pathIsHexSlash\<close> says so.
\<close>

lemma decode_slash:
  assumes "ishex h" and "ishex l"
  shows "char_of_byte (or (push_bit 4 (unhex h)) (unhex l)) = CHR ''/'' \<longleftrightarrow>
         h = CHR ''2'' \<and> (l = CHR ''f'' \<or> l = CHR ''F'')"
proof -
  obtain m n where m: "m < 16" "unhex h = of_nat m" "m = 2 \<longleftrightarrow> h = CHR ''2''"
    and n: "n < 16" "unhex l = of_nat n" "n = 15 \<longleftrightarrow> l = CHR ''f'' \<or> l = CHR ''F''"
    using unhex_nat [OF assms(1)] unhex_nat [OF assms(2)] by blast
  let ?w = "or (push_bit 4 (of_nat m)) (of_nat n) :: 8 word"
  have "char_of_byte ?w = CHR ''/'' \<longleftrightarrow> ?w = byte_of CHR ''/''"
    by (metis byte_of_char_of char_of_byte_of)
  also have "\<dots> \<longleftrightarrow> m = 2 \<and> n = 15"
  proof
    assume "?w = byte_of CHR ''/''"
    with join_nibbles [OF m(1) n(1)] show "m = 2 \<and> n = 15"
      by (simp add: byte_of_def)
  qed (simp add: byte_of_def)
  finally show ?thesis
    using m n by simp
qed

lemma ishex_not_slash [simp]: "\<not> ishex CHR ''/''" "\<not> ishex CHR ''%''"
  by (simp_all add: ishex_def)

text \<open>
  Well-formed escapes: every percent sign starts an escape with two hex digits.  This is
  what the first loop of \<open>pathUnescape\<close> checks.
\<close>

fun well_escaped :: "string \<Rightarrow> bool" where
  "well_escaped [] = True"
| "well_escaped (c # s) =
     (if c = CHR ''%'' then validateHex (c # s) = None \<and> well_escaped (drop 2 s)
      else well_escaped s)"

lemma count_well_escaped: "(\<exists>m. pathUnescape_count s n = Inr m) \<longleftrightarrow> well_escaped s"
  by (induction s n rule: pathUnescape_count.induct) (auto split: option.splits)

lemma pathUnescape_well_escaped:
  "pathUnescape s mode = Inr t \<longleftrightarrow> well_escaped s \<and> t = pathUnescape_loop mode s"
  unfolding pathUnescape_eq count_well_escaped [of s 0, symmetric] by (auto split: sum.splits)

lemma well_escaped_escape [simp]: "well_escaped (pathEscape s mode)"
  using unescape_count_escape [of mode s 0] count_well_escaped pathEscape_eq by metis

lemma validateHex_None:
  "validateHex (c # s) = None \<longleftrightarrow> (\<exists>h l t. s = h # l # t \<and> c = CHR ''%'' \<and> ishex h \<and> ishex l)"
  by (cases s; cases "tl s") (auto simp: validateHex_def)

lemma well_escaped_induct [consumes 1, case_names Nil plain escaped]:
  assumes "well_escaped s"
    and "P []"
    and "\<And>c s. c \<noteq> CHR ''%'' \<Longrightarrow> well_escaped s \<Longrightarrow> P s \<Longrightarrow> P (c # s)"
    and "\<And>h l s. ishex h \<Longrightarrow> ishex l \<Longrightarrow> well_escaped s \<Longrightarrow> P s \<Longrightarrow> P (CHR ''%'' # h # l # s)"
  shows "P s"
  using assms(1)
proof (induction s rule: well_escaped.induct)
  case (2 c s)
  show ?case
  proof (cases "c = CHR ''%''")
    case True
    with 2 assms(4) show ?thesis
      by (auto simp: validateHex_None numeral_2_eq_2)
  qed (use 2 assms(3) in simp)
qed (rule assms(2))

lemma pathUnescape_loop_escape:
  "pathUnescape_loop mode (CHR ''%'' # h # l # s) =
     (if mode = pathEncodeMulti \<and> h = CHR ''2'' \<and> (l = CHR ''f'' \<or> l = CHR ''F'') then ''%2F''
      else [char_of_byte (or (push_bit 4 (unhex h)) (unhex l))]) @ pathUnescape_loop mode s"
  by (auto simp: pathIsHexSlash_def numeral_2_eq_2)

text \<open>In multi mode the slashes of the decoded text are those of the escaped text.\<close>

lemma split_on_Cons_no_sep: "x \<noteq> c \<Longrightarrow> split_on c (x # s) = (x # hd (split_on c s)) # tl (split_on c s)"
  by (cases "split_on c s") auto

lemma hd_tl_map: "xs \<noteq> [] \<Longrightarrow> hd (map f xs) = f (hd xs) \<and> tl (map f xs) = map f (tl xs)"
  by (cases xs) auto

lemma split_unescape_multi:
  "well_escaped s \<Longrightarrow>
   split_on CHR ''/'' (pathUnescape_loop pathEncodeMulti s) =
     map (pathUnescape_loop pathEncodeMulti) (split_on CHR ''/'' s)"
proof (induction rule: well_escaped_induct)
  case (plain c s)
  then show ?case
    by (cases "c = CHR ''/''"; cases "split_on CHR ''/'' s") auto
next
  case (escaped h l s)
  then have "h \<noteq> CHR ''/''" "l \<noteq> CHR ''/''" by auto
  with escaped decode_slash [of h l] show ?case
    by (auto simp: split_on_Cons_no_sep hd_tl_map pathUnescape_loop_escape simp del: pathUnescape_loop.simps split_on.simps)
qed simp

text \<open>
  The multi-mode round trip.  A literal \<open>%2F\<close> in the value is kept, and \<open>%2f\<close>
  comes back in upper case, as the path template syntax asks of reserved expansion.
\<close>

fun normal_slashes :: "string \<Rightarrow> string" where
  "normal_slashes [] = []"
| "normal_slashes (c # s) =
     (if pathIsHexSlash (c # s) then ''%2F'' @ normal_slashes (drop 2 s)
      else c # normal_slashes s)"

lemma pathIsHexSlash_percent [simp]: "c \<noteq> CHR ''%'' \<Longrightarrow> \<not> pathIsHexSlash (c # s)"
  by (simp add: pathIsHexSlash_def)

lemma unescape_escape_multi_loop:
  "CHR ''/'' \<notin> set s \<Longrightarrow>
   pathUnescape_loop pathEncodeMulti (pathEscape_loop pathEncodeMulti s) = normal_slashes s"
proof (induction s rule: normal_slashes.induct)
  case (2 c s)
  have slash: "pathUnescape_loop pathEncodeMulti (''%2F'' @ t) =
      ''%2F'' @ pathUnescape_loop pathEncodeMulti t" for t
    by (simp add: pathUnescape_loop_escape del: pathUnescape_loop.simps)
  have "CHR ''/'' \<notin> set (drop 2 s)"
    using "2.prems" by (meson in_set_dropD list.set_intros(2))
  then show ?case
    using 2 slash by (auto simp: unescape_loop_hexbyte pathIsHexSlash_def simp del: append.simps(2))
qed simp

section \<open>Properties\<close>

text \<open>Escaping a path segment in single mode and unescaping it in single mode returns the
  original bytes, whatever they are, and the escaped text only holds bytes a template literal
  may hold (no slash, colon, star or brace).\<close>

theorem escape_single_roundtrip:
  "pathUnescape (pathEscape s pathEncodeSingle) pathEncodeSingle = Inr s \<and>
   list_all isLiteral (pathEscape s pathEncodeSingle)"
  using unescape_escape_single canonical_literal [OF canonical_escape_single]
  by (simp add: list_all_iff)

text \<open>Unescaping in multi mode keeps segments apart: the slashes of the result are exactly
  the slashes of the raw text (an encoded slash stays encoded), so splitting the result at
  slashes is the same as splitting the raw text and unescaping each part, and it fails
  exactly when some percent sign does not start a two-digit hex escape.\<close>

theorem unescape_multi_segments:
  "(\<exists>t. pathUnescape s pathEncodeMulti = Inr t) = well_escaped s \<and>
   (case pathUnescape s pathEncodeMulti of
      Inl err \<Rightarrow> \<not> well_escaped s
    | Inr t \<Rightarrow> split_on CHR ''/'' t =
        map (pathUnescape_loop pathEncodeMulti) (split_on CHR ''/'' s))"
proof (cases "pathUnescape s pathEncodeMulti")
  case (Inl e)
  then show ?thesis
    using pathUnescape_well_escaped [of s pathEncodeMulti] by auto
next
  case (Inr t)
  then show ?thesis
    using pathUnescape_well_escaped [of s pathEncodeMulti t] split_unescape_multi [of s]
    by (simp del: split_on.simps)
qed

text \<open>The canonical form of a request segment is a normal form of its decoded bytes: two
  segments with valid escapes get the same canonical form exactly when they decode to the
  same bytes, the canonical form is its own canonical form, and a segment with an invalid
  escape has none.\<close>

theorem canonicalSegment_normal_form:
  "(canonicalSegment s = None) = (\<not> well_escaped s) \<and>
   (canonicalSegment s = canonicalSegment t) =
     (if well_escaped s \<and> well_escaped t
      then pathUnescape s pathEncodeSingle = pathUnescape t pathEncodeSingle
      else well_escaped s = well_escaped t) \<and>
   Option.bind (canonicalSegment s) canonicalSegment = canonicalSegment s"
proof -
  have none: "(canonicalSegment r = None) = (\<not> well_escaped r)" for r
  proof (cases "pathUnescape r pathEncodeSingle")
    case (Inl e)
    then show ?thesis
      using pathUnescape_well_escaped [of r pathEncodeSingle "pathUnescape_loop pathEncodeSingle r"]
      by (simp add: canonicalSegment_def)
  next
    case (Inr u)
    then show ?thesis
      using pathUnescape_well_escaped [of r pathEncodeSingle u] by (simp add: canonicalSegment_def)
  qed
  have some: "canonicalSegment r = Some (pathEscape (pathUnescape_loop pathEncodeSingle r) pathEncodeSingle)"
    if "well_escaped r" for r
    using that pathUnescape_well_escaped [of r pathEncodeSingle "pathUnescape_loop pathEncodeSingle r"]
    by (simp add: canonicalSegment_def)
  have inj: "u = v" if "pathEscape u pathEncodeSingle = pathEscape v pathEncodeSingle" for u v
  proof -
    have "Inr u = (Inr v :: string + string)"
      unfolding unescape_escape_single [symmetric] that ..
    then show ?thesis by simp
  qed
  have "(canonicalSegment s = canonicalSegment t) =
      (pathUnescape s pathEncodeSingle = pathUnescape t pathEncodeSingle)"
    if w: "well_escaped s" "well_escaped t"
  proof -
    let ?u = "pathUnescape_loop pathEncodeSingle"
    have "pathUnescape s pathEncodeSingle = Inr (?u s)" "pathUnescape t pathEncodeSingle = Inr (?u t)"
      using w by (simp_all add: pathUnescape_well_escaped)
    moreover have "(pathEscape (?u s) pathEncodeSingle = pathEscape (?u t) pathEncodeSingle) = (?u s = ?u t)"
      by (rule iffI, erule inj, simp)
    ultimately show ?thesis
      by (simp add: some [OF w(1)] some [OF w(2)])
  qed
  moreover have "Option.bind (canonicalSegment s) canonicalSegment = canonicalSegment s"
    using canonicalSegment_Some canonicalSegment_canonical by (cases "canonicalSegment s") simp_all
  ultimately show ?thesis
    using none [of s] none [of t] by (cases "well_escaped s"; cases "well_escaped t"; cases "canonicalSegment t") simp_all
qed

end
