(* ===== verification/PathTemplate.thy ===== *)
theory PathTemplate
  imports PathEscape
begin

text \<open>
  The recursive descent parser for \<open>google.api.http\<close> path templates: lines 26 to 232 of
  \<open>path_parser.go\<close>.  The record \<open>pathParser\<close> is the Go struct; a method that mutates
  it takes the record and returns the new one.  \<open>consume\<close> returns \<open>None\<close> for Go's
  \<open>false\<close> and the advanced parser for \<open>true\<close>.  Error values keep what the message is
  made of; only the final formatting of the text is left out.
\<close>

section \<open>State and errors\<close>

record pathVariable =
  fieldPath :: string
  vstart :: int
  vend :: int

record pathParser =
  input :: string
  pos :: nat
  seenDoubleStar :: bool
  segmentCount :: nat
  outp :: string
  variables :: "pathVariable list"

datatype gotChar = GotEOF | GotRune nat

datatype syntaxError =
    Unexpected gotChar
  | Expected char gotChar
  | ExpectedPathValue
  | ExpectedIdentifier
  | InvalidEscape string

text \<open>\<open>SyntaxError\<close> carries the one-based column.\<close>

datatype parseError =
    SyntaxError nat syntaxError
  | DoubleStarNotFinal
  | DuplicateVariable string

text \<open>\<open>utf8.DecodeRuneInString\<close> on a non-empty string, as the accept ranges of Go's \<open>unicode/utf8\<close>.\<close>

definition cont :: "nat \<Rightarrow> nat \<Rightarrow> string \<Rightarrow> nat \<Rightarrow> bool" where
  "cont lo hi s i \<longleftrightarrow> i < length s \<and> lo \<le> of_char (s ! i) \<and> of_char (s ! i) \<le> hi"

definition decodeRune :: "string \<Rightarrow> nat" where
  "decodeRune s =
     (let b = (\<lambda>i. of_char (s ! i) :: nat); c = cont 128 191 s; b0 = b 0 in
      if b0 < 128 then b0
      else if 194 \<le> b0 \<and> b0 \<le> 223 \<and> c 1 then (b0 - 192) * 64 + (b 1 - 128)
      else if 224 \<le> b0 \<and> b0 \<le> 239 \<and> c 2 \<and>
              cont (if b0 = 224 then 160 else 128) (if b0 = 237 then 159 else 191) s 1
        then (b0 - 224) * 4096 + (b 1 - 128) * 64 + (b 2 - 128)
      else if 240 \<le> b0 \<and> b0 \<le> 244 \<and> c 2 \<and> c 3 \<and>
              cont (if b0 = 240 then 144 else 128) (if b0 = 244 then 143 else 191) s 1
        then (b0 - 240) * 262144 + (b 1 - 128) * 4096 + (b 2 - 128) * 64 + (b 3 - 128)
      else 65533)"

section \<open>Scanning\<close>

definition writeSegment :: "string \<Rightarrow> pathParser \<Rightarrow> pathParser" where
  "writeSegment segment p =
     p\<lparr>outp := outp p @ ''/'' @ segment, segmentCount := segmentCount p + 1\<rparr>"

definition peek :: "pathParser \<Rightarrow> char" where
  "peek p = (if pos p < length (input p) then input p ! pos p else CHR 0x00)"

definition consume :: "char \<Rightarrow> pathParser \<Rightarrow> pathParser option" where
  "consume expected p =
     (if pos p < length (input p) \<and> input p ! pos p = expected
      then Some (p\<lparr>pos := pos p + 1\<rparr>) else None)"

function consumeRun_loop :: "(char \<Rightarrow> bool) \<Rightarrow> pathParser \<Rightarrow> pathParser" where
  "consumeRun_loop isValid p =
     (if pos p < length (input p) \<and> isValid (input p ! pos p)
      then consumeRun_loop isValid (p\<lparr>pos := pos p + 1\<rparr>) else p)"
  by pat_completeness auto
termination
  by (relation "measure (\<lambda>(_, p). length (input p) - pos p)") auto

declare consumeRun_loop.simps [simp del]

text \<open>The slice \<open>input[start:pos]\<close>.\<close>

definition substr :: "string \<Rightarrow> nat \<Rightarrow> nat \<Rightarrow> string" where
  "substr s i j = take (j - i) (drop i s)"

definition consumeRun :: "(char \<Rightarrow> bool) \<Rightarrow> pathParser \<Rightarrow> string \<times> pathParser" where
  "consumeRun isValid p =
     (let q = consumeRun_loop isValid p in (substr (input p) (pos p) (pos q), q))"

definition currentChar :: "pathParser \<Rightarrow> gotChar" where
  "currentChar p =
     (if pos p < length (input p) then GotRune (decodeRune (drop (pos p) (input p))) else GotEOF)"

definition errSyntax :: "pathParser \<Rightarrow> syntaxError \<Rightarrow> parseError" where
  "errSyntax p msg = SyntaxError (pos p + 1) msg"

definition errUnexpected :: "pathParser \<Rightarrow> parseError" where
  "errUnexpected p = errSyntax p (Unexpected (currentChar p))"

definition errExpected :: "char \<Rightarrow> pathParser \<Rightarrow> parseError" where
  "errExpected expected p = errSyntax p (Expected expected (currentChar p))"

section \<open>The grammar's productions\<close>

text \<open>The loop of \<open>parseLiteral\<close> that looks for the invalid escape to point at.\<close>

fun badEscapeIndex :: "string \<Rightarrow> nat \<Rightarrow> nat option" where
  "badEscapeIndex [] i = None"
| "badEscapeIndex (c # s) i =
     (if c = CHR ''%'' \<and> validateHex (c # s) \<noteq> None then Some i else badEscapeIndex s (i + 1))"

definition parseLiteral :: "pathParser \<Rightarrow> parseError + string \<times> pathParser" where
  "parseLiteral p =
     (let (literal, q) = consumeRun isLiteral p in
      if literal = [] then Inl (errUnexpected q)
      else (case pathUnescape literal pathEncodeSingle of
              Inl err \<Rightarrow>
                Inl (errSyntax
                       (case badEscapeIndex literal 0 of None \<Rightarrow> q | Some i \<Rightarrow> q\<lparr>pos := pos p + i\<rparr>)
                       (InvalidEscape err))
            | Inr unescaped \<Rightarrow> Inr (pathEscape unescaped pathEncodeSingle, q)))"

lemma consumeRun_loop_eq:
  "consumeRun_loop v p = p\<lparr>pos := pos p + length (takeWhile v (drop (pos p) (input p)))\<rparr>"
proof (induction v p rule: consumeRun_loop.induct)
  case (1 v p)
  show ?case
  proof (cases "pos p < length (input p)")
    case True
    then have "drop (pos p) (input p) = input p ! pos p # drop (Suc (pos p)) (input p)"
      by (simp add: Cons_nth_drop_Suc)
    with 1 True show ?thesis
      by (subst consumeRun_loop.simps) auto
  qed (subst consumeRun_loop.simps, simp)
qed

lemma consume_Some:
  "consume c p = Some q \<longleftrightarrow>
     pos p < length (input p) \<and> input p ! pos p = c \<and> q = p\<lparr>pos := pos p + 1\<rparr>"
  by (auto simp: consume_def)

function parseFieldPath_loop :: "pathParser \<Rightarrow> parseError + pathParser" where
  "parseFieldPath_loop p =
     (if \<not> isIdentStart (peek p) then Inl (errSyntax p ExpectedIdentifier)
      else (let q = snd (consumeRun isIdent p) in
            case consume CHR ''.'' q of
              None \<Rightarrow> Inr q
            | Some r \<Rightarrow> parseFieldPath_loop r))"
  by pat_completeness auto
termination
  by (relation "measure (\<lambda>p. length (input p) - pos p)")
     (auto simp: consume_Some consumeRun_def Let_def consumeRun_loop_eq)

declare parseFieldPath_loop.simps [simp del]

definition parseFieldPath :: "pathParser \<Rightarrow> parseError + string \<times> pathParser" where
  "parseFieldPath p =
     (case parseFieldPath_loop p of
        Inl e \<Rightarrow> Inl e
      | Inr q \<Rightarrow> Inr (substr (input p) (pos p) (pos q), q))"

text \<open>
  \<open>parseSegments\<close>, \<open>parseSegment\<close> and \<open>parseVariable\<close> call each other, and each call
  starts where the last one stopped, so termination needs to know that no call moves back.
\<close>

function parseSegments :: "pathParser \<Rightarrow> parseError + pathParser"
  and parseSegment :: "pathParser \<Rightarrow> parseError + pathParser"
  and parseVariable :: "pathParser \<Rightarrow> parseError + pathParser"
where
  "parseSegments p =
     (case parseSegment p of
        Inl e \<Rightarrow> Inl e
      | Inr q \<Rightarrow>
          (case consume CHR ''/'' q of
             None \<Rightarrow> Inr q
           | Some r \<Rightarrow> if seenDoubleStar r then Inl DoubleStarNotFinal else parseSegments r))"
| "parseSegment p =
     (case consume CHR ''*'' p of
        Some q \<Rightarrow>
          (case consume CHR ''*'' q of
             Some r \<Rightarrow> Inr (writeSegment ''**'' (r\<lparr>seenDoubleStar := True\<rparr>))
           | None \<Rightarrow> Inr (writeSegment ''*'' q))
      | None \<Rightarrow>
          (case consume CHR ''{'' p of
             Some q \<Rightarrow> parseVariable q
           | None \<Rightarrow>
               if \<not> isLiteral (peek p) then Inl (errSyntax p ExpectedPathValue)
               else (case parseLiteral p of
                       Inl e \<Rightarrow> Inl e
                     | Inr (literal, q) \<Rightarrow> Inr (writeSegment literal q))))"
| "parseVariable p =
     (case parseFieldPath p of
        Inl e \<Rightarrow> Inl e
      | Inr (fp, q) \<Rightarrow>
          if fp \<in> fieldPath ` set (variables q) then Inl (DuplicateVariable fp)
          else
            (case (case consume CHR ''='' q of
                     Some r \<Rightarrow> parseSegments r
                   | None \<Rightarrow> Inr (writeSegment ''*'' q)) of
               Inl e \<Rightarrow> Inl e
             | Inr r \<Rightarrow>
                 (case consume CHR ''}'' r of
                    None \<Rightarrow> Inl (errExpected CHR ''}'' r)
                  | Some t \<Rightarrow>
                      Inr (t\<lparr>variables := variables t @
                             [\<lparr>fieldPath = fp, vstart = int (segmentCount q),
                               vend = (if seenDoubleStar t then -1 else int (segmentCount t))\<rparr>]\<rparr>))))"
  by pat_completeness auto

text \<open>The parser reads on in the same input.\<close>

definition reads_on :: "pathParser \<Rightarrow> pathParser \<Rightarrow> bool" where
  "reads_on p q \<longleftrightarrow> input q = input p \<and> pos p \<le> pos q"

lemma reads_on_refl [simp]: "reads_on p p"
  by (simp add: reads_on_def)

lemma reads_on_trans: "reads_on p q \<Longrightarrow> reads_on q r \<Longrightarrow> reads_on p r"
  by (simp add: reads_on_def)

lemma consume_reads: "consume c p = Some q \<Longrightarrow> reads_on p q \<and> pos p < pos q \<and> pos p < length (input p)"
  by (auto simp: consume_Some reads_on_def)

lemma writeSegment_frame [simp]:
  "input (writeSegment s p) = input p" "pos (writeSegment s p) = pos p"
  "seenDoubleStar (writeSegment s p) = seenDoubleStar p"
  "segmentCount (writeSegment s p) = segmentCount p + 1"
  "outp (writeSegment s p) = outp p @ ''/'' @ s" "variables (writeSegment s p) = variables p"
  by (simp_all add: writeSegment_def)

lemma reads_on_writeSegment [simp]: "reads_on p (writeSegment s q) \<longleftrightarrow> reads_on p q"
  by (simp add: reads_on_def)

lemma parseLiteral_reads: "parseLiteral p = Inr (l, q) \<Longrightarrow> reads_on p q"
  by (auto simp: parseLiteral_def consumeRun_def consumeRun_loop_eq reads_on_def Let_def
      split: sum.splits if_splits)

lemma parseFieldPath_loop_reads: "parseFieldPath_loop p = Inr q \<Longrightarrow> reads_on p q"
proof (induction p arbitrary: q rule: parseFieldPath_loop.induct)
  case (1 p)
  let ?r = "snd (consumeRun isIdent p)"
  have r: "reads_on p ?r"
    by (simp add: consumeRun_def Let_def consumeRun_loop_eq reads_on_def)
  from "1.prems" have i: "isIdentStart (peek p)"
    by (subst (asm) parseFieldPath_loop.simps) (auto split: if_splits)
  show ?case
  proof (cases "consume CHR ''.'' ?r")
    case None
    with "1.prems" i r show ?thesis
      by (subst (asm) parseFieldPath_loop.simps) (auto simp: Let_def)
  next
    case (Some t)
    with "1.prems" i have "parseFieldPath_loop t = Inr q"
      by (subst (asm) parseFieldPath_loop.simps) (auto simp: Let_def)
    with "1.IH" i Some have "reads_on t q" by auto
    with r consume_reads [OF Some] show ?thesis
      by (blast intro: reads_on_trans)
  qed
qed

lemma parseFieldPath_reads: "parseFieldPath p = Inr (fp, q) \<Longrightarrow> reads_on p q"
  by (auto simp: parseFieldPath_def dest: parseFieldPath_loop_reads split: sum.splits)


lemma parse_reads:
  shows "parseSegments_parseSegment_parseVariable_dom (Inl p) \<Longrightarrow> parseSegments p = Inr q \<Longrightarrow> reads_on p q"
    and "parseSegments_parseSegment_parseVariable_dom (Inr (Inl p)) \<Longrightarrow> parseSegment p = Inr q \<Longrightarrow> reads_on p q"
    and "parseSegments_parseSegment_parseVariable_dom (Inr (Inr p)) \<Longrightarrow> parseVariable p = Inr q \<Longrightarrow> reads_on p q"
proof (induction p and p and p arbitrary: q and q and q rule: parseSegments_parseSegment_parseVariable.pinduct)
  case (1 p)
  from "1.prems" obtain b where b: "parseSegment p = Inr b"
    by (auto simp: parseSegments.psimps [OF "1.hyps"] split: sum.splits)
  with "1.IH"(1) have "reads_on p b" .
  then show ?case
    using "1.prems" b "1.IH"(2) [OF b]
    by (auto simp: parseSegments.psimps [OF "1.hyps"] split: option.splits if_splits
        dest!: consume_reads intro: reads_on_trans)
next
  case (2 p)
  note unfold = parseSegment.psimps [OF "2.hyps"]
  show ?case
  proof (cases "consume CHR ''*'' p")
    case (Some a)
    with "2.prems" show ?thesis
      by (auto simp: unfold reads_on_def consume_Some split: option.splits)
  next
    case star: None
    show ?thesis
    proof (cases "consume CHR ''{'' p")
      case (Some a)
      with star "2.prems" "2.IH" show ?thesis
        by (auto simp: unfold dest: consume_reads intro: reads_on_trans)
    next
      case None
      with star "2.prems" show ?thesis
        by (auto simp: unfold dest: parseLiteral_reads split: if_splits sum.splits)
    qed
  qed
next
  case (3 p)
  from "3.prems" obtain fp b where b: "parseFieldPath p = Inr (fp, b)"
    by (auto simp: parseVariable.psimps [OF "3.hyps"] split: sum.splits)
  then have r: "reads_on p b" by (rule parseFieldPath_reads)
  let ?body = "case consume CHR ''='' b of Some r \<Rightarrow> parseSegments r | None \<Rightarrow> Inr (writeSegment ''*'' b)"
  have fresh: "fp \<notin> fieldPath ` set (variables b)"
    using "3.prems" b by (auto simp: parseVariable.psimps [OF "3.hyps"])
  obtain c where c: "?body = Inr c"
    using "3.prems" b fresh
    by (cases ?body) (simp_all add: parseVariable.psimps [OF "3.hyps"])
  have "reads_on b c"
  proof (cases "consume CHR ''='' b")
    case (Some t)
    then show ?thesis
      using c "3.IH" [OF b refl fresh Some] consume_reads [OF Some] by (auto intro: reads_on_trans)
  qed (use c in auto)
  moreover obtain t where "consume CHR ''}'' c = Some t" and "reads_on t q"
    using "3.prems" b fresh c
    by (cases "consume CHR ''}'' c") (auto simp: parseVariable.psimps [OF "3.hyps"] reads_on_def)
  ultimately show ?case
    using r consume_reads by (meson reads_on_trans)
qed

lemma remaining_less:
  "reads_on p q \<Longrightarrow> consume c q = Some r \<Longrightarrow>
   length (input r) - pos r < length (input p) - pos p"
  by (auto simp: reads_on_def consume_Some)

termination parseSegments
proof (relation "measure (\<lambda>x. case x of Inl p \<Rightarrow> 4 * (length (input p) - pos p) + 2
     | Inr (Inl p) \<Rightarrow> 4 * (length (input p) - pos p) + 1
     | Inr (Inr p) \<Rightarrow> 4 * (length (input p) - pos p) + 3)", goal_cases)
  case (3 p b r)
  then show ?case
    using parse_reads(2) remaining_less by fastforce
next
  case (4 p r)
  then show ?case
    using remaining_less [of p p] by fastforce
next
  case (5 p b fp q r)
  then show ?case
    using parseFieldPath_reads remaining_less by fastforce
qed simp_all

declare parseSegments.simps [simp del] parseSegment.simps [simp del] parseVariable.simps [simp del]

section \<open>The whole template\<close>

definition parseTemplate :: "pathParser \<Rightarrow> parseError + pathParser" where
  "parseTemplate p =
     (case consume CHR ''/'' p of
        None \<Rightarrow> Inl (errExpected CHR ''/'' p)
      | Some p1 \<Rightarrow>
          (case parseSegments p1 of
             Inl e \<Rightarrow> Inl e
           | Inr p2 \<Rightarrow>
               (case (case consume CHR '':'' p2 of
                        None \<Rightarrow> Inr p2
                      | Some p3 \<Rightarrow>
                          (case parseLiteral p3 of
                             Inl e \<Rightarrow> Inl e
                           | Inr (verb, p4) \<Rightarrow> Inr (p4\<lparr>outp := outp p4 @ '':'' @ verb\<rparr>))) of
                  Inl e \<Rightarrow> Inl e
                | Inr p5 \<Rightarrow>
                    if pos p5 \<noteq> length (input p5) then Inl (errUnexpected p5) else Inr p5)))"

definition newParser :: "string \<Rightarrow> pathParser" where
  "newParser template =
     \<lparr>input = template, pos = 0, seenDoubleStar = False, segmentCount = 0, outp = [], variables = []\<rparr>"

definition parsePathTemplate :: "string \<Rightarrow> parseError + string \<times> pathVariable list" where
  "parsePathTemplate template =
     (case parseTemplate (newParser template) of
        Inl e \<Rightarrow> Inl e
      | Inr p \<Rightarrow> Inr (outp p, variables p))"

end
