(* ===== verification/PathGrammar.thy ===== *)
theory PathGrammar
  imports PathTemplate
begin

text \<open>
  The grammar of path templates, as an abstract syntax with a printer, and the proof that
  \<open>parsePathTemplate\<close> accepts exactly the printed templates and computes the canonical
  text and the variables that the syntax denotes.

    Template = "/" Segments [ Verb ] ;
    Segments = Segment { "/" Segment } ;
    Segment  = "*" | "**" | LITERAL | Variable ;
    Variable = "{" FieldPath [ "=" Segments ] "}" ;
\<close>

section \<open>Abstract syntax\<close>

datatype segment =
    Star
  | DoubleStar
  | Lit string
  | Var string
  | VarAs string "segment list"

fun print_segment :: "segment \<Rightarrow> string"
  and print_segments :: "segment list \<Rightarrow> string"
where
  "print_segment Star = ''*''"
| "print_segment DoubleStar = ''**''"
| "print_segment (Lit l) = l"
| "print_segment (Var fp) = ''{'' @ fp @ ''}''"
| "print_segment (VarAs fp ss) = ''{'' @ fp @ ''='' @ print_segments ss @ ''}''"
| "print_segments [] = []"
| "print_segments (s # ss) =
     print_segment s @ (if ss = [] then [] else CHR ''/'' # print_segments ss)"

definition print_template :: "segment list \<Rightarrow> string option \<Rightarrow> string" where
  "print_template ss verb =
     ''/'' @ print_segments ss @ (case verb of None \<Rightarrow> [] | Some v \<Rightarrow> '':'' @ v)"

section \<open>Well-formed syntax\<close>

text \<open>\<open>FieldPath = IDENT { "." IDENT }\<close>.\<close>

definition is_ident :: "string \<Rightarrow> bool" where
  "is_ident s \<longleftrightarrow> s \<noteq> [] \<and> isIdentStart (hd s) \<and> list_all isIdent s"

definition is_fieldPath :: "string \<Rightarrow> bool" where
  "is_fieldPath s \<longleftrightarrow> list_all is_ident (split_on CHR ''.'' s)"

definition is_literal :: "string \<Rightarrow> bool" where
  "is_literal s \<longleftrightarrow> s \<noteq> [] \<and> list_all isLiteral s \<and> well_escaped s"

fun wf_segment :: "segment \<Rightarrow> bool" where
  "wf_segment Star = True"
| "wf_segment DoubleStar = True"
| "wf_segment (Lit l) = is_literal l"
| "wf_segment (Var fp) = is_fieldPath fp"
| "wf_segment (VarAs fp ss) = (is_fieldPath fp \<and> ss \<noteq> [] \<and> list_all wf_segment ss)"

text \<open>The canonical segments a template stands for, left to right.\<close>

definition canon :: "string \<Rightarrow> string" where
  "canon s = pathEscape (pathUnescape_loop pathEncodeSingle s) pathEncodeSingle"

fun flat :: "segment \<Rightarrow> string list" where
  "flat Star = [''*'']"
| "flat DoubleStar = [''**'']"
| "flat (Lit l) = [canon l]"
| "flat (Var fp) = [''*'']"
| "flat (VarAs fp ss) = concat (map flat ss)"

abbreviation flats :: "segment list \<Rightarrow> string list" where
  "flats ss \<equiv> concat (map flat ss)"

text \<open>
  The variables, in the order the parser completes them (a variable follows those nested in
  it), from segment number \<open>n\<close> on.
\<close>

definition mkvar :: "string \<Rightarrow> nat \<Rightarrow> string list \<Rightarrow> pathVariable" where
  "mkvar fp n segs =
     \<lparr>fieldPath = fp, vstart = int n,
      vend = (if ''**'' \<in> set segs then -1 else int (n + length segs))\<rparr>"

fun vars_of :: "nat \<Rightarrow> segment \<Rightarrow> pathVariable list"
  and vars_list :: "nat \<Rightarrow> segment list \<Rightarrow> pathVariable list"
where
  "vars_of n Star = []"
| "vars_of n DoubleStar = []"
| "vars_of n (Lit l) = []"
| "vars_of n (Var fp) = [mkvar fp n [''*'']]"
| "vars_of n (VarAs fp ss) = vars_list n ss @ [mkvar fp n (flats ss)]"
| "vars_list n [] = []"
| "vars_list n (s # ss) = vars_of n s @ vars_list (n + length (flat s)) ss"

text \<open>
  The parser's duplicate check: a variable's name is compared with the variables completed
  before its opening brace, not with those it encloses or that enclose it.
\<close>

fun fresh_names :: "string set \<Rightarrow> segment \<Rightarrow> bool"
  and fresh_list :: "string set \<Rightarrow> segment list \<Rightarrow> bool"
where
  "fresh_names S Star = True"
| "fresh_names S DoubleStar = True"
| "fresh_names S (Lit l) = True"
| "fresh_names S (Var fp) = (fp \<notin> S)"
| "fresh_names S (VarAs fp ss) = (fp \<notin> S \<and> fresh_list S ss)"
| "fresh_list S [] = True"
| "fresh_list S (s # ss) =
     (fresh_names S s \<and> fresh_list (S \<union> fieldPath ` set (vars_of 0 s)) ss)"

definition wf_segments :: "string set \<Rightarrow> segment list \<Rightarrow> bool" where
  "wf_segments S ss \<longleftrightarrow>
     ss \<noteq> [] \<and> list_all wf_segment ss \<and> ''**'' \<notin> set (butlast (flats ss)) \<and> fresh_list S ss"

definition wf_template :: "segment list \<Rightarrow> string option \<Rightarrow> bool" where
  "wf_template ss verb \<longleftrightarrow>
     wf_segments {} ss \<and> (case verb of None \<Rightarrow> True | Some v \<Rightarrow> is_literal v)"

text \<open>The canonical text of segments, as the parser's output builder receives it.\<close>

definition render :: "string list \<Rightarrow> string" where
  "render segs = concat (map (\<lambda>s. ''/'' @ s) segs)"

definition canonical_text :: "string list \<Rightarrow> string option \<Rightarrow> string" where
  "canonical_text segs verb = render segs @ (case verb of None \<Rightarrow> [] | Some v \<Rightarrow> '':'' @ v)"

section \<open>The unread input\<close>

definition rest :: "pathParser \<Rightarrow> string" where
  "rest p = drop (pos p) (input p)"

lemma rest_Cons:
  "rest p = c # s \<longleftrightarrow> pos p < length (input p) \<and> input p ! pos p = c \<and> drop (Suc (pos p)) (input p) = s"
  by (cases "pos p < length (input p)") (auto simp: rest_def Cons_nth_drop_Suc [symmetric])

lemma rest_Nil: "rest p = [] \<longleftrightarrow> length (input p) \<le> pos p"
  by (simp add: rest_def)

lemma consume_rest:
  "consume c p = (case rest p of [] \<Rightarrow> None | d # s \<Rightarrow> if d = c then Some (p\<lparr>pos := pos p + 1\<rparr>) else None)"
  by (auto simp: consume_def rest_Cons rest_Nil split: list.splits)

lemma peek_rest: "peek p = (case rest p of [] \<Rightarrow> CHR 0x00 | d # s \<Rightarrow> d)"
  by (auto simp: peek_def rest_Cons rest_Nil split: list.splits)

lemma rest_advance [simp]: "rest (p\<lparr>pos := pos p + n\<rparr>) = drop n (rest p)"
  by (simp add: rest_def add.commute)

text \<open>The parser moved past the first \<open>n\<close> unread bytes.\<close>

definition skip :: "nat \<Rightarrow> pathParser \<Rightarrow> pathParser" where
  "skip n p = p\<lparr>pos := pos p + n\<rparr>"

lemma skip_frame [simp]:
  "input (skip n p) = input p" "seenDoubleStar (skip n p) = seenDoubleStar p"
  "segmentCount (skip n p) = segmentCount p" "outp (skip n p) = outp p"
  "variables (skip n p) = variables p" "rest (skip n p) = drop n (rest p)"
  by (simp_all add: skip_def)

lemma skip_skip [simp]: "skip m (skip n p) = skip (n + m) p"
  by (simp add: skip_def add.assoc)

lemma skip_0 [simp]: "skip 0 p = p"
  by (simp add: skip_def)

lemma consume_skip:
  "consume c p = (case rest p of [] \<Rightarrow> None | d # s \<Rightarrow> if d = c then Some (skip 1 p) else None)"
  by (simp add: consume_rest skip_def split: list.splits)

lemma consumeRun_rest:
  "consumeRun v p = (takeWhile v (rest p), skip (length (takeWhile v (rest p))) p)"
  by (simp add: consumeRun_def consumeRun_loop_eq substr_def rest_def skip_def Let_def
      takeWhile_eq_take [symmetric])

section \<open>Literals and field paths\<close>

lemma parseLiteral_iff:
  "parseLiteral p = Inr (c, q) \<longleftrightarrow>
     (let l = takeWhile isLiteral (rest p) in is_literal l \<and> c = canon l \<and> q = skip (length l) p)"
proof -
  define l where "l = takeWhile isLiteral (rest p)"
  have lits: "list_all isLiteral l"
    by (auto simp: l_def list_all_iff dest: set_takeWhileD)
  have run: "consumeRun isLiteral p = (l, skip (length l) p)"
    by (simp add: consumeRun_rest l_def)
  have "parseLiteral p = Inr (c, q) \<longleftrightarrow> is_literal l \<and> c = canon l \<and> q = skip (length l) p"
  proof (cases "l = []")
    case True
    then show ?thesis by (simp add: parseLiteral_def run is_literal_def)
  next
    case False
    show ?thesis
    proof (cases "pathUnescape l pathEncodeSingle")
      case (Inl e)
      then have "\<not> well_escaped l"
        using pathUnescape_well_escaped [of l pathEncodeSingle "pathUnescape_loop pathEncodeSingle l"]
        by simp
      with False Inl show ?thesis by (simp add: parseLiteral_def run is_literal_def)
    next
      case (Inr u)
      then have "well_escaped l" "u = pathUnescape_loop pathEncodeSingle l"
        by (simp_all add: pathUnescape_well_escaped)
      with False Inr lits show ?thesis
        by (auto simp: parseLiteral_def run is_literal_def canon_def)
    qed
  qed
  then show ?thesis
    by (simp add: l_def Let_def)
qed

lemma isIdent_dot [simp]: "\<not> isIdent CHR ''.''" "\<not> isIdent CHR ''}''" "\<not> isIdent CHR ''=''"
  "\<not> isIdentStart CHR 0x00" "\<not> isLiteral CHR 0x00"
  by (simp_all add: isLiteral_def isVariable_def isIdent_def isIdentStart_def)

lemma is_ident_takeWhile:
  "rest p = d # s \<Longrightarrow> isIdentStart d \<Longrightarrow> is_ident (takeWhile isIdent (rest p))"
  by (auto simp: is_ident_def isIdent_def list_all_iff dest: set_takeWhileD)

lemma is_ident_no_dot: "is_ident s \<Longrightarrow> CHR ''.'' \<notin> set s"
  using isIdent_dot by (auto simp: is_ident_def list_all_iff)

lemma is_fieldPath_ident: "is_ident s \<Longrightarrow> is_fieldPath s"
  by (simp add: is_fieldPath_def split_on_no_sep is_ident_no_dot)

lemma is_fieldPath_dot:
  "CHR ''.'' \<notin> set s \<Longrightarrow> is_fieldPath (s @ CHR ''.'' # t) \<longleftrightarrow> is_ident s \<and> is_fieldPath t"
  by (simp add: is_fieldPath_def split_on_append)

lemma parseFieldPath_loop_sound:
  "parseFieldPath_loop p = Inr q \<Longrightarrow>
   \<exists>x y. rest p = x @ y \<and> is_fieldPath x \<and> q = skip (length x) p"
proof (induction p arbitrary: q rule: parseFieldPath_loop.induct)
  case (1 p)
  let ?t = "takeWhile isIdent (rest p)"
  let ?y = "dropWhile isIdent (rest p)"
  from "1.prems" have start: "isIdentStart (peek p)"
    by (subst (asm) parseFieldPath_loop.simps) (auto split: if_splits)
  then have ident: "is_ident ?t"
    using is_ident_takeWhile by (auto simp: peek_rest split: list.splits)
  have run: "consumeRun isIdent p = (?t, skip (length ?t) p)"
    by (rule consumeRun_rest)
  show ?case
  proof (cases "consume CHR ''.'' (skip (length ?t) p)")
    case None
    with "1.prems" start have "q = skip (length ?t) p"
      by (subst (asm) parseFieldPath_loop.simps) (simp add: run)
    then show ?thesis
      using ident is_fieldPath_ident takeWhile_dropWhile_id by metis
  next
    case (Some r)
    with "1.prems" start have loop: "parseFieldPath_loop r = Inr q"
      by (subst (asm) parseFieldPath_loop.simps) (simp add: run)
    from Some obtain s where s: "?y = CHR ''.'' # s" and r: "r = skip (length ?t + 1) p"
      by (auto simp: consume_skip dropWhile_eq_drop [symmetric] split: list.splits if_splits)
    have "rest r = s"
    proof -
      have "rest r = drop 1 ?y"
        by (simp add: r dropWhile_eq_drop)
      with s show ?thesis by simp
    qed
    moreover obtain x y where "rest r = x @ y" "is_fieldPath x" "q = skip (length x) r"
      using "1.IH" [OF _ refl _ loop] start Some by (auto simp: run)
    moreover have "is_fieldPath (?t @ CHR ''.'' # x) \<longleftrightarrow> is_fieldPath x"
      using ident by (simp add: is_fieldPath_dot is_ident_no_dot)
    moreover have "rest p = ?t @ CHR ''.'' # s"
      using s takeWhile_dropWhile_id by metis
    ultimately show ?thesis
      using r by (intro exI [of _ "?t @ CHR ''.'' # x"] exI [of _ y]) (simp add: add.assoc)
  qed
qed

lemma takeWhile_prefix:
  "list_all P x \<Longrightarrow> y = [] \<or> \<not> P (hd y) \<Longrightarrow> takeWhile P (x @ y) = x"
  by (induction x) (cases y; auto)+

lemma parseFieldPath_loop_complete:
  "rest p = x @ y \<Longrightarrow> is_fieldPath x \<Longrightarrow> y = [] \<or> hd y \<noteq> CHR ''.'' \<and> \<not> isIdent (hd y) \<Longrightarrow>
   parseFieldPath_loop p = Inr (skip (length x) p)"
proof (induction p arbitrary: x rule: parseFieldPath_loop.induct)
  case (1 p)
  have start: "isIdentStart (peek p)" if "is_ident t" "rest p = t @ u" for t u
    using that by (cases t) (auto simp: is_ident_def peek_rest)
  show ?case
  proof (cases "CHR ''.'' \<in> set x")
    case False
    then have "is_ident x"
      using "1.prems"(2) by (simp add: is_fieldPath_def split_on_no_sep)
    moreover from this have "takeWhile isIdent (rest p) = x"
      using "1.prems" by (auto simp: is_ident_def intro: takeWhile_prefix)
    ultimately show ?thesis
      using start [of x y] "1.prems"
      by (subst parseFieldPath_loop.simps)
         (auto simp: consumeRun_rest Let_def consume_skip split: list.splits)
  next
    case True
    then obtain t u where x: "x = t @ CHR ''.'' # u" and t: "CHR ''.'' \<notin> set t"
      by (meson split_list_first)
    with "1.prems"(2) have id: "is_ident t" "is_fieldPath u"
      by (simp_all add: is_fieldPath_dot)
    have run: "takeWhile isIdent (rest p) = t"
      using id "1.prems"(1) x by (auto simp: is_ident_def intro: takeWhile_prefix)
    have con: "consume CHR ''.'' (skip (length t) p) = Some (skip (length t + 1) p)"
      using "1.prems"(1) x by (simp add: consume_skip)
    have st: "isIdentStart (peek p)"
      using start id "1.prems"(1) x by simp
    have "parseFieldPath_loop (skip (length t + 1) p) = Inr (skip (length u) (skip (length t + 1) p))"
      using "1.IH" [OF _ refl _ _ id(2) "1.prems"(3)] st con run "1.prems"(1) x
      by (simp add: consumeRun_rest)
    then show ?thesis
      using st con run x by (subst parseFieldPath_loop.simps) (simp add: consumeRun_rest add.assoc)
  qed
qed

lemma substr_skip: "substr (input p) (pos p) (pos (skip n p)) = take n (rest p)"
  by (simp add: substr_def skip_def rest_def)

lemma parseFieldPath_sound:
  "parseFieldPath p = Inr (x, q) \<Longrightarrow>
   (\<exists>y. rest p = x @ y) \<and> is_fieldPath x \<and> q = skip (length x) p"
  using parseFieldPath_loop_sound [of p]
  by (auto simp: parseFieldPath_def substr_skip split: sum.splits)

lemma parseFieldPath_complete:
  "rest p = x @ y \<Longrightarrow> is_fieldPath x \<Longrightarrow> y = [] \<or> hd y \<noteq> CHR ''.'' \<and> \<not> isIdent (hd y) \<Longrightarrow>
   parseFieldPath p = Inr (x, skip (length x) p)"
  using parseFieldPath_loop_complete [of p x y]
  by (auto simp: parseFieldPath_def substr_skip)

section \<open>What parsing segments does to the parser\<close>

definition after :: "nat \<Rightarrow> string list \<Rightarrow> pathVariable list \<Rightarrow> pathParser \<Rightarrow> pathParser" where
  "after n segs vs p =
     p\<lparr>pos := pos p + n, seenDoubleStar := seenDoubleStar p \<or> ''**'' \<in> set segs,
       segmentCount := segmentCount p + length segs, outp := outp p @ render segs,
       variables := variables p @ vs\<rparr>"

lemma after_frame [simp]:
  "input (after n segs vs p) = input p" "rest (after n segs vs p) = drop n (rest p)"
  "seenDoubleStar (after n segs vs p) \<longleftrightarrow> seenDoubleStar p \<or> ''**'' \<in> set segs"
  "segmentCount (after n segs vs p) = segmentCount p + length segs"
  "outp (after n segs vs p) = outp p @ render segs" "variables (after n segs vs p) = variables p @ vs"
  "pos (after n segs vs p) = pos p + n"
  by (simp_all add: after_def rest_def add.commute)

lemma render_append [simp]: "render (xs @ ys) = render xs @ render ys"
  by (simp add: render_def)

lemma after_after [simp]:
  "after m segs' vs' (after n segs vs p) = after (n + m) (segs @ segs') (vs @ vs') p"
  by (simp add: after_def add.assoc disj_assoc)

lemma after_skip [simp]:
  "after m segs vs (skip n p) = after (n + m) segs vs p"
  "skip m (after n segs vs p) = after (n + m) segs vs p"
  by (simp_all add: after_def skip_def add.assoc)

lemma after_variables:
  "(after n segs vs p)\<lparr>variables := variables p @ vs @ ws\<rparr> = after n segs (vs @ ws) p"
  "(after n segs [] p)\<lparr>variables := variables p @ ws\<rparr> = after n segs ws p"
  by (simp_all add: after_def)

lemma writeSegment_after: "x \<noteq> ''**'' \<Longrightarrow> writeSegment x p = after 0 [x] [] p"
  by (simp add: writeSegment_def after_def render_def)

lemma writeDoubleStar_after:
  "writeSegment ''**'' (p\<lparr>seenDoubleStar := True\<rparr>) = after 0 [''**''] [] p"
  by (simp add: writeSegment_def after_def render_def)

lemma canonical_canon: "canonical (canon s)"
  by (simp add: canon_def canonical_escape_single)

lemma canon_not_star: "canon s \<noteq> ''*''" "canon s \<noteq> ''**''"
  using canonical_special [OF canonical_canon, of s] by auto

lemma flat_not_Nil: "wf_segment s \<Longrightarrow> flat s \<noteq> []"
proof (induction s)
  case (VarAs fp ss)
  then show ?case by (cases ss) auto
qed auto

lemma flats_not_Nil: "list_all wf_segment ss \<Longrightarrow> ss \<noteq> [] \<Longrightarrow> flats ss \<noteq> []"
  by (cases ss) (auto simp: flat_not_Nil)

lemma field_names_shift:
  "map fieldPath (vars_of n s) = map fieldPath (vars_of m s)"
  "map fieldPath (vars_list n ss) = map fieldPath (vars_list m ss)"
proof (induction n s and n ss arbitrary: m and m rule: vars_of_vars_list.induct)
  case (7 n s ss)
  show ?case
    using "7.IH"(1) [of m] "7.IH"(2) [of "m + length (flat s)"] by simp
qed (simp_all add: mkvar_def)

lemma names_shift: "fieldPath ` set (vars_of n s) = fieldPath ` set (vars_of 0 s)"
  using field_names_shift(1) [of n s 0] by (metis list.set_map)

section \<open>Completeness\<close>

definition ends_segment :: "string \<Rightarrow> bool" where
  "ends_segment y \<longleftrightarrow> y = [] \<or> hd y \<in> {CHR ''/'', CHR ''}'', CHR '':''}"

definition ends_segments :: "string \<Rightarrow> bool" where
  "ends_segments y \<longleftrightarrow> y = [] \<or> hd y \<in> {CHR ''}'', CHR '':''}"

abbreviation names :: "pathParser \<Rightarrow> string set" where
  "names p \<equiv> fieldPath ` set (variables p)"

lemma parseSegment_literal:
  assumes "is_literal l" and "rest p = l @ y" and "ends_segment y"
  shows "parseSegment p = Inr (after (length l) [canon l] [] p)"
proof -
  obtain c s where l: "l = c # s" and c: "isLiteral c"
    using assms(1) by (cases l) (auto simp: is_literal_def)
  have tw: "takeWhile isLiteral (rest p) = l"
    using assms by (auto simp: is_literal_def ends_segment_def intro!: takeWhile_prefix)
  then have "parseLiteral p = Inr (canon l, skip (length l) p)"
    using assms(1) by (simp add: parseLiteral_iff)
  moreover have "consume CHR ''*'' p = None" "consume CHR ''{'' p = None"
    using c assms(2) l by (auto simp: consume_skip)
  moreover have "isLiteral (peek p)"
    using c assms(2) l by (simp add: peek_rest)
  ultimately show ?thesis
    using canon_not_star [of l] by (simp add: parseSegment.simps writeSegment_after)
qed

lemma parse_complete:
  shows "wf_segment s \<Longrightarrow> rest p = print_segment s @ y \<Longrightarrow> ends_segment y \<Longrightarrow>
      \<not> seenDoubleStar p \<Longrightarrow> ''**'' \<notin> set (butlast (flat s)) \<Longrightarrow> fresh_names (names p) s \<Longrightarrow>
      parseSegment p =
        Inr (after (length (print_segment s)) (flat s) (vars_of (segmentCount p) s) p)"
    and "ss \<noteq> [] \<Longrightarrow> list_all wf_segment ss \<Longrightarrow> rest p = print_segments ss @ y \<Longrightarrow>
      ends_segments y \<Longrightarrow> \<not> seenDoubleStar p \<Longrightarrow> ''**'' \<notin> set (butlast (flats ss)) \<Longrightarrow>
      fresh_list (names p) ss \<Longrightarrow>
      parseSegments p =
        Inr (after (length (print_segments ss)) (flats ss) (vars_list (segmentCount p) ss) p)"
proof (induction s and ss arbitrary: p y and p y rule: print_segment_print_segments.induct)
  case 1
  then have "consume CHR ''*'' p = Some (skip 1 p)" "consume CHR ''*'' (skip 1 p) = None"
    by (auto simp: consume_skip ends_segment_def split: list.splits)
  then show ?case
    by (simp add: parseSegment.simps writeSegment_after)
next
  case 2
  then have "consume CHR ''*'' p = Some (skip 1 p)" "consume CHR ''*'' (skip 1 p) = Some (skip 2 p)"
    by (auto simp: consume_skip numeral_2_eq_2)
  then show ?case
    by (simp add: parseSegment.simps writeDoubleStar_after numeral_2_eq_2)
next
  case (3 l)
  then show ?case by (simp add: parseSegment_literal)
next
  case (4 fp)
  have con: "consume CHR ''*'' p = None" "consume CHR ''{'' p = Some (skip 1 p)"
    using 4 by (auto simp: consume_skip)
  have "parseFieldPath (skip 1 p) = Inr (fp, skip (length fp) (skip 1 p))"
    using 4 by (intro parseFieldPath_complete [where y = "CHR ''}'' # y"]) auto
  moreover have "consume CHR ''='' (skip (length fp + 1) p) = None"
    "consume CHR ''}'' (after (length fp + 1) [''*''] [] p) = Some (after (length fp + 2) [''*''] [] p)"
    using 4 by (auto simp: consume_skip)
  ultimately show ?case
    using 4 con by (simp add: parseSegment.simps parseVariable.simps writeSegment_after mkvar_def)
next
  case (5 fp ss)
  have con: "consume CHR ''*'' p = None" "consume CHR ''{'' p = Some (skip 1 p)"
    using 5 by (auto simp: consume_skip)
  have "parseFieldPath (skip 1 p) = Inr (fp, skip (length fp) (skip 1 p))"
    using 5 by (intro parseFieldPath_complete [where y = "CHR ''='' # print_segments ss @ CHR ''}'' # y"]) auto
  moreover have "consume CHR ''='' (skip (length fp + 1) p) = Some (skip (length fp + 2) p)"
    using 5 by (auto simp: consume_skip)
  moreover have "parseSegments (skip (length fp + 2) p) =
      Inr (after (length (print_segments ss)) (flats ss)
             (vars_list (segmentCount p) ss) (skip (length fp + 2) p))"
    using "5.IH" [of "skip (length fp + 2) p" "CHR ''}'' # y"] "5.prems"
    by (simp add: ends_segments_def)
  moreover have "consume CHR ''}'' (after (length fp + 2 + length (print_segments ss)) (flats ss)
        (vars_list (segmentCount p) ss) p) =
      Some (after (length fp + 3 + length (print_segments ss)) (flats ss)
        (vars_list (segmentCount p) ss) p)"
    using 5 by (auto simp: consume_skip)
  ultimately show ?case
    using 5 con by (simp add: parseSegment.simps parseVariable.simps mkvar_def)
next
  case 6
  then show ?case by simp
next
  case (7 s ss)
  show ?case
  proof (cases "ss = []")
    case True
    have "parseSegment p = Inr (after (length (print_segment s)) (flat s) (vars_of (segmentCount p) s) p)"
      using "7.IH"(1) [of p y] "7.prems" True by (auto simp: ends_segment_def ends_segments_def)
    moreover have "consume CHR ''/'' (after (length (print_segment s)) (flat s)
        (vars_of (segmentCount p) s) p) = None"
      using "7.prems" True by (auto simp: consume_skip ends_segments_def split: list.splits)
    ultimately show ?thesis
      using True by (simp add: parseSegments.simps [of p])
  next
    case False
    let ?q = "after (length (print_segment s)) (flat s) (vars_of (segmentCount p) s) p"
    have "flats ss \<noteq> []"
      using False "7.prems" flats_not_Nil by simp
    then have "butlast (flats (s # ss)) = flat s @ butlast (flats ss)"
      by (simp add: butlast_append del: concat_eq_Nil_conv)
    with "7.prems"(6) have "''**'' \<notin> set (flat s @ butlast (flats ss))"
      by metis
    then have star: "''**'' \<notin> set (flat s)" "''**'' \<notin> set (butlast (flats ss))"
      by auto
    then have "''**'' \<notin> set (butlast (flat s))"
      by (meson in_set_butlastD)
    then have one: "parseSegment p = Inr ?q"
      using "7.IH"(1) [of p "CHR ''/'' # print_segments ss @ y"] "7.prems" False
      by (simp add: ends_segment_def)
    have slash: "consume CHR ''/'' ?q = Some (skip 1 ?q)"
      using "7.prems" False by (simp add: consume_skip)
    have "parseSegments (skip 1 ?q) = Inr (after (length (print_segments ss)) (flats ss)
        (vars_list (segmentCount (skip 1 ?q)) ss) (skip 1 ?q))"
      using "7.IH"(2) [of "skip 1 ?q" y] "7.prems" False star
      by (simp add: image_Un names_shift [of "segmentCount p"] Un_commute)
    then show ?thesis
      using one slash star "7.prems" False
      by (subst parseSegments.simps) (simp add: add_ac)
  qed
qed

section \<open>Soundness\<close>

lemma rest_nonempty: "rest p = c # s \<Longrightarrow> rest (skip 1 p) = s"
  by simp

lemma parse_sound:
  shows "parseSegments p = Inr q \<Longrightarrow> \<not> seenDoubleStar p \<Longrightarrow>
      \<exists>ss y. rest p = print_segments ss @ y \<and> wf_segments (names p) ss \<and>
        q = after (length (print_segments ss)) (flats ss) (vars_list (segmentCount p) ss) p"
    and "parseSegment p = Inr q \<Longrightarrow> \<not> seenDoubleStar p \<Longrightarrow>
      \<exists>s y. rest p = print_segment s @ y \<and> wf_segments (names p) [s] \<and>
        q = after (length (print_segment s)) (flat s) (vars_of (segmentCount p) s) p"
    and "parseVariable p = Inr q \<Longrightarrow> \<not> seenDoubleStar p \<Longrightarrow>
      \<exists>s x y. print_segment s = CHR ''{'' # x \<and> rest p = x @ y \<and> wf_segments (names p) [s] \<and>
        q = after (length x) (flat s) (vars_of (segmentCount p) s) p"
proof (induction p and p and p arbitrary: q and q and q
    rule: parseSegments_parseSegment_parseVariable.induct)
  case (1 p)
  then obtain a where a: "parseSegment p = Inr a"
    by (subst (asm) parseSegments.simps) (auto split: sum.splits)
  obtain s y where s: "rest p = print_segment s @ y" "wf_segments (names p) [s]"
      "a = after (length (print_segment s)) (flat s) (vars_of (segmentCount p) s) p"
    using "1.IH"(1) [OF a "1.prems"(2)] by blast
  show ?case
  proof (cases "consume CHR ''/'' a")
    case None
    then have "q = a"
      using "1.prems" a by (subst (asm) parseSegments.simps) simp
    then show ?thesis
      using s by (intro exI [of _ "[s]"] exI [of _ y]) simp
  next
    case (Some b)
    then have b: "b = skip 1 a" "\<exists>z. y = CHR ''/'' # z"
      using s by (auto simp: consume_skip split: list.splits if_splits)
    then obtain z where z: "y = CHR ''/'' # z" by blast
    have nd: "\<not> seenDoubleStar b" and tail: "parseSegments b = Inr q"
      using "1.prems" a Some by (subst (asm) parseSegments.simps; simp split: if_splits)+
    obtain ss w where ss: "rest b = print_segments ss @ w" "wf_segments (names b) ss"
      "q = after (length (print_segments ss)) (flats ss) (vars_list (segmentCount b) ss) b"
      using "1.IH"(2) [OF a Some nd tail nd] by blast
    have ne: "ss \<noteq> []" and "flats ss \<noteq> []"
      using ss(2) flats_not_Nil by (auto simp: wf_segments_def simp del: concat_eq_Nil_conv)
    then have bl: "butlast (flats (s # ss)) = flat s @ butlast (flats ss)"
      by (simp add: butlast_append del: concat_eq_Nil_conv)
    have "''**'' \<notin> set (flat s)"
      using nd b s by simp
    moreover have "names b = names p \<union> fieldPath ` set (vars_of 0 s)"
      using b s by (simp add: image_Un names_shift [of "segmentCount p"] Un_commute)
    ultimately have "wf_segments (names p) (s # ss)"
      using s(2) ss(2) bl by (simp add: wf_segments_def del: concat_eq_Nil_conv concat.simps list.map(2))
    then show ?thesis
      using s ss b z ne by (intro exI [of _ "s # ss"] exI [of _ w]) (simp add: add_ac)
  qed
next
  case (2 p)
  note prem = "2.prems"(1) [unfolded parseSegment.simps [of p]]
  show ?case
  proof (cases "consume CHR ''*'' p")
    case (Some a)
    then have a: "a = skip 1 p" "\<exists>y. rest p = CHR ''*'' # y"
      by (auto simp: consume_skip split: list.splits if_splits)
    then obtain y where y: "rest p = CHR ''*'' # y" by blast
    show ?thesis
    proof (cases "consume CHR ''*'' a")
      case None
      then have "q = after 1 [''*''] [] p"
        using prem Some a by (simp add: writeSegment_after)
      then show ?thesis
        using y by (intro exI [of _ Star] exI [of _ y]) (simp add: wf_segments_def)
    next
      case (Some b)
      then have b: "b = skip 2 p" "\<exists>z. y = CHR ''*'' # z"
        using a y by (auto simp: consume_skip numeral_2_eq_2 split: list.splits if_splits)
      then obtain z where "y = CHR ''*'' # z" by blast
      moreover have "q = after 2 [''**''] [] p"
        using prem \<open>consume CHR ''*'' p = Some a\<close> Some b by (simp add: writeDoubleStar_after)
      ultimately show ?thesis
        using y by (intro exI [of _ DoubleStar] exI [of _ z]) (simp add: wf_segments_def)
    qed
  next
    case star: None
    show ?thesis
    proof (cases "consume CHR ''{'' p")
      case (Some a)
      then have a: "a = skip 1 p" "\<exists>y. rest p = CHR ''{'' # y"
        by (auto simp: consume_skip split: list.splits if_splits)
      have "parseVariable a = Inr q" "\<not> seenDoubleStar a"
        using prem star Some a "2.prems"(2) by simp_all
      then obtain s x y where "print_segment s = CHR ''{'' # x" "rest a = x @ y"
        "wf_segments (names a) [s]" "q = after (length x) (flat s) (vars_of (segmentCount a) s) a"
        using "2.IH" [OF star Some] by blast
      then show ?thesis
        using a by (intro exI [of _ s] exI [of _ y]) auto
    next
      case None
      then obtain l r where l: "parseLiteral p = Inr (l, r)" and q: "q = writeSegment l r"
        using prem star by (auto split: if_splits sum.splits)
      let ?t = "takeWhile isLiteral (rest p)"
      have t: "is_literal ?t" "l = canon ?t" "r = skip (length ?t) p"
        using l by (simp_all add: parseLiteral_iff Let_def)
      then have "q = after (length ?t) [canon ?t] [] p"
        using q canon_not_star by (simp add: writeSegment_after)
      moreover have "rest p = ?t @ dropWhile isLiteral (rest p)"
        by simp
      ultimately show ?thesis
        using t by (intro exI [of _ "Lit ?t"] exI [of _ "dropWhile isLiteral (rest p)"])
          (simp add: wf_segments_def)
    qed
  qed
next
  case (3 p)
  note prem = "3.prems"(1) [unfolded parseVariable.simps [of p]]
  obtain fp a where a: "parseFieldPath p = Inr (fp, a)"
    using prem by (auto split: sum.splits)
  then obtain y where y: "rest p = fp @ y" and fp: "is_fieldPath fp" and skip: "a = skip (length fp) p"
    using parseFieldPath_sound by blast
  have fresh: "fp \<notin> names p"
    using prem a skip by (auto split: if_splits)
  show ?case
  proof (cases "consume CHR ''='' a")
    case None
    let ?b = "writeSegment ''*'' a"
    obtain c where c: "consume CHR ''}'' ?b = Some c"
      using prem a fresh skip None by (cases "consume CHR ''}'' ?b") auto
    then obtain z where z: "y = CHR ''}'' # z" and "c = skip 1 ?b"
      using y skip by (auto simp: consume_skip writeSegment_after split: list.splits if_splits)
    then have "q = after (length fp + 1) [''*''] [mkvar fp (segmentCount p) [''*'']] p"
      using prem a fresh skip None c "3.prems"(2)
      by (simp add: writeSegment_after mkvar_def after_variables)
    then show ?thesis
      using y z fp fresh
      by (intro exI [of _ "Var fp"] exI [of _ "fp @ ''}''"] exI [of _ z]) (simp add: wf_segments_def)
  next
    case (Some b)
    then obtain z where z: "y = CHR ''='' # z" and b: "b = skip (length fp + 1) p"
      using y skip by (auto simp: consume_skip split: list.splits if_splits)
    obtain c where c: "parseSegments b = Inr c"
      using prem a fresh skip Some by (cases "parseSegments b") auto
    have nd: "\<not> seenDoubleStar b"
      using b "3.prems"(2) by simp
    obtain ss w where ss: "rest b = print_segments ss @ w" "wf_segments (names b) ss"
      "c = after (length (print_segments ss)) (flats ss) (vars_list (segmentCount b) ss) b"
      using "3.IH" [OF a refl _ Some c nd] fresh skip by auto
    obtain d where d: "consume CHR ''}'' c = Some d"
      using prem a fresh skip Some c by (cases "consume CHR ''}'' c") auto
    then obtain v where v: "w = CHR ''}'' # v" and d': "d = skip 1 c"
      using y z b ss by (auto simp: consume_skip split: list.splits if_splits)
    have "q = after (length fp + length (print_segments ss) + 2) (flats ss)
        (vars_list (segmentCount p) ss @ [mkvar fp (segmentCount p) (flats ss)]) p"
      using prem a fresh skip Some c d d' ss b "3.prems"(2)
      by (auto simp: mkvar_def after_variables add_ac cong: if_cong)
    moreover have "rest p = (fp @ ''='' @ print_segments ss @ ''}'') @ v"
      using y z b ss v by simp
    moreover have "wf_segments (names p) [VarAs fp ss]"
      using ss fp fresh b by (simp add: wf_segments_def)
    ultimately show ?thesis
      by (intro exI [of _ "VarAs fp ss"] exI [of _ "fp @ ''='' @ print_segments ss @ ''}''"] exI [of _ v])
         (simp add: add_ac)
  qed
qed

section \<open>The whole template\<close>

lemma rest_newParser [simp]:
  "rest (newParser t) = t" "input (newParser t) = t" "seenDoubleStar (newParser t) = False"
  "segmentCount (newParser t) = 0" "outp (newParser t) = []" "variables (newParser t) = []"
  "pos (newParser t) = 0"
  by (simp_all add: newParser_def rest_def)

lemma consume_at_end: "pos p = length (input p) \<Longrightarrow> rest p = []"
  by (simp add: rest_def)

lemma parsePathTemplate_complete:
  assumes "wf_template ss verb"
  shows "parsePathTemplate (print_template ss verb) =
     Inr (canonical_text (flats ss) (map_option canon verb), vars_list 0 ss)"
proof -
  let ?p = "newParser (print_template ss verb)"
  let ?v = "case verb of None \<Rightarrow> [] | Some v \<Rightarrow> '':'' @ v"
  have slash: "consume CHR ''/'' ?p = Some (skip 1 ?p)"
    by (simp add: consume_skip print_template_def)
  let ?q = "after (length (print_segments ss)) (flats ss) (vars_list 0 ss) (skip 1 ?p)"
  have "parseSegments (skip 1 ?p) = Inr ?q"
    using assms parse_complete(2) [of ss "skip 1 ?p" ?v]
    by (auto simp: wf_template_def wf_segments_def print_template_def ends_segments_def
        split: option.splits)
  moreover have "rest ?q = ?v"
    by (simp add: print_template_def)
  ultimately show ?thesis
    using assms slash
  proof (cases verb)
    case None
    have "pos ?q = length (input ?q)"
      using None by (simp add: skip_def print_template_def)
    then show ?thesis
      using None slash \<open>parseSegments (skip 1 ?p) = Inr ?q\<close> \<open>rest ?q = ?v\<close>
      by (simp add: parsePathTemplate_def parseTemplate_def consume_skip [of "CHR '':''"]
          canonical_text_def)
  next
    case (Some v)
    then have v: "is_literal v"
      using assms by (simp add: wf_template_def)
    have colon: "consume CHR '':'' ?q = Some (skip 1 ?q)"
      using \<open>rest ?q = ?v\<close> Some by (simp add: consume_skip)
    have "rest (skip 1 ?q) = drop 1 ?v"
      using \<open>rest ?q = ?v\<close> by (simp only: skip_frame)
    then have "rest (skip 1 ?q) = v"
      using Some by simp
    moreover have "takeWhile isLiteral v = v"
      using v by (simp add: is_literal_def list_all_iff)
    ultimately have lit: "parseLiteral (skip 1 ?q) = Inr (canon v, skip (length v) (skip 1 ?q))"
      using v by (simp only: parseLiteral_iff Let_def)
    have "pos (skip (length v) (skip 1 ?q)) = length (input ?q)"
      using Some by (simp add: skip_def print_template_def)
    then show ?thesis
      using Some slash \<open>parseSegments (skip 1 ?p) = Inr ?q\<close> colon lit
      by (simp add: parsePathTemplate_def parseTemplate_def canonical_text_def)
  qed
qed

lemma parsePathTemplate_accepts:
  assumes "parsePathTemplate t = Inr r"
  shows "\<exists>ss verb. wf_template ss verb \<and> t = print_template ss verb"
proof -
  let ?p = "newParser t"
  obtain q where q: "parseTemplate ?p = Inr q"
    using assms by (auto simp: parsePathTemplate_def split: sum.splits)
  then obtain a where a: "consume CHR ''/'' ?p = Some a"
    by (auto simp: parseTemplate_def split: option.splits)
  then obtain b where b: "parseSegments a = Inr b"
    using q by (auto simp: parseTemplate_def split: sum.splits)
  from a obtain x where x: "t = CHR ''/'' # x" and a': "a = skip 1 ?p"
    by (auto simp: consume_skip split: list.splits if_splits)
  obtain ss y where ss: "rest a = print_segments ss @ y" "wf_segments (names a) ss"
      "b = after (length (print_segments ss)) (flats ss) (vars_list (segmentCount a) ss) a"
    using parse_sound(1) [OF b] a' by auto
  have xy: "x = print_segments ss @ y" and rb: "rest b = y"
    using ss x a' by simp_all
  show ?thesis
  proof (cases "consume CHR '':'' b")
    case None
    then have "pos b = length (input b)"
      using q a b by (auto simp: parseTemplate_def split: if_splits)
    then have "y = []"
      using rb by (simp add: rest_def)
    then show ?thesis
      using x xy ss a'
      by (intro exI [of _ ss] exI [of _ None]) (simp add: wf_template_def print_template_def)
  next
    case (Some c)
    then obtain z where z: "y = CHR '':'' # z" and c: "c = skip 1 b"
      using rb by (auto simp: consume_skip split: list.splits if_splits)
    then have rc: "rest c = z"
      using rb by simp
    obtain l d where l: "parseLiteral c = Inr (l, d)" and end_pos: "pos d = length (input d)"
      using q a b Some by (auto simp: parseTemplate_def split: if_splits sum.splits)
    let ?v = "takeWhile isLiteral z"
    have v: "is_literal ?v" "d = skip (length ?v) c"
      using l rc by (simp_all add: parseLiteral_iff Let_def)
    have "rest d = []"
      using end_pos by (simp add: rest_def)
    then have "z = ?v"
      using v(2) rc by (metis append_Nil2 append_take_drop_id skip_frame(6) takeWhile_eq_take)
    then show ?thesis
      using x xy z ss v(1) a'
      by (intro exI [of _ ss] exI [of _ "Some z"]) (simp add: wf_template_def print_template_def)
  qed
qed

lemma parsePathTemplate_iff:
  "parsePathTemplate t = Inr r \<longleftrightarrow>
     (\<exists>ss verb. wf_template ss verb \<and> t = print_template ss verb \<and>
        r = (canonical_text (flats ss) (map_option canon verb), vars_list 0 ss))"
proof
  assume *: "parsePathTemplate t = Inr r"
  then obtain ss verb where "wf_template ss verb" "t = print_template ss verb"
    using parsePathTemplate_accepts by blast
  with * parsePathTemplate_complete [of ss verb] show "\<exists>ss verb. wf_template ss verb \<and>
      t = print_template ss verb \<and>
      r = (canonical_text (flats ss) (map_option canon verb), vars_list 0 ss)"
    by auto
qed (auto simp: parsePathTemplate_complete)

section \<open>Consequences of the grammar\<close>

text \<open>What the router relies on: the shape of the canonical segments and of the variables.\<close>

definition wf_pattern :: "string list \<Rightarrow> bool" where
  "wf_pattern segs \<longleftrightarrow>
     segs \<noteq> [] \<and> (\<forall>s \<in> set segs. s = ''*'' \<or> s = ''**'' \<or> canonical s \<and> s \<noteq> []) \<and>
     ''**'' \<notin> set (butlast segs)"

definition wf_variable :: "string list \<Rightarrow> pathVariable \<Rightarrow> bool" where
  "wf_variable segs v \<longleftrightarrow>
     0 \<le> vstart v \<and> is_fieldPath (fieldPath v) \<and>
     (if vend v = -1 then vstart v < int (length segs) \<and> last segs = ''**''
      else vstart v < vend v \<and> vend v \<le> int (length segs))"

lemma literal_canon_not_Nil: "is_literal l \<Longrightarrow> canon l \<noteq> []"
proof -
  assume "is_literal l"
  then have "l \<noteq> []" by (simp add: is_literal_def)
  then have "pathUnescape_loop pathEncodeSingle l \<noteq> []"
    by (cases l) auto
  then show ?thesis by (simp add: canon_def)
qed

lemma flat_segments:
  "wf_segment s \<Longrightarrow> x \<in> set (flat s) \<Longrightarrow> x = ''*'' \<or> x = ''**'' \<or> canonical x \<and> x \<noteq> []"
proof (induction s)
  case (Lit l)
  then show ?case by (simp add: canonical_canon literal_canon_not_Nil)
qed (auto simp: list_all_iff)

lemma wf_pattern_flats: "wf_segments S ss \<Longrightarrow> wf_pattern (flats ss)"
  unfolding wf_segments_def wf_pattern_def
  using flats_not_Nil flat_segments by (fastforce simp: list_all_iff)

lemma butlast_star: "''**'' \<in> set xs \<Longrightarrow> ''**'' \<notin> set (butlast (pre @ xs @ post)) \<Longrightarrow>
    post = [] \<and> last xs = ''**''"
  by (cases xs rule: rev_cases) (auto simp: butlast_append split: if_splits)

text \<open>
  Every variable of a well-formed syntax lies within the segments the syntax flattens to,
  wherever the syntax stands in the template (\<open>pre\<close> before it, \<open>post\<close> after it).
\<close>

lemma vars_in_range:
  shows "wf_segment s \<Longrightarrow> ''**'' \<notin> set (butlast (pre @ flat s @ post)) \<Longrightarrow>
      n = length pre \<Longrightarrow> v \<in> set (vars_of n s) \<Longrightarrow> wf_variable (pre @ flat s @ post) v"
    and "list_all wf_segment ss \<Longrightarrow> ''**'' \<notin> set (butlast (pre @ flats ss @ post)) \<Longrightarrow>
      n = length pre \<Longrightarrow> v \<in> set (vars_list n ss) \<Longrightarrow> wf_variable (pre @ flats ss @ post) v"
proof (induction n s and n ss arbitrary: pre post and pre post rule: vars_of_vars_list.induct)
  case (4 n fp)
  then show ?case by (simp add: mkvar_def wf_variable_def)
next
  case (5 n fp ss)
  have "flats ss \<noteq> []"
    using "5.prems"(1) flats_not_Nil by (simp del: concat_eq_Nil_conv)
  moreover have "''**'' \<in> set (flats ss) \<Longrightarrow> post = [] \<and> last (flats ss) = ''**''"
    using butlast_star [of "flats ss" pre post] "5.prems"(2) by simp
  ultimately have "wf_variable (pre @ flats ss @ post) (mkvar fp n (flats ss))"
    using "5.prems"(1,3) by (auto simp: mkvar_def wf_variable_def simp del: concat_eq_Nil_conv set_concat)
  then show ?case
    using 5 by auto
next
  case (7 n s ss)
  from "7.prems"(4) consider "v \<in> set (vars_of n s)" | "v \<in> set (vars_list (n + length (flat s)) ss)"
    by auto
  then show ?case
  proof cases
    case 1
    then show ?thesis
      using "7.IH"(1) [of pre "flats ss @ post"] "7.prems" by simp
  next
    case 2
    then show ?thesis
      using "7.IH"(2) [of "pre @ flat s" post] "7.prems" by simp
  qed
qed simp_all

lemma wf_variables_list: "wf_segments S ss \<Longrightarrow> v \<in> set (vars_list 0 ss) \<Longrightarrow> wf_variable (flats ss) v"
  using vars_in_range(2) [of ss "[]" "[]" 0 v] by (simp add: wf_segments_def)

lemma parsed_pattern:
  assumes "parsePathTemplate t = Inr (canon_t, vs)"
  obtains segs verb where "canon_t = canonical_text segs verb" and "wf_pattern segs"
    and "\<And>v. verb = Some v \<Longrightarrow> canonical v \<and> v \<noteq> []" and "\<And>v. v \<in> set vs \<Longrightarrow> wf_variable segs v"
proof -
  obtain ss verb where "wf_template ss verb"
    "canon_t = canonical_text (flats ss) (map_option canon verb)" "vs = vars_list 0 ss"
    using assms by (auto simp: parsePathTemplate_iff)
  moreover have "canonical v \<and> v \<noteq> []" if "map_option canon verb = Some v" for v
    using that \<open>wf_template ss verb\<close> canonical_canon literal_canon_not_Nil
    by (auto simp: wf_template_def)
  moreover have wf: "wf_segments {} ss"
    using \<open>wf_template ss verb\<close> by (simp add: wf_template_def)
  ultimately show thesis
    using that [of "flats ss" "map_option canon verb"] wf_pattern_flats [OF wf] wf_variables_list [OF wf]
    by blast
qed

text \<open>A canonical text is a template again, and parses to itself.\<close>

definition segment_of :: "string \<Rightarrow> segment" where
  "segment_of s = (if s = ''*'' then Star else if s = ''**'' then DoubleStar else Lit s)"

lemma canon_canonical: "canonical s \<Longrightarrow> canon s = s"
  by (simp add: canon_def canonical_is_escape)

lemma canonical_is_literal: "canonical s \<Longrightarrow> s \<noteq> [] \<Longrightarrow> is_literal s"
proof -
  assume s: "canonical s" "s \<noteq> []"
  have "well_escaped s"
    using s(1) unfolding canonical_iff by auto
  moreover have "list_all isLiteral s"
    using canonical_literal [OF s(1)] by (metis list_all_iff)
  ultimately show ?thesis
    using s(2) by (simp add: is_literal_def)
qed

definition segment_text :: "string \<Rightarrow> bool" where
  "segment_text s \<longleftrightarrow> s = ''*'' \<or> s = ''**'' \<or> canonical s \<and> s \<noteq> []"

lemma segment_of_ok [simp]:
  assumes "segment_text s"
  shows "wf_segment (segment_of s)" "flat (segment_of s) = [s]" "print_segment (segment_of s) = s"
    "vars_of n (segment_of s) = []" "fresh_names S (segment_of s)"
  using assms canonical_is_literal [of s] canon_canonical [of s]
  unfolding segment_text_def by (elim disjE; simp add: segment_of_def)+

lemma segments_of_ok:
  assumes "list_all segment_text segs"
  shows "list_all wf_segment (map segment_of segs)" "flats (map segment_of segs) = segs"
    "vars_list n (map segment_of segs) = []" "fresh_list S (map segment_of segs)"
  using assms by (induction segs arbitrary: n S) simp_all

lemma print_segments_of:
  "list_all segment_text segs \<Longrightarrow> segs \<noteq> [] \<Longrightarrow>
   CHR ''/'' # print_segments (map segment_of segs) = render segs"
proof (induction segs)
  case (Cons s segs)
  then show ?case by (cases "segs = []") (simp_all add: render_def)
qed simp

lemma wf_pattern_text: "wf_pattern segs \<Longrightarrow> list_all segment_text segs"
  by (simp add: wf_pattern_def segment_text_def list_all_iff)

lemma canonical_text_template:
  assumes "wf_pattern segs" and "\<And>v. verb = Some v \<Longrightarrow> canonical v \<and> v \<noteq> []"
  shows "wf_template (map segment_of segs) verb"
    and "print_template (map segment_of segs) verb = canonical_text segs verb"
proof -
  note shape = wf_pattern_text [OF assms(1)]
  show "wf_template (map segment_of segs) verb"
    using assms segments_of_ok [OF shape] canonical_is_literal
    by (auto simp: wf_template_def wf_segments_def wf_pattern_def split: option.splits)
  show "print_template (map segment_of segs) verb = canonical_text segs verb"
    using print_segments_of [OF shape] assms(1)
    by (simp add: print_template_def canonical_text_def wf_pattern_def)
qed

lemma canonical_text_parses:
  assumes "wf_pattern segs" and "\<And>v. verb = Some v \<Longrightarrow> canonical v \<and> v \<noteq> []"
  shows "parsePathTemplate (canonical_text segs verb) = Inr (canonical_text segs verb, [])"
proof -
  have "map_option canon verb = verb"
    using assms(2) canon_canonical by (cases verb) auto
  then show ?thesis
    using parsePathTemplate_complete [OF canonical_text_template(1) [OF assms]]
      canonical_text_template(2) [OF assms] segments_of_ok [OF wf_pattern_text [OF assms(1)]]
    by simp
qed

lemma parse_idempotent:
  "parsePathTemplate t = Inr (out, vs) \<Longrightarrow> parsePathTemplate out = Inr (out, [])"
  by (elim parsed_pattern) (auto simp: canonical_text_parses)

section \<open>Properties\<close>

text \<open>C2: The parser accepts exactly the documented grammar and computes its meaning: a template
  parses if and only if it is the printed form of a well-formed syntax (a slash, segments
  with a double star only at the end, an optional verb), and the result is the canonical
  text of that syntax with the variables it declares, in order.\<close>

theorem parser_grammar:
  "parsePathTemplate t = Inr r \<longleftrightarrow>
     (\<exists>ss verb. wf_template ss verb \<and> t = print_template ss verb \<and>
        r = (canonical_text (flats ss) (map_option canon verb), vars_list 0 ss))"
  by (rule parsePathTemplate_iff)

text \<open>The canonical text of a template is itself a template, declares no variables, and is
  its own canonical text, so two rules with the same canonical text are the same route.\<close>

theorem parser_canonical_fixpoint:
  "parsePathTemplate t = Inr (out, vs) \<Longrightarrow> parsePathTemplate out = Inr (out, [])"
  by (rule parse_idempotent)

theorem parser_canonical_fixpoint_witness:
  "parsePathTemplate ''/a/a/*:v'' = Inr (''/a/a/*:v'', [])"
proof -
  have "parsePathTemplate ''/a/{x=%61/*}:v'' =
      Inr (''/a/a/*:v'', [\<lparr>fieldPath = ''x'', vstart = 1, vend = 3\<rparr>])"
    by code_simp
  then show ?thesis
    using parser_canonical_fixpoint by blast
qed

text \<open>Every variable of a parsed template names a valid field path and covers a non-empty
  range of the canonical segments: it starts at a segment of the template, and either ends
  at or before the last one or is open-ended, the latter only when the last segment is a
  double star.\<close>

theorem parser_variable_ranges:
  assumes "parsePathTemplate t = Inr (out, vs)"
  shows "\<exists>segs verb. out = canonical_text segs verb \<and> wf_pattern segs \<and>
    list_all (wf_variable segs) vs"
  using parsed_pattern [OF assms] by (metis list_all_iff)

theorem parser_variable_ranges_witness:
  "\<exists>segs verb. ''/a/*/b/**'' = canonical_text segs verb \<and> wf_pattern segs \<and>
    list_all (wf_variable segs)
      [\<lparr>fieldPath = ''x'', vstart = 1, vend = 2\<rparr>, \<lparr>fieldPath = ''y.z'', vstart = 2, vend = -1\<rparr>]"
proof -
  have "parsePathTemplate ''/a/{x}/{y.z=b/**}'' =
      Inr (''/a/*/b/**'', [\<lparr>fieldPath = ''x'', vstart = 1, vend = 2\<rparr>,
        \<lparr>fieldPath = ''y.z'', vstart = 2, vend = -1\<rparr>])"
    by code_simp
  then show ?thesis
    by (rule parser_variable_ranges)
qed

text \<open>The check for repeated variables misses nesting: a variable inside the pattern of
  another may have its name, and both are returned.\<close>

theorem nested_duplicate_accepted:
  "parsePathTemplate ''/{a={a}}'' =
     Inr (''/*'', [\<lparr>fieldPath = ''a'', vstart = 0, vend = 1\<rparr>, \<lparr>fieldPath = ''a'', vstart = 0, vend = 1\<rparr>]) \<and>
   (case parsePathTemplate ''/{a}/{a}'' of Inl e \<Rightarrow> True | Inr r \<Rightarrow> False)"
  by code_simp

end
