(* ===== verification/FieldPaths.thy ===== *)
theory FieldPaths
  imports Prelude
begin

text \<open>
  Descriptors and field paths.  The descriptors of \<open>protoreflect\<close> are not code of this
  repository, so a descriptor is an element of a type variable and the record \<open>reflect\<close>
  holds the accessors the code calls on it; every definition that reads a descriptor takes
  that record as its argument \<open>R\<close>.  The field path functions are those of \<open>router.go\<close>
  (lines 399 to 471); the body path functions those of \<open>encoding.go\<close>.
\<close>

section \<open>The descriptor accessors the code calls\<close>

datatype kind =
    BoolKind | EnumKind | Int32Kind | Sint32Kind | Uint32Kind | Int64Kind | Sint64Kind
  | Uint64Kind | Sfixed32Kind | Fixed32Kind | FloatKind | Sfixed64Kind | Fixed64Kind
  | DoubleKind | StringKind | BytesKind | MessageKind | GroupKind

text \<open>
  \<open>'mtd\<close>, \<open>'msg\<close> and \<open>'fld\<close> are method, message and field descriptors.  A nil interface
  is \<open>None\<close>.
\<close>

record ('mtd, 'msg, 'fld) reflect =
  Input :: "'mtd \<Rightarrow> 'msg"
  Output :: "'mtd \<Rightarrow> 'msg"
  FullName :: "'msg \<Rightarrow> string"
  MsgName :: "'msg \<Rightarrow> string"
  ByName :: "'msg \<Rightarrow> string \<Rightarrow> 'fld option"
  ByJSONName :: "'msg \<Rightarrow> string \<Rightarrow> 'fld option"
  FieldName :: "'fld \<Rightarrow> string"
  JSONName :: "'fld \<Rightarrow> string"
  Repeated :: "'fld \<Rightarrow> bool"
  IsList :: "'fld \<Rightarrow> bool"
  IsMap :: "'fld \<Rightarrow> bool"
  Kind :: "'fld \<Rightarrow> kind"
  Message :: "'fld \<Rightarrow> 'msg option"

text \<open>
  The documented behaviour of the field lookups: a field found by a name has that name, and
  a field list or map is repeated.
\<close>

definition lawful_names :: "('mtd, 'msg, 'fld) reflect \<Rightarrow> bool" where
  "lawful_names R \<longleftrightarrow>
     (\<forall>m n f. ByName R m n = Some f \<longrightarrow> FieldName R f = n) \<and>
     (\<forall>m n f. ByJSONName R m n = Some f \<longrightarrow> JSONName R f = n)"

section \<open>Field paths\<close>

datatype fieldError =
    EmptyFieldPath
  | UnknownField string string string
  | RepeatedField string string string
  | NotAMessage string string string kind

text \<open>The name up to the next dot, and what follows the dot.\<close>

definition nextPart :: "string \<Rightarrow> string \<times> string" where
  "nextPart remaining =
     (case index_byte CHR ''.'' remaining of
        Some i \<Rightarrow> (take i remaining, drop (i + 1) remaining)
      | None \<Rightarrow> (remaining, []))"

definition lookupField :: "('mtd, 'msg, 'fld) reflect \<Rightarrow> 'msg \<Rightarrow> string \<Rightarrow> bool \<Rightarrow> 'fld option" where
  "lookupField R msg part fromJSON =
     (case (if fromJSON then ByJSONName R msg part else None) of
        Some field \<Rightarrow> Some field
      | None \<Rightarrow> ByName R msg part)"

lemma nextPart_shorter: "remaining \<noteq> [] \<Longrightarrow> length (snd (nextPart remaining)) < length remaining"
  by (auto simp: nextPart_def split: option.splits)

function appendPath_loop ::
  "('mtd, 'msg, 'fld) reflect \<Rightarrow> string \<Rightarrow> bool \<Rightarrow> 'fld list \<Rightarrow> 'msg \<Rightarrow> string \<Rightarrow>
   fieldError + 'fld list"
where
  "appendPath_loop R path fromJSON result msg remaining =
     (if remaining = [] then Inr result
      else
        (let (part, remaining') = nextPart remaining in
         case lookupField R msg part fromJSON of
           None \<Rightarrow> Inl (UnknownField path part (FullName R msg))
         | Some field \<Rightarrow>
             if remaining' = [] then Inr (result @ [field])
             else if Repeated R field then Inl (RepeatedField path part (FullName R msg))
             else
               (case Message R field of
                  None \<Rightarrow> Inl (NotAMessage path part (FullName R msg) (Kind R field))
                | Some childMsg \<Rightarrow>
                    appendPath_loop R path fromJSON (result @ [field]) childMsg remaining')))"
  by pat_completeness auto
termination
  by (relation "measure (\<lambda>(_, _, _, _, _, remaining). length remaining)")
     (use nextPart_shorter in \<open>auto simp: prod_eq_iff\<close>)

declare appendPath_loop.simps [simp del]

definition appendPathToFieldDescriptors ::
  "('mtd, 'msg, 'fld) reflect \<Rightarrow> 'fld list \<Rightarrow> 'msg \<Rightarrow> string \<Rightarrow> bool \<Rightarrow> fieldError + 'fld list"
where
  "appendPathToFieldDescriptors R result msg path fromJSON =
     (if path = [] then Inl EmptyFieldPath
      else appendPath_loop R path fromJSON result msg path)"

definition resolvePathToFieldDescriptors ::
  "('mtd, 'msg, 'fld) reflect \<Rightarrow> 'msg \<Rightarrow> string \<Rightarrow> bool \<Rightarrow> fieldError + 'fld list"
where
  "resolvePathToFieldDescriptors R msg path fromJSON =
     appendPathToFieldDescriptors R [] msg path fromJSON"

fun resolvePath_loop :: "('mtd, 'msg, 'fld) reflect \<Rightarrow> bool \<Rightarrow> nat \<Rightarrow> 'fld list \<Rightarrow> string" where
  "resolvePath_loop R toJSON i [] = []"
| "resolvePath_loop R toJSON i (field # flds) =
     (if i > 0 then ''.'' else []) @
     (if toJSON then JSONName R field else FieldName R field) @
     resolvePath_loop R toJSON (i + 1) flds"

definition resolveFieldDescriptorsToPath ::
  "('mtd, 'msg, 'fld) reflect \<Rightarrow> 'fld list \<Rightarrow> bool \<Rightarrow> string"
where
  "resolveFieldDescriptorsToPath R flds toJSON =
     (if flds = [] then [] else resolvePath_loop R toJSON 0 flds)"

section \<open>Body paths (encoding.go)\<close>

definition httpBodyTypeName :: string where
  "httpBodyTypeName = ''google.api.HttpBody''"

definition isHTTPBodyPath :: "('mtd, 'msg, 'fld) reflect \<Rightarrow> 'fld list \<Rightarrow> 'msg \<Rightarrow> bool" where
  "isHTTPBodyPath R flds msgDesc =
     (if flds = [] then FullName R msgDesc = httpBodyTypeName
      else
        (let l = last flds in
         if IsList R l \<or> IsMap R l then False
         else (case Message R l of Some m \<Rightarrow> FullName R m = httpBodyTypeName | None \<Rightarrow> False)))"

text \<open>
  \<open>walkBodyFields\<close> descends from a root message along the body path.  The message values
  belong to protobuf, so the accessor \<open>acc\<close> (\<open>Mutable\<close> or \<open>Get\<close>) is an argument that
  gives the message a field holds; the error is the field that is not a singular message.
\<close>

fun walkBody_loop ::
  "('mtd, 'msg, 'fld) reflect \<Rightarrow> ('v \<Rightarrow> 'fld \<Rightarrow> 'v) \<Rightarrow> 'v \<Rightarrow> 'fld option \<Rightarrow> 'fld list \<Rightarrow>
   'fld + 'v \<times> 'fld option"
where
  "walkBody_loop R acc host leaf [] = Inr (host, leaf)"
| "walkBody_loop R acc host leaf (field # flds) =
     (if Message R field \<noteq> None \<and> \<not> Repeated R field
      then walkBody_loop R acc (acc host field) leaf flds
      else if flds \<noteq> [] then Inl field
      else walkBody_loop R acc host (Some field) flds)"

definition walkBodyFields ::
  "('mtd, 'msg, 'fld) reflect \<Rightarrow> 'fld list \<Rightarrow> 'v \<Rightarrow> ('v \<Rightarrow> 'fld \<Rightarrow> 'v) \<Rightarrow> 'fld + 'v \<times> 'fld option"
where
  "walkBodyFields R flds root acc = walkBody_loop R acc root None flds"

section \<open>What a resolved path looks like\<close>

text \<open>Every field but the last is a singular message field.\<close>

definition walkable :: "('mtd, 'msg, 'fld) reflect \<Rightarrow> 'fld list \<Rightarrow> bool" where
  "walkable R flds \<longleftrightarrow>
     flds \<noteq> [] \<and> (\<forall>f \<in> set (butlast flds). Message R f \<noteq> None \<and> \<not> Repeated R f)"

lemma appendPath_loop_cases:
  assumes "appendPath_loop R path fromJSON result msg remaining = Inr flds" and "remaining \<noteq> []"
  obtains (last) part field where "nextPart remaining = (part, [])"
      and "lookupField R msg part fromJSON = Some field" and "flds = result @ [field]"
    | (step) part rem field child where "nextPart remaining = (part, rem)" and "rem \<noteq> []"
      and "lookupField R msg part fromJSON = Some field" and "\<not> Repeated R field"
      and "Message R field = Some child"
      and "appendPath_loop R path fromJSON (result @ [field]) child rem = Inr flds"
proof -
  obtain part rem where np: "nextPart remaining = (part, rem)"
    by fastforce
  obtain field where f: "lookupField R msg part fromJSON = Some field"
    using assms np by (subst (asm) appendPath_loop.simps) (auto split: option.splits)
  show thesis
  proof (cases "rem = []")
    case True
    then show thesis
      using assms np f last by (subst (asm) appendPath_loop.simps) simp
  next
    case False
    then show thesis
      using assms np f step
      by (subst (asm) appendPath_loop.simps) (auto split: if_splits option.splits)
  qed
qed

lemma appendPath_loop_walkable:
  "appendPath_loop R path fromJSON result msg remaining = Inr flds \<Longrightarrow> remaining \<noteq> [] \<Longrightarrow>
   \<exists>fs. flds = result @ fs \<and> walkable R fs"
proof (induction R path fromJSON result msg remaining rule: appendPath_loop.induct)
  case (1 R path fromJSON result msg remaining)
  from "1.prems" show ?case
  proof (cases rule: appendPath_loop_cases)
    case (last part field)
    then show ?thesis by (simp add: walkable_def)
  next
    case (step part rem field child)
    then obtain fs where "flds = (result @ [field]) @ fs" "walkable R fs"
      using "1.IH" [OF "1.prems"(2) step(1) [symmetric] refl step(3,2,4,5,6)] by blast
    then show ?thesis
      using step by (auto simp: walkable_def)
  qed
qed

lemma nextPart_Nil: "nextPart r = (part, []) \<Longrightarrow> r = part \<or> r = part @ ''.''"
  by (auto simp: nextPart_def split: option.splits dest!: index_byte_Some)
     (metis Suc_lessI append_Nil2 append_take_drop_id hd_drop_conv_nth id_take_nth_drop
       drop_all leI take_Suc_conv_app_nth)

lemma nextPart_Cons:
  assumes "nextPart r = (part, rem)" and "rem \<noteq> []"
  shows "r = part @ CHR ''.'' # rem"
proof (cases "index_byte CHR ''.'' r")
  case None
  then show ?thesis using assms by (simp add: nextPart_def)
next
  case (Some i)
  then have "i < length r" "r ! i = CHR ''.''"
    using index_byte_Some by blast+
  then have "r = take i r @ CHR ''.'' # drop (Suc i) r"
    using id_take_nth_drop by metis
  then show ?thesis
    using assms Some by (simp add: nextPart_def)
qed

lemma lookupField_name: "lawful_names R \<Longrightarrow> lookupField R m n False = Some f \<Longrightarrow> FieldName R f = n"
  by (auto simp: lookupField_def lawful_names_def)

lemma resolvePath_loop_Suc:
  "resolvePath_loop R b (Suc i) flds =
     concat (map (\<lambda>f. CHR ''.'' # (if b then JSONName R f else FieldName R f)) flds)"
  by (induction flds arbitrary: i) auto

lemma appendPath_loop_names:
  "appendPath_loop R path False result msg remaining = Inr flds \<Longrightarrow> remaining \<noteq> [] \<Longrightarrow>
   lawful_names R \<Longrightarrow>
   \<exists>fs. flds = result @ fs \<and>
     (CHR ''.'' # remaining = concat (map (\<lambda>f. CHR ''.'' # FieldName R f) fs) \<or>
      CHR ''.'' # remaining = concat (map (\<lambda>f. CHR ''.'' # FieldName R f) fs) @ ''.'')"
proof (induction R path "False" result msg remaining rule: appendPath_loop.induct)
  case (1 R path result msg remaining)
  from "1.prems"(1,2) show ?case
  proof (cases rule: appendPath_loop_cases)
    case (last part field)
    then show ?thesis
      using nextPart_Nil lookupField_name [OF "1.prems"(3)]
      by (intro exI [of _ "[field]"]) fastforce
  next
    case (step part rem field child)
    then obtain fs where fs: "flds = (result @ [field]) @ fs"
      "CHR ''.'' # rem = concat (map (\<lambda>f. CHR ''.'' # FieldName R f) fs) \<or>
       CHR ''.'' # rem = concat (map (\<lambda>f. CHR ''.'' # FieldName R f) fs) @ ''.''"
      using "1.hyps" [OF "1.prems"(2) step(1) [symmetric] refl step(3,2,4,5,6) step(2) "1.prems"(3)]
      by blast
    moreover have "remaining = part @ CHR ''.'' # rem" "FieldName R field = part"
      using nextPart_Cons [OF step(1,2)] lookupField_name [OF "1.prems"(3) step(3)] by auto
    ultimately show ?thesis
      by (intro exI [of _ "field # fs"]) auto
  qed
qed

lemma resolve_names:
  assumes "resolvePathToFieldDescriptors R msg path False = Inr flds" and "lawful_names R"
  shows "path = resolveFieldDescriptorsToPath R flds False \<or>
         path = resolveFieldDescriptorsToPath R flds False @ ''.''"
proof -
  have loop: "appendPath_loop R path False [] msg path = Inr flds" and ne: "path \<noteq> []"
    using assms
    by (auto simp: resolvePathToFieldDescriptors_def appendPathToFieldDescriptors_def split: if_splits)
  have "flds \<noteq> []"
    using appendPath_loop_walkable [OF loop ne] by (auto simp: walkable_def)
  then show ?thesis
    using appendPath_loop_names [OF loop ne assms(2)]
    by (cases flds) (auto simp: resolveFieldDescriptorsToPath_def resolvePath_loop_Suc)
qed

lemma resolve_walkable:
  "resolvePathToFieldDescriptors R msg path fromJSON = Inr flds \<Longrightarrow> walkable R flds"
  using appendPath_loop_walkable [of R path fromJSON "[]" msg path flds]
  by (auto simp: resolvePathToFieldDescriptors_def appendPathToFieldDescriptors_def split: if_splits)

text \<open>A resolved path can be walked: no error, and a leaf only where the last field is no message.\<close>

lemma walkBody_append:
  "(\<forall>f \<in> set xs. Message R f \<noteq> None \<and> \<not> Repeated R f) \<Longrightarrow>
   walkBody_loop R acc host leaf (xs @ ys) = walkBody_loop R acc (foldl acc host xs) leaf ys"
  by (induction xs arbitrary: host) auto

lemma walkBodyFields_walkable:
  assumes "walkable R flds"
  shows "walkBodyFields R flds root acc =
     (if Message R (last flds) \<noteq> None \<and> \<not> Repeated R (last flds)
      then Inr (foldl acc root flds, None)
      else Inr (foldl acc root (butlast flds), Some (last flds)))"
proof -
  have "flds = butlast flds @ [last flds]"
    using assms by (simp add: walkable_def)
  moreover have "walkBody_loop R acc root None (butlast flds @ [last flds]) =
      walkBody_loop R acc (foldl acc root (butlast flds)) None [last flds]"
    using assms by (intro walkBody_append) (simp add: walkable_def)
  moreover have "foldl acc root flds = acc (foldl acc root (butlast flds)) (last flds)"
    using calculation(1) foldl_append [of acc root "butlast flds" "[last flds]"] by simp
  ultimately show ?thesis
    unfolding walkBodyFields_def by auto
qed

section \<open>A small schema for concrete instances\<close>

text \<open>
  Messages and fields are named by strings: a \<open>GetBook\<close> request has a string \<open>name\<close>, a
  repeated string \<open>tags\<close> and a message \<open>shelf\<close> with a string \<open>id\<close>; an \<open>Upload\<close> request has
  an \<open>HttpBody\<close> field \<open>file\<close>.
\<close>

definition sample_fields :: "(string \<times> string) list" where
  "sample_fields =
     [(''GetBook'', ''name''), (''GetBook'', ''tags''), (''GetBook'', ''shelf''), (''Shelf'', ''id''),
      (''Upload'', ''file''), (''Upload'', ''name'')]"

definition sample :: "(string, string, string) reflect" where
  "sample =
     \<lparr>Input = (\<lambda>m. m), Output = (\<lambda>m. ''Book''),
      FullName = (\<lambda>m. if m = ''HttpBody'' then ''google.api.HttpBody'' else m), MsgName = (\<lambda>m. m),
      ByName = (\<lambda>m n. if (m, n) \<in> set sample_fields then Some n else None),
      ByJSONName = (\<lambda>m n. if (m, n) \<in> set sample_fields then Some n else None),
      FieldName = (\<lambda>f. f), JSONName = (\<lambda>f. f),
      Repeated = (\<lambda>f. f = ''tags''), IsList = (\<lambda>f. f = ''tags''), IsMap = (\<lambda>f. False),
      Kind = (\<lambda>f. if f = ''shelf'' \<or> f = ''file'' then MessageKind else StringKind),
      Message = (\<lambda>f. if f = ''shelf'' then Some ''Shelf'' else if f = ''file'' then Some ''HttpBody''
                     else None)\<rparr>"

lemma sample_lawful: "lawful_names sample"
  by (simp add: lawful_names_def sample_def)

end
