(* ===== verification/RouteTarget.thy ===== *)
theory RouteTarget
  imports PathGrammar FieldPaths "HOL-Library.Monad_Syntax"
begin

text \<open>
  Route targets: lines 182 to 397 of \<open>router.go\<close> (\<open>splitVerb\<close>, \<open>routeTarget\<close>, \<open>makeTarget\<close>,
  \<open>checkStreamType\<close>, \<open>trimVerb\<close>, \<open>routeTargetVar\<close> and \<open>segmentOffset\<close>), the record \<open>methodRecord\<close>
  of \<open>method.go\<close>, and the two tests of \<open>encoding.go\<close> for \<open>google.api.HttpBody\<close>.

  A Go slice expression panics when its bounds are out of range.  Where the source slices
  with computed bounds the model returns \<open>None\<close> for the panic; a Go error is still \<open>Inl\<close>.
  A nil slice is \<open>None\<close> where the code tells it from an empty one.
\<close>

section \<open>Methods\<close>

datatype StreamType = StreamTypeUnary | StreamTypeClient | StreamTypeServer | StreamTypeBidi

record 'mtd spec =
  Procedure :: string
  streamType :: StreamType
  Schema :: "'mtd option"

text \<open>
  The field \<open>httpRule\<close> of \<open>methodRecord\<close>, a pointer back to the route target, is kept beside the
  method in the models that set it; \<open>requestT\<close> and \<open>responseT\<close> are message types.
\<close>

record ('mtd, 'typ) methodRecord =
  spec :: "'mtd spec"
  descriptor :: 'mtd
  requestT :: 'typ
  responseT :: 'typ

section \<open>Route targets\<close>

record 'fld routeTargetVar = pathVariable +
  flds :: "'fld list"

datatype streamError =
    RequiresBodyRequest StreamType
  | RequiresBodyResponse StreamType
  | StreamNotSupported StreamType

record ('mtd, 'typ, 'fld) routeTarget =
  target_method :: "('mtd, 'typ) methodRecord"
  httpMethod :: string
  template :: string
  pattern :: string
  requestBodyFieldPath :: string
  requestBodyFields :: "'fld list option"
  responseBodyFieldPath :: string
  responseBodyFields :: "'fld list option"
  vars :: "'fld routeTargetVar list"
  unsupported :: "streamError option"

datatype targetError =
    FieldPathError fieldError
  | RequestBodyNotSingle string
  | ResponseBodyNotSingle string
  | PathVariableRepeated string

definition isHTTPBodyRequest ::
  "('mtd, 'msg, 'fld) reflect \<Rightarrow> ('mtd, 'typ, 'fld) routeTarget \<Rightarrow> 'msg \<Rightarrow> bool"
where
  "isHTTPBodyRequest R target msgDesc =
     (case requestBodyFields target of
        None \<Rightarrow> False
      | Some body \<Rightarrow> isHTTPBodyPath R body msgDesc)"

text \<open>A nil slice has length zero, as an empty one.\<close>

definition isHTTPBodyResponse ::
  "('mtd, 'msg, 'fld) reflect \<Rightarrow> ('mtd, 'typ, 'fld) routeTarget \<Rightarrow> 'msg \<Rightarrow> bool"
where
  "isHTTPBodyResponse R target msgDesc =
     isHTTPBodyPath R (case responseBodyFields target of None \<Rightarrow> [] | Some body \<Rightarrow> body) msgDesc"

definition checkStreamType ::
  "('mtd, 'msg, 'fld) reflect \<Rightarrow> ('mtd, 'typ, 'fld) routeTarget \<Rightarrow> streamError option"
where
  "checkStreamType R target =
     (let m = target_method target; st = streamType (spec m) in
      case st of
        StreamTypeUnary \<Rightarrow> None
      | StreamTypeClient \<Rightarrow>
          if isHTTPBodyRequest R target (Input R (descriptor m)) then None
          else Some (RequiresBodyRequest st)
      | StreamTypeServer \<Rightarrow>
          if isHTTPBodyResponse R target (Output R (descriptor m)) then None
          else Some (RequiresBodyResponse st)
      | StreamTypeBidi \<Rightarrow> Some (StreamNotSupported st))"

text \<open>
  The body fields of one side: \<open>"*"\<close> is the whole message (a non-nil empty slice), the empty
  string is no body (nil), anything else a single field.  The two sides of the source differ
  in the error they build, which is the argument \<open>err\<close>.
\<close>

definition bodyFields ::
  "('mtd, 'msg, 'fld) reflect \<Rightarrow> 'msg \<Rightarrow> string \<Rightarrow> targetError \<Rightarrow> targetError + 'fld list option"
where
  "bodyFields R msg body err =
     (if body = ''*'' then Inr (Some [])
      else if body \<noteq> [] then
        (case resolvePathToFieldDescriptors R msg body False of
           Inl e \<Rightarrow> Inl (FieldPathError e)
         | Inr fs \<Rightarrow> if length fs > 1 then Inl err else Inr (Some fs))
      else Inr None)"

fun targetVars ::
  "('mtd, 'msg, 'fld) reflect \<Rightarrow> 'msg \<Rightarrow> pathVariable list \<Rightarrow> targetError + 'fld routeTargetVar list"
where
  "targetVars R msg [] = Inr []"
| "targetVars R msg (variable # vs) =
     (case resolvePathToFieldDescriptors R msg (fieldPath variable) False of
        Inl e \<Rightarrow> Inl (FieldPathError e)
      | Inr fs \<Rightarrow>
          if IsList R (last fs) then Inl (PathVariableRepeated (fieldPath variable))
          else
            (case targetVars R msg vs of
               Inl e \<Rightarrow> Inl e
             | Inr rtv \<Rightarrow> Inr (pathVariable.extend variable \<lparr>flds = fs\<rparr> # rtv)))"

text \<open>
  The error for the response body quotes \<open>requestBody\<close>, as the source does.
\<close>

definition makeTarget ::
  "('mtd, 'msg, 'fld) reflect \<Rightarrow> ('mtd, 'typ) methodRecord \<Rightarrow> string \<Rightarrow> string \<Rightarrow> string \<Rightarrow> string \<Rightarrow>
   pathVariable list \<Rightarrow> targetError + ('mtd, 'typ, 'fld) routeTarget"
where
  "makeTarget R m hmethod requestBody responseBody tmpl pvars =
     (case bodyFields R (Input R (descriptor m)) requestBody (RequestBodyNotSingle requestBody) of
        Inl e \<Rightarrow> Inl e
      | Inr reqFields \<Rightarrow>
     (case bodyFields R (Output R (descriptor m)) responseBody (ResponseBodyNotSingle requestBody) of
        Inl e \<Rightarrow> Inl e
      | Inr respFields \<Rightarrow>
     (case targetVars R (Input R (descriptor m)) pvars of
        Inl e \<Rightarrow> Inl e
      | Inr rtv \<Rightarrow>
          (let target =
             \<lparr>target_method = m, httpMethod = hmethod, template = tmpl, pattern = [],
              requestBodyFieldPath = requestBody, requestBodyFields = reqFields,
              responseBodyFieldPath = responseBody, responseBodyFields = respFields,
              vars = rtv, unsupported = None\<rparr>
           in Inr (target\<lparr>unsupported := checkStreamType R target\<rparr>)))))"

section \<open>Verbs\<close>

definition splitVerb :: "string \<Rightarrow> string \<times> string" where
  "splitVerb uriPath =
     (let lst = (case last_index_byte CHR ''/'' uriPath of Some i \<Rightarrow> i + 1 | None \<Rightarrow> 0) in
      case last_index_byte CHR '':'' (drop lst uriPath) of
        Some colon \<Rightarrow> (take (lst + colon) uriPath, drop (lst + colon + 1) uriPath)
      | None \<Rightarrow> (uriPath, []))"

definition trimVerb :: "('mtd, 'typ, 'fld) routeTarget \<Rightarrow> string \<Rightarrow> string option" where
  "trimVerb target uriPath =
     (let (_, verb) = splitVerb (template target) in
      if verb \<noteq> [] then
        if length uriPath < length verb + 1 then None
        else Some (take (length uriPath - length verb - 1) uriPath)
      else Some uriPath)"

section \<open>Captures\<close>

definition size_var :: "('fld, 'z) routeTargetVar_scheme \<Rightarrow> int" where
  "size_var v = (if vend v = -1 then -1 else vend v - vstart v)"

text \<open>\<open>segments[start:end]\<close> panics unless \<open>0 \<le> start \<le> end \<le> len(segments)\<close>.\<close>

definition slice :: "'a list \<Rightarrow> int \<Rightarrow> int \<Rightarrow> 'a list option" where
  "slice xs s e =
     (if 0 \<le> s \<and> s \<le> e \<and> e \<le> int (length xs)
      then Some (take (nat (e - s)) (drop (nat s) xs)) else None)"

definition index_var :: "('fld, 'z) routeTargetVar_scheme \<Rightarrow> string list \<Rightarrow> string list option" where
  "index_var v segs =
     (if vend v = -1 then
        if vstart v \<ge> int (length segs) then Some []
        else slice segs (vstart v) (int (length segs))
      else slice segs (vstart v) (vend v))"

text \<open>\<open>for range index\<close> runs no time for a negative index.\<close>

fun segmentOffset_loop :: "string \<Rightarrow> nat \<Rightarrow> nat \<Rightarrow> nat option" where
  "segmentOffset_loop path 0 offset = Some offset"
| "segmentOffset_loop path (Suc n) offset =
     (if offset + 1 > length path then None
      else
        (case index_byte CHR ''/'' (drop (offset + 1) path) of
           None \<Rightarrow> Some (length path)
         | Some nxt \<Rightarrow> segmentOffset_loop path n (offset + (nxt + 1))))"

definition segmentOffset :: "string \<Rightarrow> int \<Rightarrow> nat option" where
  "segmentOffset path index = segmentOffset_loop path (nat index) 0"

definition capture :: "('fld, 'z) routeTargetVar_scheme \<Rightarrow> string \<Rightarrow> (string + string) option" where
  "capture v path =
     do {
       start \<leftarrow> segmentOffset path (vstart v);
       e \<leftarrow> (if vend v \<noteq> -1
            then map_option (\<lambda>k. start + k) (segmentOffset (drop start path) (vend v - vstart v))
            else Some (length path));
       let mode = (if vend v \<noteq> -1 \<and> vend v - vstart v = 1 then pathEncodeSingle
                   else pathEncodeMulti);
       raw \<leftarrow> slice path (int start + 1) (int e);
       Some (pathUnescape raw mode)
     }"

section \<open>Rendered paths\<close>

lemma render_Nil [simp]: "render [] = []"
  and render_Cons [simp]: "render (s # segs) = CHR ''/'' # s @ render segs"
  and render_append [simp]: "render (xs @ ys) = render xs @ render ys"
  by (simp_all add: render_def)

lemma render_eq_Nil [simp]: "render segs = [] \<longleftrightarrow> segs = []"
  by (cases segs) simp_all

lemma render_join: "segs \<noteq> [] \<Longrightarrow> render segs = CHR ''/'' # join_with ''/'' segs"
proof (induction segs)
  case (Cons s segs)
  then show ?case by (cases segs) simp_all
qed simp

definition plain_segments :: "string list \<Rightarrow> bool" where
  "plain_segments segs \<longleftrightarrow> (\<forall>s \<in> set segs. CHR ''/'' \<notin> set s)"

lemma plain_segments_simps [simp]:
  "plain_segments []" "plain_segments (s # segs) \<longleftrightarrow> CHR ''/'' \<notin> set s \<and> plain_segments segs"
  "plain_segments (xs @ ys) \<longleftrightarrow> plain_segments xs \<and> plain_segments ys"
  by (auto simp: plain_segments_def)

lemma plain_segments_take [simp]: "plain_segments segs \<Longrightarrow> plain_segments (take n segs)"
  and plain_segments_drop [simp]: "plain_segments segs \<Longrightarrow> plain_segments (drop n segs)"
  by (auto simp: plain_segments_def dest: in_set_takeD in_set_dropD)

lemma split_render: "segs \<noteq> [] \<Longrightarrow> plain_segments segs \<Longrightarrow> split_on CHR ''/'' (drop 1 (render segs)) = segs"
  by (simp add: render_join split_join plain_segments_def)

text \<open>Every path that starts with a slash is the rendering of its parts.\<close>

lemma render_split: "render (split_on CHR ''/'' p) = CHR ''/'' # p"
  by (simp add: render_join join_split)

lemma plain_split [simp]: "plain_segments (split_on CHR ''/'' p)"
  using split_on_parts by (auto simp: plain_segments_def)

section \<open>Offsets and captures on rendered paths\<close>

lemma index_byte_segment:
  "CHR ''/'' \<notin> set s \<Longrightarrow>
   index_byte CHR ''/'' (s @ render segs) = (if segs = [] then None else Some (length s))"
  by (cases segs) (simp_all add: index_byte_append)

lemma segmentOffset_loop_render:
  "plain_segments segs \<Longrightarrow> n \<le> length segs \<Longrightarrow>
   segmentOffset_loop (pre @ render segs) n (length pre) =
     Some (length pre + length (render (take n segs)))"
proof (induction segs arbitrary: pre n)
  case (Cons s segs)
  show ?case
  proof (cases n)
    case (Suc m)
    have "segmentOffset_loop ((pre @ CHR ''/'' # s) @ render segs) m (length (pre @ CHR ''/'' # s)) =
        Some (length (pre @ CHR ''/'' # s) + length (render (take m segs)))"
      using Cons Suc by (intro Cons.IH) simp_all
    then show ?thesis
      using Suc Cons.prems by (cases "segs = []") (simp_all add: index_byte_segment)
  qed simp
qed simp

lemma segmentOffset_render:
  "plain_segments segs \<Longrightarrow> i \<le> int (length segs) \<Longrightarrow>
   segmentOffset (render segs) i = Some (length (render (take (nat i) segs)))"
  using segmentOffset_loop_render [of segs "nat i" "[]"] by (simp add: segmentOffset_def)

lemma drop_render: "drop (length (render (take n segs))) (render segs) = render (drop n segs)"
proof -
  have "render segs = render (take n segs) @ render (drop n segs)"
    by (simp flip: render_append)
  then show ?thesis by simp
qed

text \<open>The segments of a path that a variable covers.\<close>

definition covered :: "('fld, 'z) routeTargetVar_scheme \<Rightarrow> string list \<Rightarrow> string list" where
  "covered v raws =
     (if vend v = -1 then drop (nat (vstart v)) raws
      else take (nat (vend v - vstart v)) (drop (nat (vstart v)) raws))"

definition capture_mode :: "('fld, 'z) routeTargetVar_scheme \<Rightarrow> pathEncoding" where
  "capture_mode v =
     (if vend v \<noteq> -1 \<and> vend v - vstart v = 1 then pathEncodeSingle else pathEncodeMulti)"

definition in_range :: "('fld, 'z) routeTargetVar_scheme \<Rightarrow> nat \<Rightarrow> bool" where
  "in_range v n \<longleftrightarrow>
     0 \<le> vstart v \<and> vstart v < int n \<and> (vend v \<noteq> -1 \<longrightarrow> vstart v < vend v \<and> vend v \<le> int n)"

lemma covered_not_Nil: "in_range v (length raws) \<Longrightarrow> covered v raws \<noteq> []"
  by (auto simp: in_range_def covered_def)

lemma slice_middle:
  "slice (pre @ CHR ''/'' # mid @ post) (int (length pre) + 1) (int (length pre + Suc (length mid))) = Some mid"
proof -
  have "nat (int (length pre) + 1) = Suc (length pre)"
    by simp
  then show ?thesis by (simp add: slice_def)
qed

lemma capture_render:
  assumes plain: "plain_segments raws" and range: "in_range v (length raws)"
  shows "capture v (render raws) = Some (pathUnescape (join_with ''/'' (covered v raws)) (capture_mode v))"
proof -
  let ?pre = "take (nat (vstart v)) raws" and ?rest = "drop (nat (vstart v)) raws"
  let ?cov = "covered v raws"
  obtain post where post: "?rest = ?cov @ post" "vend v = -1 \<Longrightarrow> post = []"
    by (cases "vend v = -1") (auto simp: covered_def intro: that append_take_drop_id [symmetric])
  have st: "segmentOffset (render raws) (vstart v) = Some (length (render ?pre))"
    using plain range by (intro segmentOffset_render) (auto simp: in_range_def)
  have tx: "render raws = render ?pre @ render ?cov @ render post"
    using post(1) append_take_drop_id [of "nat (vstart v)" raws] by (metis render_append)
  have cov: "render ?cov = CHR ''/'' # join_with ''/'' ?cov"
    using covered_not_Nil [OF range] by (rule render_join)
  have len: "length (join_with ''/'' ?cov) + 1 = length (render ?cov)"
    using cov by simp
  have e: "(if vend v \<noteq> -1
        then map_option (\<lambda>k. length (render ?pre) + k)
               (segmentOffset (drop (length (render ?pre)) (render raws)) (vend v - vstart v))
        else Some (length (render raws))) = Some (length (render ?pre) + length (render ?cov))"
  proof (cases "vend v = -1")
    case True
    then show ?thesis using tx post(2) by simp
  next
    case False
    have "segmentOffset (render ?rest) (vend v - vstart v) = Some (length (render ?cov))"
      using plain range False
      by (subst segmentOffset_render) (auto simp: in_range_def covered_def)
    then show ?thesis using False by (simp add: drop_render)
  qed
  have "slice (render raws) (int (length (render ?pre)) + 1)
      (int (length (render ?pre) + length (render ?cov))) = Some (join_with ''/'' ?cov)"
    using slice_middle [of "render ?pre" "join_with ''/'' ?cov" "render post"] tx cov by simp
  then show ?thesis
    unfolding capture_def st Option.bind.simps Let_def e capture_mode_def [symmetric] by simp
qed

section \<open>Verbs of rendered paths\<close>

lemma last_slash_render:
  assumes "segs \<noteq> []" and "plain_segments segs" and "CHR ''/'' \<notin> set t"
  shows "last_index_byte CHR ''/'' (render segs @ t) = Some (length (render (butlast segs)))"
proof -
  have "render segs = render (butlast segs) @ CHR ''/'' # last segs"
    using assms(1) by (metis append_butlast_last_id append_Nil2 render_Cons render_Nil render_append)
  moreover have "CHR ''/'' \<notin> set (last segs @ t)"
    using assms by (simp add: plain_segments_def)
  ultimately show ?thesis
    using last_index_byte_append by simp
qed

lemma splitVerb_render:
  assumes "segs \<noteq> []" and "plain_segments segs" and "CHR '':'' \<notin> set (last segs)"
  shows "splitVerb (render segs) = (render segs, [])"
proof -
  have r: "render segs = render (butlast segs) @ CHR ''/'' # last segs"
    using assms(1) by (metis append_butlast_last_id append_Nil2 render_Cons render_Nil render_append)
  show ?thesis
    using last_slash_render [OF assms(1,2), of "[]"] assms(3) r by (simp add: splitVerb_def)
qed

lemma splitVerb_verb:
  assumes "segs \<noteq> []" and "plain_segments segs" and "CHR ''/'' \<notin> set v" and "CHR '':'' \<notin> set v"
  shows "splitVerb (render segs @ CHR '':'' # v) = (render segs, v)"
proof -
  let ?pre = "render (butlast segs)"
  have r: "render segs = ?pre @ CHR ''/'' # last segs"
    using assms(1) by (metis append_butlast_last_id append_Nil2 render_Cons render_Nil render_append)
  have "last_index_byte CHR ''/'' (render segs @ CHR '':'' # v) = Some (length ?pre)"
    using last_slash_render [OF assms(1,2), of "CHR '':'' # v"] assms(3) by simp
  moreover have "last_index_byte CHR '':'' (last segs @ CHR '':'' # v) = Some (length (last segs))"
    using assms(4) by (rule last_index_byte_append)
  ultimately show ?thesis
    using r by (simp add: splitVerb_def)
qed

lemma splitVerb_shape:
  assumes "splitVerb p = (path, verb)"
  shows "p = path @ CHR '':'' # verb \<and> CHR ''/'' \<notin> set verb \<and> CHR '':'' \<notin> set verb \<or>
         p = path \<and> verb = [] \<and>
         CHR '':'' \<notin> set (drop (case last_index_byte CHR ''/'' p of Some i \<Rightarrow> i + 1 | None \<Rightarrow> 0) p)"
proof -
  let ?l = "case last_index_byte CHR ''/'' p of Some i \<Rightarrow> i + 1 | None \<Rightarrow> 0"
  have noslash: "CHR ''/'' \<notin> set (drop ?l p)"
    using last_index_byte_Some [of "CHR ''/''" p] by (auto split: option.splits)
  show ?thesis
  proof (cases "last_index_byte CHR '':'' (drop ?l p)")
    case None
    then show ?thesis using assms by (simp add: splitVerb_def)
  next
    case (Some c)
    from last_index_byte_Some [OF Some]
    have c: "c < length (drop ?l p)" "drop ?l p ! c = CHR '':''" "CHR '':'' \<notin> set (drop (Suc c) (drop ?l p))"
      by simp_all
    have "drop ?l p = take c (drop ?l p) @ CHR '':'' # drop (Suc c) (drop ?l p)"
      using id_take_nth_drop [OF c(1)] c(2) by simp
    then have "p = take ?l p @ take c (drop ?l p) @ CHR '':'' # drop (Suc c) (drop ?l p)"
      by (metis append_take_drop_id)
    then have "p = take (?l + c) p @ CHR '':'' # drop (Suc c) (drop ?l p)"
      by (simp only: take_add append_assoc)
    then have "p = take (?l + c) p @ CHR '':'' # drop (?l + c + 1) p"
      by (simp add: add.commute)
    moreover have "path = take (?l + c) p" "verb = drop (?l + c + 1) p"
      using assms Some by (simp_all add: splitVerb_def Let_def)
    moreover have "CHR ''/'' \<notin> set (drop (Suc c) (drop ?l p))"
      using noslash by (meson in_set_dropD)
    ultimately show ?thesis
      using c(3) by (simp add: add.commute)
  qed
qed

section \<open>What makeTarget builds\<close>

lemma bodyFields_Inr:
  assumes "bodyFields R msg body err = Inr fs"
  shows "(fs = None) = (body = [])" and "(fs = Some []) = (body = ''*'')"
    and "fs = Some (f # gs) \<Longrightarrow> gs = [] \<and> resolvePathToFieldDescriptors R msg body False = Inr [f]"
proof -
  have *: "fs = None \<and> body = [] \<or> fs = Some [] \<and> body = ''*'' \<or>
      (\<exists>f. fs = Some [f] \<and> body \<noteq> [] \<and> body \<noteq> ''*'' \<and>
        resolvePathToFieldDescriptors R msg body False = Inr [f])"
  proof (cases "body = ''*'' \<or> body = []")
    case True
    then show ?thesis using assms by (auto simp: bodyFields_def)
  next
    case False
    then obtain gs where gs: "resolvePathToFieldDescriptors R msg body False = Inr gs"
        "fs = Some gs" "length gs \<le> 1"
      using assms by (auto simp: bodyFields_def split: sum.splits if_splits)
    then have "gs \<noteq> []"
      using resolve_walkable [OF gs(1)] by (simp add: walkable_def)
    then obtain f where "gs = [f]"
      using gs(3) by (cases gs) auto
    then show ?thesis using gs False by simp
  qed
  then show "(fs = None) = (body = [])" and "(fs = Some []) = (body = ''*'')"
    and "fs = Some (f # gs) \<Longrightarrow> gs = [] \<and> resolvePathToFieldDescriptors R msg body False = Inr [f]"
    by auto
qed

lemma truncate_extend: "pathVariable.truncate (pathVariable.extend v \<lparr>flds = fs\<rparr>) = (v :: pathVariable)"
  by (simp add: pathVariable.defs)

lemma flds_extend: "flds (pathVariable.extend v \<lparr>flds = fs\<rparr>) = fs"
  and fieldPath_extend: "fieldPath (pathVariable.extend v \<lparr>flds = fs\<rparr>) = fieldPath v"
  by (simp_all add: pathVariable.defs)

lemma targetVars_Inr:
  "targetVars R msg vs = Inr rtv \<Longrightarrow>
   map pathVariable.truncate rtv = vs \<and>
   (\<forall>v \<in> set rtv. resolvePathToFieldDescriptors R msg (fieldPath v) False = Inr (flds v) \<and>
      walkable R (flds v) \<and> \<not> IsList R (last (flds v)))"
proof (induction vs arbitrary: rtv)
  case (Cons v vs)
  from Cons.prems obtain fs rest where
    fs: "resolvePathToFieldDescriptors R msg (fieldPath v) False = Inr fs" "\<not> IsList R (last fs)"
    and rest: "targetVars R msg vs = Inr rest" "rtv = pathVariable.extend v \<lparr>flds = fs\<rparr> # rest"
    by (auto split: sum.splits if_splits)
  show ?case
    using Cons.IH [OF rest(1)] fs resolve_walkable [OF fs(1)] rest(2)
    by (simp add: truncate_extend flds_extend fieldPath_extend)
qed simp

definition stream_supported ::
  "('mtd, 'msg, 'fld) reflect \<Rightarrow> ('mtd, 'typ, 'fld) routeTarget \<Rightarrow> bool"
where
  "stream_supported R t =
     (let m = target_method t in
      case streamType (spec m) of
        StreamTypeUnary \<Rightarrow> True
      | StreamTypeClient \<Rightarrow> isHTTPBodyRequest R t (Input R (descriptor m))
      | StreamTypeServer \<Rightarrow> isHTTPBodyResponse R t (Output R (descriptor m))
      | StreamTypeBidi \<Rightarrow> False)"

lemma checkStreamType_None: "checkStreamType R t = None \<longleftrightarrow> stream_supported R t"
  by (simp add: checkStreamType_def stream_supported_def Let_def split: StreamType.splits)

lemma stream_supported_update [simp]:
  "stream_supported R (t\<lparr>unsupported := u\<rparr>) = stream_supported R t"
  by (simp add: stream_supported_def isHTTPBodyRequest_def isHTTPBodyResponse_def cong: StreamType.case_cong)

lemma makeTarget_cases:
  assumes "makeTarget R m hm rb rsb tmpl vs = Inr t"
  obtains req resp rtv where
    "bodyFields R (Input R (descriptor m)) rb (RequestBodyNotSingle rb) = Inr req"
    "bodyFields R (Output R (descriptor m)) rsb (ResponseBodyNotSingle rb) = Inr resp"
    "targetVars R (Input R (descriptor m)) vs = Inr rtv"
    "requestBodyFields t = req" "responseBodyFields t = resp" "vars t = rtv"
    "target_method t = m" "httpMethod t = hm" "template t = tmpl"
    "requestBodyFieldPath t = rb" "responseBodyFieldPath t = rsb"
    "unsupported t = None \<longleftrightarrow> stream_supported R t"
proof -
  obtain req where req: "bodyFields R (Input R (descriptor m)) rb (RequestBodyNotSingle rb) = Inr req"
    using assms by (cases "bodyFields R (Input R (descriptor m)) rb (RequestBodyNotSingle rb)")
      (simp_all add: makeTarget_def)
  obtain resp where resp: "bodyFields R (Output R (descriptor m)) rsb (ResponseBodyNotSingle rb) = Inr resp"
    using assms req by (cases "bodyFields R (Output R (descriptor m)) rsb (ResponseBodyNotSingle rb)")
      (simp_all add: makeTarget_def)
  obtain rtv where rtv: "targetVars R (Input R (descriptor m)) vs = Inr rtv"
    using assms req resp by (cases "targetVars R (Input R (descriptor m)) vs")
      (simp_all add: makeTarget_def)
  define t0 where "t0 = \<lparr>target_method = m, httpMethod = hm, template = tmpl, pattern = [],
      requestBodyFieldPath = rb, requestBodyFields = req, responseBodyFieldPath = rsb,
      responseBodyFields = resp, vars = rtv, unsupported = None\<rparr>"
  have t: "t = t0\<lparr>unsupported := checkStreamType R t0\<rparr>"
    using assms req resp rtv by (simp add: makeTarget_def t0_def Let_def)
  show thesis
    by (rule that [OF req resp rtv]) (simp_all add: t checkStreamType_None, simp_all add: t0_def)
qed

section \<open>A sample method\<close>

definition sample_method :: "string \<Rightarrow> StreamType \<Rightarrow> (string, unit) methodRecord" where
  "sample_method name st =
     \<lparr>spec = \<lparr>Procedure = ''/library.Library/'' @ name, streamType = st, Schema = Some name\<rparr>,
      descriptor = name, requestT = (), responseT = ()\<rparr>"

section \<open>Properties\<close>


definition sample_target :: "(string, unit, string) routeTarget" where
  "sample_target =
     \<lparr>target_method = sample_method ''GetBook'' StreamTypeUnary, httpMethod = ''GET'',
      template = ''/v1/*/*'', pattern = [], requestBodyFieldPath = [], requestBodyFields = None,
      responseBodyFieldPath = [], responseBodyFields = None,
      vars = [\<lparr>fieldPath = ''shelf.id'', vstart = 1, vend = 2, flds = [''shelf'', ''id'']\<rparr>,
              \<lparr>fieldPath = ''name'', vstart = 2, vend = 3, flds = [''name'']\<rparr>],
      unsupported = None\<rparr>"

lemma makeTarget_sample:
  "makeTarget sample (sample_method ''GetBook'' StreamTypeUnary) ''GET'' [] [] ''/v1/*/*''
     [\<lparr>fieldPath = ''shelf.id'', vstart = 1, vend = 2\<rparr>, \<lparr>fieldPath = ''name'', vstart = 2, vend = 3\<rparr>] =
   Inr sample_target"
  by code_simp


text \<open>A resolved field path can be read back and walked: the names of its fields, joined with
  dots, are the path itself or the path without a trailing dot (which the code accepts), and
  walking a message along them gives no error, with a leaf field exactly when the last field
  is not a singular message.\<close>

theorem resolved_path:
  assumes "resolvePathToFieldDescriptors R msg path False = Inr fs" and "lawful_names R"
  shows "(path = resolveFieldDescriptorsToPath R fs False \<or>
      path = resolveFieldDescriptorsToPath R fs False @ ''.'') \<and>
    walkBodyFields R fs root acc =
      (if Message R (last fs) \<noteq> None \<and> \<not> Repeated R (last fs)
       then Inr (foldl acc root fs, None)
       else Inr (foldl acc root (butlast fs), Some (last fs)))"
  by (rule conjI [OF resolve_names [OF assms] walkBodyFields_walkable [OF resolve_walkable [OF assms(1)]]])

theorem resolved_path_witness:
  "walkBodyFields sample [''shelf'', ''id''] (0::nat) (\<lambda>v f. v + length f) = Inr (5, Some ''id'')"
proof -
  have "resolvePathToFieldDescriptors sample ''GetBook'' ''shelf.id.'' False = Inr [''shelf'', ''id'']"
    by code_simp
  from resolved_path [OF this sample_lawful, of "0::nat" "\<lambda>v f. v + length f"]
  show ?thesis by (simp add: sample_def)
qed

end
