(* ===== verification/RouteTrie.thy ===== *)
theory RouteTrie
  imports RouteTarget "HOL-Library.AList"
begin

text \<open>
  The prefix trie of route templates: lines 32 to 222 of \<open>router.go\<close>.  The children and the
  verbs of a node are Go maps from strings, here functions to \<open>option\<close>; the methods of a
  verb, whose keys the dispatcher lists in the \<open>Allow\<close> header, are an association list.
  Insertion updates the trie in place in the source and returns the new trie here.
\<close>

section \<open>The trie and its operations\<close>

type_synonym 't routeMethods = "(string \<times> 't) list"

datatype 't routeTrie =
  RouteTrie (children: "string \<Rightarrow> 't routeTrie option") (verbs: "string \<Rightarrow> 't routeMethods option")

definition emptyTrie :: "'t routeTrie" where
  "emptyTrie = RouteTrie (\<lambda>_. None) (\<lambda>_. None)"

text \<open>The child for a segment, made when missing, and the methods of a verb, made when missing.\<close>

definition insertChild :: "'t routeTrie \<Rightarrow> string \<Rightarrow> 't routeTrie" where
  "insertChild t segment = (case children t segment of Some child \<Rightarrow> child | None \<Rightarrow> emptyTrie)"

definition insertVerb :: "'t routeTrie \<Rightarrow> string \<Rightarrow> 't routeMethods" where
  "insertVerb t verb = (case verbs t verb of Some methods \<Rightarrow> methods | None \<Rightarrow> [])"

text \<open>
  The loop of \<open>insert\<close> over the segments and what follows it at the last node: the target
  that is already there, if any, and the updated node.
\<close>

fun insertPath ::
  "string list \<Rightarrow> string \<Rightarrow> string \<Rightarrow> 't \<Rightarrow> 't routeTrie \<Rightarrow> 't option \<times> 't routeTrie"
where
  "insertPath [] verb m target cursor =
     (case map_of (insertVerb cursor verb) m of
        Some existing \<Rightarrow> (Some existing, cursor)
      | None \<Rightarrow>
          (None, RouteTrie (children cursor)
             ((verbs cursor)(verb \<mapsto> AList.update m target (insertVerb cursor verb)))))"
| "insertPath (segment # segs) verb m target cursor =
     (let (existing, child) = insertPath segs verb m target (insertChild cursor segment)
      in (existing, RouteTrie ((children cursor)(segment \<mapsto> child)) (verbs cursor)))"

record 't alreadyExistsError =
  existing :: 't
  pathPattern :: string
  err_method :: string

text \<open>
  \<open>path[1:]\<close>: a template starts with a slash and so does its path (lemma \<open>template_path\<close>).
\<close>

definition insert ::
  "string \<Rightarrow> ('mtd, 'typ, 'fld) routeTarget \<Rightarrow> ('mtd, 'typ, 'fld) routeTarget routeTrie \<Rightarrow>
   ('mtd, 'typ, 'fld) routeTarget alreadyExistsError option \<times> ('mtd, 'typ, 'fld) routeTarget routeTrie"
where
  "insert m target t =
     (let (path, verb) = splitVerb (template target) in
      case insertPath (split_on CHR ''/'' (drop 1 path)) verb m target t of
        (Some e, t') \<Rightarrow>
          (Some \<lparr>existing = e, pathPattern = template target, err_method = m\<rparr>, t')
      | (None, t') \<Rightarrow> (None, t'))"

section \<open>Lookup\<close>

definition getTarget :: "'t routeTrie \<Rightarrow> string \<Rightarrow> string \<Rightarrow> 't option \<times> 't routeMethods option" where
  "getTarget t verb m =
     (case verbs t verb of
        None \<Rightarrow> (None, None)
      | Some methods \<Rightarrow>
          (case map_of methods m of
             Some target \<Rightarrow> (Some target, Some methods)
           | None \<Rightarrow> (map_of methods ''*'', Some methods)))"

definition noMatch :: "'t option \<times> 't routeMethods option \<Rightarrow> bool" where
  "noMatch r \<longleftrightarrow> fst r = None \<and> snd r = None"

definition splitSegment :: "string \<Rightarrow> string \<times> string" where
  "splitSegment current =
     (case index_byte CHR ''/'' current of
        Some nxt \<Rightarrow> (take nxt current, drop nxt current)
      | None \<Rightarrow> (current, []))"

lemma splitSegment_shorter: "length (snd (splitSegment current)) \<le> length current"
  by (simp add: splitSegment_def split: option.splits)

function findTarget ::
  "'t routeTrie \<Rightarrow> string \<Rightarrow> string \<Rightarrow> string \<Rightarrow> 't option \<times> 't routeMethods option"
where
  "findTarget t path verb m =
     (if path = [] then getTarget t verb m
      else
        (let (current, rst) = splitSegment (drop 1 path);
             lit =
               (case canonicalSegment current of
                  None \<Rightarrow> (None, None)
                | Some literal \<Rightarrow>
                    (case children t literal of
                       None \<Rightarrow> (None, None)
                     | Some child \<Rightarrow> findTarget child rst verb m))
         in
         if \<not> noMatch lit then lit
         else
           (let ast =
              (case children t ''*'' of
                 None \<Rightarrow> (None, None)
               | Some childAst \<Rightarrow> findTarget childAst rst verb m)
            in
            if \<not> noMatch ast then ast
            else
              (case children t ''**'' of
                 Some childDblAst \<Rightarrow> findTarget childDblAst [] verb m
               | None \<Rightarrow> (None, None)))))"
  by pat_completeness auto
termination
proof (relation "measure (\<lambda>(_, path, _, _). length path)", goal_cases)
  case (2 t path verb m x current rst literal child)
  then show ?case
    using splitSegment_shorter [of "drop 1 path"]
    by (cases path) (auto simp: less_Suc_eq_le dest!: sym [where s = "(current, rst)"])
next
  case (3 t path verb m x current rst lit childAst)
  then show ?case
    using splitSegment_shorter [of "drop 1 path"]
    by (cases path) (auto simp: less_Suc_eq_le dest!: sym [where s = "(current, rst)"])
qed auto

declare findTarget.simps [simp del]

definition match :: "'t routeTrie \<Rightarrow> string \<Rightarrow> string \<Rightarrow> 't option \<times> 't routeMethods option" where
  "match t uriPath hmethod =
     (if \<not> has_prefix uriPath ''/'' \<or> has_suffix uriPath '':'' then (None, None)
      else
        (let (path, verb) = splitVerb uriPath;
             (target, methods) = findTarget t path verb hmethod
         in
         if target = None \<and> verb \<noteq> [] then
           (let (fallback, fallbackMethods) = findTarget t uriPath [] hmethod in
            if fallback \<noteq> None \<or> methods = None then (fallback, fallbackMethods)
            else (target, methods))
         else (target, methods)))"

section \<open>Adding a rule\<close>

datatype rulePattern =
    HttpRule_Get string
  | HttpRule_Put string
  | HttpRule_Post string
  | HttpRule_Delete string
  | HttpRule_Patch string
  | HttpRule_Custom string string
  | HttpRule_Unset

record httpRule =
  Selector :: string
  Pattern :: rulePattern
  Body :: string
  ResponseBody :: string

datatype ('mtd, 'typ, 'fld) routeError =
    InvalidPatternType
  | BlankMethod
  | BlankTemplate
  | TemplateError parseError
  | TargetError targetError
  | AlreadyExists "('mtd, 'typ, 'fld) routeTarget alreadyExistsError"

fun patternOf :: "rulePattern \<Rightarrow> (string \<times> string) option" where
  "patternOf (HttpRule_Get p) = Some (''GET'', p)"
| "patternOf (HttpRule_Put p) = Some (''PUT'', p)"
| "patternOf (HttpRule_Post p) = Some (''POST'', p)"
| "patternOf (HttpRule_Delete p) = Some (''DELETE'', p)"
| "patternOf (HttpRule_Patch p) = Some (''PATCH'', p)"
| "patternOf (HttpRule_Custom k p) = Some (k, p)"
| "patternOf HttpRule_Unset = None"

definition addRoute ::
  "('mtd, 'msg, 'fld) reflect \<Rightarrow> ('mtd, 'typ) methodRecord \<Rightarrow> ('z) httpRule_scheme \<Rightarrow>
   ('mtd, 'typ, 'fld) routeTarget routeTrie \<Rightarrow>
   (('mtd, 'typ, 'fld) routeError + ('mtd, 'typ, 'fld) routeTarget) \<times>
   ('mtd, 'typ, 'fld) routeTarget routeTrie"
where
  "addRoute R m rule t =
     (case patternOf (Pattern rule) of
        None \<Rightarrow> (Inl InvalidPatternType, t)
      | Some (hmethod, tmpl) \<Rightarrow>
          if hmethod = [] then (Inl BlankMethod, t)
          else if tmpl = [] then (Inl BlankTemplate, t)
          else
            (case parsePathTemplate tmpl of
               Inl e \<Rightarrow> (Inl (TemplateError e), t)
             | Inr (canonicalTmpl, pvars) \<Rightarrow>
                 (case makeTarget R m hmethod (Body rule) (ResponseBody rule) canonicalTmpl pvars of
                    Inl e \<Rightarrow> (Inl (TargetError e), t)
                  | Inr target \<Rightarrow>
                      (let target = target\<lparr>pattern := hmethod @ CHR '' '' # tmpl\<rparr> in
                       case insert hmethod target t of
                         (Some e, t') \<Rightarrow> (Inl (AlreadyExists e), t')
                       | (None, t') \<Rightarrow> (Inr target, t')))))"

end
