(* ===== verification/RouteSpec.thy ===== *)
theory RouteSpec
  imports RouteTrie "HOL-Library.List_Lexorder"
begin

text \<open>
  What the trie computes.  \<open>routes t p v\<close> is the content of the trie: the methods stored for
  the pattern \<open>p\<close> (a list of canonical segments) and the verb \<open>v\<close>.  \<open>candidates raws\<close> lists
  every pattern that matches the raw segments of a request path, most specific first; lookup
  is proved to take the first candidate that has routes.
\<close>

section \<open>The content of a trie\<close>

fun node :: "'t routeTrie \<Rightarrow> string list \<Rightarrow> 't routeTrie option" where
  "node t [] = Some t"
| "node t (s # p) = (case children t s of None \<Rightarrow> None | Some child \<Rightarrow> node child p)"

definition routes :: "'t routeTrie \<Rightarrow> string list \<Rightarrow> string \<Rightarrow> 't routeMethods option" where
  "routes t p v = (case node t p of None \<Rightarrow> None | Some n \<Rightarrow> verbs n v)"

definition route :: "'t routeTrie \<Rightarrow> string list \<times> string \<times> string \<Rightarrow> 't option" where
  "route t = (\<lambda>(p, v, m). case routes t p v of None \<Rightarrow> None | Some methods \<Rightarrow> map_of methods m)"

lemma routes_simps [simp]:
  "routes t [] v = verbs t v"
  "routes t (s # p) v = (case children t s of None \<Rightarrow> None | Some child \<Rightarrow> routes child p v)"
  by (simp_all add: routes_def split: option.splits)

lemma routes_empty [simp]: "routes emptyTrie p v = None"
  by (cases p) (simp_all add: emptyTrie_def)

lemma insertChild_routes: "routes (insertChild t s) p v = routes t (s # p) v"
  by (simp add: insertChild_def split: option.splits)

definition methods_of :: "'t routeTrie \<Rightarrow> string list \<Rightarrow> string \<Rightarrow> 't routeMethods" where
  "methods_of t p v = (case routes t p v of None \<Rightarrow> [] | Some methods \<Rightarrow> methods)"

lemma route_methods_of: "route t (p, v, m) = map_of (methods_of t p v) m"
  by (simp add: route_def methods_of_def split: option.splits)

lemma methods_of_insertChild: "methods_of (insertChild t s) p v = methods_of t (s # p) v"
  by (simp add: methods_of_def insertChild_routes)

lemma insertPath_result:
  "fst (insertPath p v m x t) = map_of (methods_of t p v) m"
proof (induction p arbitrary: t)
  case Nil
  then show ?case
    by (simp add: methods_of_def insertVerb_def split: option.splits)
next
  case (Cons s p)
  show ?case
    using Cons.IH [of "insertChild t s"]
    by (cases "insertPath p v m x (insertChild t s)") (simp add: methods_of_insertChild)
qed

text \<open>Insertion stores the target under its own key and changes nothing else.\<close>

lemma insertPath_routes:
  "routes (snd (insertPath p v m x t)) q w =
     (if fst (insertPath p v m x t) = None \<and> q = p \<and> w = v
      then Some (AList.update m x (methods_of t p v)) else routes t q w)"
proof (induction p arbitrary: t q)
  case Nil
  then show ?case
    by (cases q) (auto simp: methods_of_def insertVerb_def split: option.splits)
next
  case (Cons s p)
  obtain e child where r: "insertPath p v m x (insertChild t s) = (e, child)"
    by fastforce
  have ih: "routes child q w =
      (if e = None \<and> q = p \<and> w = v then Some (AList.update m x (methods_of t (s # p) v))
       else routes t (s # q) w)" for q
    using Cons.IH [of "insertChild t s" q] r by (simp add: methods_of_insertChild insertChild_routes)
  show ?case
  proof (cases q)
    case Nil
    then show ?thesis using r by simp
  next
    case (Cons s' q')
    then show ?thesis
      using r ih [of q'] by (cases "s' = s") simp_all
  qed
qed

lemma insertPath_exists:
  "map_of (methods_of t p v) m = Some e \<Longrightarrow>
   insertPath p v m x t = (Some e, t)"
proof (induction p arbitrary: t)
  case Nil
  then show ?case
    by (cases "verbs t v") (simp_all add: methods_of_def insertVerb_def)
next
  case (Cons s p)
  then have "children t s \<noteq> None"
    by (cases "children t s") (simp_all add: methods_of_def)
  then obtain child where child: "children t s = Some child"
    by auto
  then have "insertPath p v m x child = (Some e, child)"
    using Cons by (simp add: methods_of_def)
  then show ?case
    using child by (cases t) (simp add: insertChild_def fun_upd_idem)
qed

section \<open>The matching patterns of a path\<close>

fun candidates :: "string list \<Rightarrow> string list list" where
  "candidates [] = [[]]"
| "candidates (raw # raws) =
     (case canonicalSegment raw of
        None \<Rightarrow> []
      | Some literal \<Rightarrow> map ((#) literal) (candidates raws)) @
     map ((#) ''*'') (candidates raws) @ [[''**'']]"

fun pat_matches :: "string list \<Rightarrow> string list \<Rightarrow> bool" where
  "pat_matches [] raws = (raws = [])"
| "pat_matches (s # p) [] = False"
| "pat_matches (s # p) (raw # raws) =
     (s = ''**'' \<and> p = [] \<or> (s = ''*'' \<or> canonicalSegment raw = Some s) \<and> pat_matches p raws)"

lemma candidates_iff: "p \<in> set (candidates raws) \<longleftrightarrow> pat_matches p raws"
proof (induction raws arbitrary: p)
  case Nil
  then show ?case by (cases p) simp_all
next
  case (Cons raw raws)
  then show ?case
    by (cases p) (auto split: option.splits)
qed

definition pick :: "'t routeMethods \<Rightarrow> string \<Rightarrow> 't option" where
  "pick methods m = (case map_of methods m of Some target \<Rightarrow> Some target | None \<Rightarrow> map_of methods ''*'')"

definition answer :: "'t routeTrie \<Rightarrow> string \<Rightarrow> string \<Rightarrow> string list option \<Rightarrow>
    't option \<times> 't routeMethods option" where
  "answer t v m po =
     (case po of
        None \<Rightarrow> (None, None)
      | Some p \<Rightarrow> (pick (methods_of t p v) m, Some (methods_of t p v)))"

definition best :: "'t routeTrie \<Rightarrow> string \<Rightarrow> string list \<Rightarrow> string list option" where
  "best t v raws = find (\<lambda>p. routes t p v \<noteq> None) (candidates raws)"

lemma find_append: "find P (xs @ ys) = (case find P xs of None \<Rightarrow> find P ys | Some x \<Rightarrow> Some x)"
  by (induction xs) auto

lemma find_map: "find P (map f xs) = map_option f (find (P \<circ> f) xs)"
  by (induction xs) auto

lemma find_false: "find (\<lambda>x. False) xs = None"
  by (induction xs) auto

lemma getTarget_answer:
  "getTarget t v m = answer t v m (if verbs t v = None then None else Some [])"
  by (simp add: getTarget_def answer_def pick_def methods_of_def split: option.splits)

lemma noMatch_answer [simp]: "noMatch (answer t v m po) \<longleftrightarrow> po = None"
  by (simp add: noMatch_def answer_def split: option.splits)

lemma answer_child:
  "children t s = Some child \<Longrightarrow> answer child v m po = answer t v m (map_option ((#) s) po)"
  by (simp add: answer_def methods_of_def split: option.splits)

lemma best_child:
  "children t s = Some child \<Longrightarrow>
   find (\<lambda>p. routes t p v \<noteq> None) (map ((#) s) (candidates raws)) = map_option ((#) s) (best child v raws)"
  by (simp add: find_map best_def comp_def)

lemma best_no_child:
  "children t s = None \<Longrightarrow> find (\<lambda>p. routes t p v \<noteq> None) (map ((#) s) ps) = None"
  by (induction ps) simp_all

lemma splitSegment_render:
  "CHR ''/'' \<notin> set raw \<Longrightarrow> splitSegment (raw @ render raws) = (raw, render raws)"
  by (simp add: splitSegment_def index_byte_segment)

text \<open>One step of the search, for the three kinds of children.\<close>

lemma branch:
  assumes "\<And>child. children t s = Some child \<Longrightarrow> f child = answer child v m (best child v raws)"
  shows "(case children t s of None \<Rightarrow> (None, None) | Some child \<Rightarrow> f child) =
     answer t v m (find (\<lambda>p. routes t p v \<noteq> None) (map ((#) s) (candidates raws)))"
proof (cases "children t s")
  case None
  then show ?thesis by (simp add: best_no_child [OF None] answer_def del: not_None_eq)
next
  case (Some child)
  then show ?thesis
    using assms best_child answer_child by (metis option.simps(5))
qed

lemma findTarget_best:
  "plain_segments raws \<Longrightarrow> findTarget t (render raws) v m = answer t v m (best t v raws)"
proof (induction raws arbitrary: t)
  case Nil
  then show ?case
    by (simp add: findTarget.simps [of t "[]"] getTarget_answer best_def)
next
  case (Cons raw raws)
  let ?F = "find (\<lambda>p. routes t p v \<noteq> None)"
  let ?lits = "case canonicalSegment raw of None \<Rightarrow> [] | Some l \<Rightarrow> map ((#) l) (candidates raws)"
  let ?stars = "map ((#) ''*'') (candidates raws)"
  note IH = Cons.IH
  have raws: "plain_segments raws" and seg: "splitSegment (drop 1 (render (raw # raws))) = (raw, render raws)"
    using Cons.prems by (simp_all add: splitSegment_render)
  have lit: "(case canonicalSegment raw of None \<Rightarrow> (None, None)
      | Some literal \<Rightarrow> (case children t literal of None \<Rightarrow> (None, None)
          | Some child \<Rightarrow> findTarget child (render raws) v m)) = answer t v m (?F ?lits)"
    using branch [where t = t and f = "\<lambda>c. findTarget c (render raws) v m", OF IH [OF raws]]
    by (cases "canonicalSegment raw") (simp_all add: answer_def)
  have ast: "(case children t ''*'' of None \<Rightarrow> (None, None)
      | Some child \<Rightarrow> findTarget child (render raws) v m) = answer t v m (?F ?stars)"
    by (rule branch) (rule IH [OF raws])
  have dbl: "(case children t ''**'' of Some child \<Rightarrow> findTarget child [] v m
      | None \<Rightarrow> (None, None)) = answer t v m (?F [[''**'']])"
    by (simp add: findTarget.simps [of _ "[]"] getTarget_answer answer_def methods_of_def
        split: option.splits)
  have "findTarget t (render (raw # raws)) v m =
      (if ?F ?lits \<noteq> None then answer t v m (?F ?lits)
       else if ?F ?stars \<noteq> None then answer t v m (?F ?stars)
       else answer t v m (?F [[''**'']]))"
    unfolding findTarget.simps [of t "render (raw # raws)"] seg
    by (simp only: lit ast dbl Let_def prod.case noMatch_answer) simp
  also have "\<dots> = answer t v m (best t v (raw # raws))"
    unfolding best_def candidates.simps find_append by (simp split: option.splits)
  finally show ?case .
qed


section \<open>Precedence\<close>

text \<open>
  The order of the candidates: patterns are compared segment by segment, a literal before a
  star before a double star.
\<close>

datatype specificity = Exact | OneSegment | AllSegments

instantiation specificity :: linorder
begin

definition less_eq_specificity :: "specificity \<Rightarrow> specificity \<Rightarrow> bool" where
  "less_eq_specificity a b \<longleftrightarrow> a = Exact \<or> b = AllSegments \<or> a = b"

definition less_specificity :: "specificity \<Rightarrow> specificity \<Rightarrow> bool" where
  "less_specificity a b \<longleftrightarrow> a \<le> b \<and> a \<noteq> b"

instance
proof
  fix a b c :: specificity
  show "a \<le> b \<Longrightarrow> b \<le> c \<Longrightarrow> a \<le> c"
    by (cases a; cases b; cases c) (simp_all add: less_eq_specificity_def)
  show "a \<le> b \<or> b \<le> a" and "a \<le> b \<Longrightarrow> b \<le> a \<Longrightarrow> a = b"
    by (cases a; cases b; simp add: less_eq_specificity_def)+
  show "a < b \<longleftrightarrow> a \<le> b \<and> \<not> b \<le> a" and "a \<le> a"
    by (cases a; cases b; simp add: less_eq_specificity_def less_specificity_def)+
qed

end

definition rank :: "string \<Rightarrow> specificity" where
  "rank s = (if s = ''*'' then OneSegment else if s = ''**'' then AllSegments else Exact)"

definition more_specific :: "string list \<Rightarrow> string list \<Rightarrow> bool" where
  "more_specific p q \<longleftrightarrow> map rank p < map rank q"

lemma rank_literal: "canonicalSegment raw = Some l \<Longrightarrow> rank l = Exact"
  using canonicalSegment_Some [of raw l] canonical_special [of l] by (auto simp: rank_def)

lemma rank_less [simp]: "Exact < OneSegment" "Exact < AllSegments" "OneSegment < AllSegments"
  by (simp_all add: less_specificity_def less_eq_specificity_def)

lemma more_specific_Cons [simp]:
  "more_specific (s # p) (s' # q) \<longleftrightarrow> rank s < rank s' \<or> rank s = rank s' \<and> more_specific p q"
  by (simp add: more_specific_def)

lemma candidates_sorted: "sorted_wrt more_specific (candidates raws)"
proof (induction raws)
  case (Cons raw raws)
  have tl: "sorted_wrt more_specific (map ((#) s) (candidates raws))" for s
    using Cons.IH by (simp add: sorted_wrt_map)
  have ranks: "rank ''*'' = OneSegment" "rank ''**'' = AllSegments"
    by (simp_all add: rank_def)
  show ?case
  proof (cases "canonicalSegment raw")
    case None
    then show ?thesis
      using tl [of "''*''"] ranks by (auto simp: sorted_wrt_append)
  next
    case (Some l)
    then show ?thesis
      using tl [of "''*''"] tl [of l] ranks rank_literal [OF Some] by (auto simp: sorted_wrt_append)
  qed
qed simp

lemma find_sorted:
  "sorted_wrt r xs \<Longrightarrow> find P xs = Some x \<Longrightarrow>
   x \<in> set xs \<and> P x \<and> (\<forall>y \<in> set xs. P y \<longrightarrow> y = x \<or> r x y)"
  by (induction xs) (auto split: if_splits)

lemma best_Some:
  assumes "best t v raws = Some p"
  shows "pat_matches p raws" and "routes t p v \<noteq> None"
    and "pat_matches q raws \<Longrightarrow> routes t q v \<noteq> None \<Longrightarrow> q = p \<or> more_specific p q"
  using find_sorted [OF candidates_sorted assms [unfolded best_def]] candidates_iff by blast+

lemma best_None: "best t v raws = None \<longleftrightarrow> (\<forall>q. pat_matches q raws \<longrightarrow> routes t q v = None)"
  by (auto simp: best_def find_None_iff candidates_iff)

section \<open>Routing tables\<close>

text \<open>
  What the code that adds rules relies on: a table that maps a pattern, a verb and a method
  to a target, where inserting under a free key adds exactly that entry, and inserting under
  a key in use reports the entry and changes nothing.  \<open>insert_all\<close> adds a list of routes and
  stops at the first conflict, as the callers of \<open>addRoute\<close> do.
\<close>

fun insert_all :: "('k \<Rightarrow> 'x \<Rightarrow> 'tab \<Rightarrow> 'x option \<times> 'tab) \<Rightarrow> ('k \<times> 'x) list \<Rightarrow> 'tab \<Rightarrow> 'x option \<times> 'tab"
where
  "insert_all ins [] t = (None, t)"
| "insert_all ins ((k, x) # kxs) t =
     (case ins k x t of
        (Some e, t') \<Rightarrow> (Some e, t')
      | (None, t') \<Rightarrow> insert_all ins kxs t')"

locale route_table =
  fixes empty :: 'tab
    and look :: "'tab \<Rightarrow> 'k \<Rightarrow> 'x option"
    and ins :: "'k \<Rightarrow> 'x \<Rightarrow> 'tab \<Rightarrow> 'x option \<times> 'tab"
  assumes look_empty: "look empty k = None"
    and ins_used: "look t k = Some e \<Longrightarrow> ins k x t = (Some e, t)"
    and ins_free: "look t k = None \<Longrightarrow> fst (ins k x t) = None \<and> look (snd (ins k x t)) = (look t)(k \<mapsto> x)"
begin

lemma ins_result: "fst (ins k x t) = look t k"
  using ins_used ins_free by (cases "look t k") auto

lemma ins_keeps: "look t k' = Some e \<Longrightarrow> look (snd (ins k x t)) k' = Some e"
  using ins_used [of t k] ins_free [of t k x] by (cases "look t k") auto

lemma insert_all_keeps: "look t k = Some e \<Longrightarrow> look (snd (insert_all ins kxs t)) k = Some e"
proof (induction kxs arbitrary: t)
  case (Cons kx kxs)
  obtain k' x where [simp]: "kx = (k', x)" by fastforce
  obtain r t' where i: "ins k' x t = (r, t')" by fastforce
  have "look t' k = Some e"
    using ins_keeps [OF Cons.prems, of k' x] i by simp
  then show ?case
    using Cons.IH i by (cases r) simp_all
qed simp

text \<open>All routes are added exactly when no key is used twice or in use already.\<close>

lemma insert_all_ok:
  "fst (insert_all ins kxs t) = None \<longleftrightarrow>
     distinct (map fst kxs) \<and> (\<forall>k \<in> fst ` set kxs. look t k = None)"
proof (induction kxs arbitrary: t)
  case (Cons kx kxs)
  obtain k x where [simp]: "kx = (k, x)" by fastforce
  obtain r t' where i: "ins k x t = (r, t')" by fastforce
  show ?case
  proof (cases r)
    case None
    then have "look t k = None" "look t' = (look t)(k \<mapsto> x)"
      using ins_result [of k x t] ins_free [of t k x] i by simp_all
    then show ?thesis
      using Cons.IH [of t'] i None by (auto split: if_splits)
  next
    case (Some e)
    then have "look t k = Some e"
      using ins_result [of k x t] i by simp
    then show ?thesis using i Some by simp
  qed
qed simp

lemma insert_all_look:
  "fst (insert_all ins kxs t) = None \<Longrightarrow>
   look (snd (insert_all ins kxs t)) k = (case map_of kxs k of Some x \<Rightarrow> Some x | None \<Rightarrow> look t k)"
proof (induction kxs arbitrary: t)
  case (Cons kx kxs)
  obtain k' x where [simp]: "kx = (k', x)" by fastforce
  obtain r t' where i: "ins k' x t = (r, t')" by fastforce
  then have r: "r = None" "fst (insert_all ins kxs t') = None"
    using Cons.prems by (cases r; simp)+
  then have t': "look t' = (look t)(k' \<mapsto> x)"
    using ins_result [of k' x t] ins_free [of t k' x] i by simp
  have "k' \<notin> fst ` set kxs"
    using r(2) t' by (auto simp: insert_all_ok)
  then have "map_of kxs k' = None"
    by (simp add: map_of_eq_None_iff)
  then show ?case
    using Cons.IH [OF r(2)] i r(1) t' by (cases "k = k'") (simp_all split: option.splits)
qed simp

text \<open>So the order in which routes are added does not matter.\<close>

lemma insert_all_order:
  assumes "set kxs = set kys" and "distinct (map fst kxs)" and "distinct (map fst kys)"
  shows "(fst (insert_all ins kxs t) = None) = (fst (insert_all ins kys t) = None)"
    and "fst (insert_all ins kxs t) = None \<Longrightarrow>
      look (snd (insert_all ins kxs t)) = look (snd (insert_all ins kys t))"
proof -
  show same: "(fst (insert_all ins kxs t) = None) = (fst (insert_all ins kys t) = None)"
    using assms by (simp add: insert_all_ok)
  have "map_of kxs = map_of kys"
    using assms by (metis map_of_eqI map_of_inject_set set_map)
  then show "fst (insert_all ins kxs t) = None \<Longrightarrow>
      look (snd (insert_all ins kxs t)) = look (snd (insert_all ins kys t))"
    using same by (auto simp: insert_all_look)
qed

end

definition trie_insert :: "string list \<times> string \<times> string \<Rightarrow> 't \<Rightarrow> 't routeTrie \<Rightarrow> 't option \<times> 't routeTrie"
where
  "trie_insert = (\<lambda>(p, v, m) x t. insertPath p v m x t)"

interpretation trie: route_table emptyTrie route trie_insert
proof
  show "route emptyTrie k = None" for k
    by (cases k) (simp add: route_def)
  show "trie_insert k x t = (Some e, t)" if "route t k = Some e" for t :: "'t routeTrie" and k e x
    using that insertPath_exists by (cases k) (simp add: trie_insert_def route_methods_of)
  show "fst (trie_insert k x t) = None \<and> route (snd (trie_insert k x t)) = (route t)(k \<mapsto> x)"
    if "route t k = None" for t :: "'t routeTrie" and k x
  proof -
    obtain p v m where k: "k = (p, v, m)" by (cases k)
    have free: "fst (insertPath p v m x t) = None"
      using that insertPath_result [of p v m x t] by (simp add: k route_methods_of)
    moreover have "route (snd (insertPath p v m x t)) k' = ((route t)(k \<mapsto> x)) k'" for k'
    proof -
      obtain q w n where k': "k' = (q, w, n)" by (cases k')
      show ?thesis
        using insertPath_routes [of p v m x t q w] free
        by (auto simp: k k' route_methods_of methods_of_def update_conv' split: option.splits if_splits)
    qed
    ultimately show ?thesis
      by (auto simp: trie_insert_def k)
  qed
qed

end
