(* ===== verification/Router.thy ===== *)
theory Router
  imports RouteSpec
begin

text \<open>
  The routing table that \<open>addRoute\<close> builds and what \<open>match\<close> promises about it: an invariant
  of every table reachable from the empty trie, and its consequences for a matched request.
\<close>

section \<open>Templates as keys\<close>

definition verb_opt :: "string \<Rightarrow> string option" where
  "verb_opt v = (if v = [] then None else Some v)"

definition key_of :: "string \<Rightarrow> string \<Rightarrow> string list \<times> string \<times> string" where
  "key_of m tmpl = (let (path, verb) = splitVerb tmpl in (split_on CHR ''/'' (drop 1 path), verb, m))"

lemma insert_trie:
  "insert m target t =
     (case trie_insert (key_of m (template target)) target t of
        (e, t') \<Rightarrow>
          (map_option (\<lambda>x. \<lparr>existing = x, pathPattern = template target, err_method = m\<rparr>) e, t'))"
  by (auto simp: insert_def trie_insert_def key_of_def split: prod.splits option.splits)

lemma wf_pattern_segment:
  "wf_pattern segs \<Longrightarrow> s \<in> set segs \<Longrightarrow> CHR ''/'' \<notin> set s \<and> CHR '':'' \<notin> set s"
proof -
  assume "wf_pattern segs" "s \<in> set segs"
  then consider "s = ''*''" | "s = ''**''" | "canonical s"
    unfolding wf_pattern_def by blast
  then show ?thesis
    using canonical_special [of s] by cases simp_all
qed

lemma wf_pattern_plain: "wf_pattern segs \<Longrightarrow> plain_segments segs"
  using wf_pattern_segment by (simp add: plain_segments_def)

lemma wf_pattern_last: "wf_pattern segs \<Longrightarrow> CHR '':'' \<notin> set (last segs)"
  using wf_pattern_segment [of segs "last segs"] by (simp add: wf_pattern_def)

lemma template_path:
  assumes "wf_pattern segs" and "\<And>v. verb = Some v \<Longrightarrow> canonical v \<and> v \<noteq> []"
  shows "splitVerb (canonical_text segs verb) = (render segs, case verb of None \<Rightarrow> [] | Some v \<Rightarrow> v)"
proof (cases verb)
  case None
  then show ?thesis
    using splitVerb_render assms(1) wf_pattern_plain wf_pattern_last
    by (simp add: canonical_text_def wf_pattern_def)
next
  case (Some v)
  then show ?thesis
    using splitVerb_verb [of segs v] assms(2) [OF Some] canonical_special [of v]
      wf_pattern_plain [OF assms(1)] assms(1)
    by (simp add: canonical_text_def wf_pattern_def)
qed

lemma key_of_template:
  assumes "wf_pattern segs" and "\<And>v. verb = Some v \<Longrightarrow> canonical v \<and> v \<noteq> []"
  shows "key_of m (canonical_text segs verb) = (segs, case verb of None \<Rightarrow> [] | Some v \<Rightarrow> v, m)"
  using template_path [OF assms] assms(1) split_render [of segs] wf_pattern_plain [OF assms(1)]
  by (simp add: key_of_def wf_pattern_def)

section \<open>The invariant of the table\<close>

text \<open>What every stored target promises about the key it is stored under.\<close>

definition good_target ::
  "('mtd, 'msg, 'fld) reflect \<Rightarrow> string list \<times> string \<times> string \<Rightarrow>
   ('mtd, 'typ, 'fld) routeTarget \<Rightarrow> bool"
where
  "good_target R k target =
     (case k of (p, v, m) \<Rightarrow>
        wf_pattern p \<and> (v \<noteq> [] \<longrightarrow> canonical v) \<and>
        template target = canonical_text p (verb_opt v) \<and> httpMethod target = m \<and> m \<noteq> [] \<and>
        (\<forall>x \<in> set (vars target).
           wf_variable p (pathVariable.truncate x) \<and> walkable R (flds x) \<and> \<not> IsList R (last (flds x))))"

definition good_table ::
  "('mtd, 'msg, 'fld) reflect \<Rightarrow> ('mtd, 'typ, 'fld) routeTarget routeTrie \<Rightarrow> bool"
where
  "good_table R t \<longleftrightarrow> (\<forall>k target. route t k = Some target \<longrightarrow> good_target R k target)"

inductive reachable_table ::
  "('mtd, 'msg, 'fld) reflect \<Rightarrow> ('mtd, 'typ, 'fld) routeTarget routeTrie \<Rightarrow> bool"
  for R where
  start: "reachable_table R emptyTrie"
| add: "reachable_table R t \<Longrightarrow> reachable_table R (snd (addRoute R m (rule :: httpRule) t))"

lemma addRoute_cases:
  fixes rule :: "'z httpRule_scheme"
  assumes "addRoute R m rule t = (r, t')"
  obtains (error) e where "r = Inl e" and "t' = t"
    | (added) hm tmpl out vs target where
        "patternOf (Pattern rule) = Some (hm, tmpl)" and "hm \<noteq> []" and
        "parsePathTemplate tmpl = Inr (out, vs)" and
        "makeTarget R m hm (Body rule) (ResponseBody rule) out vs = Inr target" and
        "r = Inr (target\<lparr>pattern := hm @ CHR '' '' # tmpl\<rparr>)" and "route t (key_of hm out) = None" and
        "route t' = (route t)(key_of hm out \<mapsto> target\<lparr>pattern := hm @ CHR '' '' # tmpl\<rparr>)"
proof (cases "patternOf (Pattern rule)")
  case None
  then show thesis using assms error by (auto simp: addRoute_def)
next
  case (Some hmt)
  obtain hm tmpl where hmt: "hmt = (hm, tmpl)" by (cases hmt)
  note pat = Some [unfolded hmt]
  show thesis
  proof (cases "hm = [] \<or> tmpl = []")
    case True
    then show thesis using assms error pat by (auto simp: addRoute_def split: if_splits)
  next
    case nonempty: False
    show thesis
    proof (cases "parsePathTemplate tmpl")
      case (Inl e)
      then show thesis using assms error pat nonempty by (auto simp: addRoute_def)
    next
      case (Inr ov)
      obtain out vs where parse: "parsePathTemplate tmpl = Inr (out, vs)"
        using Inr by (cases ov) simp
      show thesis
      proof (cases "makeTarget R m hm (Body rule) (ResponseBody rule) out vs")
        case (Inl e)
        then show thesis using assms error pat nonempty parse by (auto simp: addRoute_def)
      next
        case target: (Inr target)
        let ?target = "target\<lparr>pattern := hm @ CHR '' '' # tmpl\<rparr>" and ?k = "key_of hm out"
        have tmpl: "template ?target = out"
          using target by (auto elim: makeTarget_cases)
        have red: "addRoute R m rule t =
            (case insert hm ?target t of
               (Some e, t') \<Rightarrow> (Inl (AlreadyExists e), t') | (None, t') \<Rightarrow> (Inr ?target, t'))"
          using pat nonempty parse target by (simp add: addRoute_def Let_def)
        show thesis
        proof (cases "route t ?k")
          case (Some e)
          then show thesis
            using trie.ins_used [OF Some, of ?target] red assms error
            by (simp add: insert_trie tmpl)
        next
          case None
          then show thesis
            using trie.ins_free [OF None, of ?target] red assms added [OF pat _ parse target _ None] nonempty
            by (auto simp: insert_trie tmpl split: prod.splits)
        qed
      qed
    qed
  qed
qed

lemma wf_variable_cong:
  "wf_variable p (pathVariable.truncate x) = wf_variable p y" if "pathVariable.truncate x = y"
  using that by simp

lemma good_target_pattern [simp]:
  "good_target R k (target\<lparr>pattern := s\<rparr>) = good_target R k target"
  by (simp add: good_target_def split: prod.splits)

lemma makeTarget_good:
  assumes "parsePathTemplate tmpl = Inr (out, vs)" and "hm \<noteq> []"
    and "makeTarget R m hm rb rsb out vs = Inr target"
  shows "good_target R (key_of hm out) target"
proof -
  obtain segs verb where p: "out = canonical_text segs verb" "wf_pattern segs"
    "\<And>v. verb = Some v \<Longrightarrow> canonical v \<and> v \<noteq> []" "\<And>v. v \<in> set vs \<Longrightarrow> wf_variable segs v"
    by (rule parsed_pattern [OF assms(1)], rule that)
  have key: "key_of hm out = (segs, case verb of None \<Rightarrow> [] | Some v \<Rightarrow> v, hm)"
    using key_of_template [OF p(2,3)] by (simp add: p(1))
  have opt: "verb_opt (case verb of None \<Rightarrow> [] | Some v \<Rightarrow> v) = verb"
    using p(3) by (cases verb) (auto simp: verb_opt_def)
  show ?thesis
  proof (rule makeTarget_cases [OF assms(3)], goal_cases)
    case (1 req resp rtv)
    note vs = targetVars_Inr [OF 1(3)]
    have "wf_variable segs (pathVariable.truncate x)" if "x \<in> set rtv" for x
      using p(4) vs that by force
    then show ?case
      using 1(6,8,9) vs key opt p assms(2)
      by (auto simp: good_target_def split: option.splits)
  qed
qed

lemma good_table_empty: "good_table R emptyTrie"
  by (simp add: good_table_def trie.look_empty)

lemma good_table_add:
  assumes "good_table R t" and "addRoute R m rule t = (r, t')"
  shows "good_table R t'"
  using assms(2)
proof (cases rule: addRoute_cases)
  case (error e)
  then show ?thesis using assms(1) by simp
next
  case (added hm tmpl out vs target)
  then show ?thesis
    using assms(1) makeTarget_good [OF added(3,2,4)] by (auto simp: good_table_def)
qed

lemma reachable_good: "reachable_table R t \<Longrightarrow> good_table R t"
proof (induction rule: reachable_table.induct)
  case start
  show ?case by (rule good_table_empty)
next
  case (add t m rule)
  then show ?case
    using good_table_add [of R t m rule] by (cases "addRoute R m rule t") auto
qed

section \<open>What a match promises\<close>

lemma pat_matches_length:
  "pat_matches p raws \<Longrightarrow> length p \<le> length raws"
  by (induction p raws rule: pat_matches.induct) (auto simp: Suc_le_eq)

lemma match_in_range:
  assumes "pat_matches p raws" and "wf_variable p (pathVariable.truncate v)"
  shows "in_range v (length raws)"
  using pat_matches_length [OF assms(1)] assms(2)
  by (auto simp: wf_variable_def in_range_def pathVariable.truncate_def split: if_splits)

lemma findTarget_path:
  assumes "has_prefix path ''/''"
  defines "raws \<equiv> split_on CHR ''/'' (drop 1 path)"
  shows "path = render raws" and "plain_segments raws" and "raws \<noteq> []"
    and "findTarget t path v m = answer t v m (best t v raws)"
proof -
  obtain s where "path = CHR ''/'' # s"
    using assms(1) by (auto simp: has_prefix_iff)
  then show *: "path = render raws" "plain_segments raws" "raws \<noteq> []"
    by (simp_all add: raws_def render_split)
  show "findTarget t path v m = answer t v m (best t v raws)"
    by (subst *(1)) (rule findTarget_best [OF *(2)])
qed

lemma answer_target:
  assumes "fst (answer t v m (best t v raws)) = Some target"
  obtains p m' where "pat_matches p raws" and "route t (p, v, m') = Some target" and "m' = m \<or> m' = ''*''"
proof -
  obtain p where p: "best t v raws = Some p" "pick (methods_of t p v) m = Some target"
    using assms by (auto simp: answer_def split: option.splits)
  then have "route t (p, v, m) = Some target \<or> route t (p, v, ''*'') = Some target"
    by (auto simp: pick_def route_methods_of split: option.splits)
  then show thesis
    using that best_Some(1) [OF p(1)] by blast
qed

lemma splitVerb_path_prefix:
  assumes "has_prefix uri ''/''" and "splitVerb uri = (path, verb)"
  shows "has_prefix path ''/''"
  using splitVerb_shape [OF assms(2)] assms(1)
  by (cases path) (auto simp: has_prefix_iff)

lemma match_eq:
  assumes "has_prefix uri ''/''" and "\<not> has_suffix uri '':''" and "splitVerb uri = (path, verb)"
  shows "match t uri hm =
    (if fst (findTarget t path verb hm) = None \<and> verb \<noteq> [] then
       if fst (findTarget t uri [] hm) \<noteq> None \<or> snd (findTarget t path verb hm) = None
       then findTarget t uri [] hm else findTarget t path verb hm
     else findTarget t path verb hm)"
  using assms by (cases "findTarget t path verb hm"; cases "findTarget t uri [] hm") (simp add: match_def)

lemma match_target:
  assumes "match t uri hm = (Some target, ms)"
  obtains raws p v m where "plain_segments raws" and "raws \<noteq> []" and "pat_matches p raws"
    and "route t (p, v, m) = Some target" and "m = hm \<or> m = ''*''"
    and "uri = render raws @ (if v = [] then [] else CHR '':'' # v)"
proof -
  obtain path verb where sv: "splitVerb uri = (path, verb)" by fastforce
  have pre: "has_prefix uri ''/''" "\<not> has_suffix uri '':''"
    using assms by (simp_all add: match_def split: if_splits)
  note path = findTarget_path [OF splitVerb_path_prefix [OF pre(1) sv]]
  note whole = findTarget_path [OF pre(1)]
  have "findTarget t path verb hm = (Some target, ms) \<or> findTarget t uri [] hm = (Some target, ms)"
    using assms unfolding match_eq [OF pre sv] by (auto split: if_splits)
  then consider (direct) "fst (findTarget t path verb hm) = Some target"
    | (fallback) "fst (findTarget t uri [] hm) = Some target"
    by auto
  then show thesis
  proof cases
    case direct
    have uri: "uri = path @ (if verb = [] then [] else CHR '':'' # verb)"
      using splitVerb_shape [OF sv] pre(2) by (auto simp: has_suffix_iff)
    obtain p m where "pat_matches p (split_on CHR ''/'' (drop 1 path))"
      "route t (p, verb, m) = Some target" "m = hm \<or> m = ''*''"
      using direct unfolding path(4) by (rule answer_target)
    then show thesis
      using that [OF path(2,3)] uri path(1) by simp
  next
    case fallback
    obtain p m where "pat_matches p (split_on CHR ''/'' (drop 1 uri))"
      "route t (p, [], m) = Some target" "m = hm \<or> m = ''*''"
      using fallback unfolding whole(4) by (rule answer_target)
    then show thesis
      using that [OF whole(2,3)] whole(1) by simp
  qed
qed

lemma good_target_split:
  assumes "good_target R (p, v, m) target"
  shows "splitVerb (template target) = (render p, v)"
proof -
  have *: "wf_pattern p" "template target = canonical_text p (verb_opt v)" "v \<noteq> [] \<Longrightarrow> canonical v"
    using assms by (simp_all add: good_target_def)
  have "canonical u \<and> u \<noteq> []" if "verb_opt v = Some u" for u
    using that *(3) by (simp add: verb_opt_def split: if_splits)
  from template_path [OF *(1) this] show ?thesis
    using *(2) by (simp add: verb_opt_def split: if_splits)
qed

lemma match_captures:
  assumes "good_table R t" and "match t uri hm = (Some target, ms)"
  shows "\<exists>raws. trimVerb target uri = Some (render raws) \<and> plain_segments raws \<and>
     (\<forall>x \<in> set (vars target). in_range x (length raws) \<and>
        capture x (render raws) =
          Some (pathUnescape (join_with ''/'' (covered x raws)) (capture_mode x)))"
proof (rule match_target [OF assms(2)])
  fix raws p v m
  assume *: "plain_segments raws" "raws \<noteq> []" "pat_matches p raws" "route t (p, v, m) = Some target"
    "m = hm \<or> m = ''*''" "uri = render raws @ (if v = [] then [] else CHR '':'' # v)"
  have good: "good_target R (p, v, m) target"
    using assms(1) *(4) by (simp add: good_table_def)
  then have "splitVerb (template target) = (render p, v)"
    by (rule good_target_split)
  then have trim: "trimVerb target uri = Some (render raws)"
    using *(6) by (simp add: trimVerb_def)
  have "in_range x (length raws)" if "x \<in> set (vars target)" for x
    using match_in_range [OF *(3), of x] good that by (simp add: good_target_def)
  then have "\<forall>x \<in> set (vars target). in_range x (length raws) \<and>
      capture x (render raws) = Some (pathUnescape (join_with ''/'' (covered x raws)) (capture_mode x))"
    using capture_render [OF *(1)] by blast
  then show ?thesis
    using trim *(1) by blast
qed

section \<open>When nothing matches\<close>

lemma noMatch_match:
  assumes "has_prefix uri ''/''" and "\<not> has_suffix uri '':''" and "splitVerb uri = (path, verb)"
  shows "noMatch (match t uri hm) \<longleftrightarrow>
     best t verb (split_on CHR ''/'' (drop 1 path)) = None \<and>
     (verb \<noteq> [] \<longrightarrow> best t [] (split_on CHR ''/'' (drop 1 uri)) = None)"
proof -
  let ?a = "best t verb (split_on CHR ''/'' (drop 1 path))"
  let ?b = "best t [] (split_on CHR ''/'' (drop 1 uri))"
  have a: "findTarget t path verb hm = answer t verb hm ?a"
    using findTarget_path(4) [OF splitVerb_path_prefix [OF assms(1,3)]] .
  have b: "findTarget t uri [] hm = answer t [] hm ?b"
    using findTarget_path(4) [OF assms(1)] .
  show ?thesis
    unfolding match_eq [OF assms] a b
    by (cases ?a; cases ?b) (auto simp: answer_def noMatch_def)
qed

text \<open>The two readings of a path: with the verb cut off, and as a whole.\<close>

lemma path_reading:
  assumes "splitVerb uri = (path, verb)"
    and "uri = render raws @ (if v = [] then [] else CHR '':'' # v)"
    and "plain_segments raws" and "raws \<noteq> []" and "CHR ''/'' \<notin> set v" and "CHR '':'' \<notin> set v"
  shows "v = verb \<and> (v \<noteq> [] \<longrightarrow> raws = split_on CHR ''/'' (drop 1 path)) \<or>
         v = [] \<and> raws = split_on CHR ''/'' (drop 1 uri)"
proof (cases "v = []")
  case True
  then show ?thesis
    using assms(2-4) split_render [of raws] by simp
next
  case False
  then have "splitVerb uri = (render raws, v)"
    using splitVerb_verb [OF assms(4,3,5,6)] assms(2) by simp
  then show ?thesis
    using assms(1) split_render [OF assms(4,3)] by simp
qed

lemma noMatch_iff:
  assumes pre: "has_prefix uri ''/''" "\<not> has_suffix uri '':''"
  shows "noMatch (match t uri hm) \<longleftrightarrow>
     (\<forall>p v raws. uri = render raws @ (if v = [] then [] else CHR '':'' # v) \<longrightarrow>
        plain_segments raws \<longrightarrow> raws \<noteq> [] \<longrightarrow> CHR ''/'' \<notin> set v \<longrightarrow> CHR '':'' \<notin> set v \<longrightarrow>
        pat_matches p raws \<longrightarrow> routes t p v = None)"
proof -
  obtain path verb where sv: "splitVerb uri = (path, verb)" by fastforce
  let ?path = "split_on CHR ''/'' (drop 1 path)" and ?uri = "split_on CHR ''/'' (drop 1 uri)"
  note path = findTarget_path [OF splitVerb_path_prefix [OF pre(1) sv]]
  note whole = findTarget_path [OF pre(1)]
  have shape: "uri = path @ (if verb = [] then [] else CHR '':'' # verb)"
    "CHR ''/'' \<notin> set verb" "CHR '':'' \<notin> set verb"
    using splitVerb_shape [OF sv] pre(2) by (auto simp: has_suffix_iff)
  show ?thesis
  proof
    assume none: "noMatch (match t uri hm)"
    have empty: "best t verb ?path = None" "best t [] ?uri = None"
      using none shape(1) unfolding noMatch_match [OF pre sv] by (cases "verb = []"; simp)+
    show "\<forall>p v raws. uri = render raws @ (if v = [] then [] else CHR '':'' # v) \<longrightarrow>
        plain_segments raws \<longrightarrow> raws \<noteq> [] \<longrightarrow> CHR ''/'' \<notin> set v \<longrightarrow> CHR '':'' \<notin> set v \<longrightarrow>
        pat_matches p raws \<longrightarrow> routes t p v = None"
    proof (intro allI impI)
      fix p v raws
      assume *: "uri = render raws @ (if v = [] then [] else CHR '':'' # v)"
        "plain_segments raws" "raws \<noteq> []" "CHR ''/'' \<notin> set v" "CHR '':'' \<notin> set v" "pat_matches p raws"
      have "v = verb \<and> raws = ?path \<or> v = [] \<and> raws = ?uri"
        using path_reading [OF sv *(1-5)] split_render [OF *(3,2)] *(1) by auto
      then show "routes t p v = None"
        using empty *(6) by (auto simp: best_None)
    qed
  next
    assume all: "\<forall>p v raws. uri = render raws @ (if v = [] then [] else CHR '':'' # v) \<longrightarrow>
        plain_segments raws \<longrightarrow> raws \<noteq> [] \<longrightarrow> CHR ''/'' \<notin> set v \<longrightarrow> CHR '':'' \<notin> set v \<longrightarrow>
        pat_matches p raws \<longrightarrow> routes t p v = None"
    have "best t verb ?path = None"
      unfolding best_None using all [rule_format, of ?path verb] shape path(1-3) by simp
    moreover have "best t [] ?uri = None"
      unfolding best_None using all [rule_format, of ?uri "[]"] whole(1-3) by simp
    ultimately show "noMatch (match t uri hm)"
      unfolding noMatch_match [OF pre sv] by simp
  qed
qed

section \<open>A sample table\<close>

definition sample_rule :: "rulePattern \<Rightarrow> httpRule" where
  "sample_rule p = \<lparr>Selector = [], Pattern = p, Body = [], ResponseBody = []\<rparr>"

definition sample_table :: "(string, unit, string) routeTarget routeTrie" where
  "sample_table =
     snd (addRoute sample (sample_method ''GetBook'' StreamTypeUnary)
            (sample_rule (HttpRule_Get ''/v1/{shelf.id}/{name=books/**}:read''))
       (snd (addRoute sample (sample_method ''GetBook'' StreamTypeUnary)
            (sample_rule (HttpRule_Get ''/v1/{name}'')) emptyTrie)))"

lemma sample_reachable: "reachable_table sample sample_table"
  unfolding sample_table_def by (intro reachable_table.intros)

lemma sample_match:
  "fst (match sample_table ''/v1/s1/books/b%2F1/x:read'' ''GET'') =
     Some \<lparr>target_method = sample_method ''GetBook'' StreamTypeUnary, httpMethod = ''GET'',
      template = ''/v1/*/books/**:read'',
      pattern = ''GET /v1/{shelf.id}/{name=books/**}:read'', requestBodyFieldPath = [],
      requestBodyFields = None, responseBodyFieldPath = [], responseBodyFields = None,
      vars = [\<lparr>fieldPath = ''shelf.id'', vstart = 1, vend = 2, flds = [''shelf'', ''id'']\<rparr>,
              \<lparr>fieldPath = ''name'', vstart = 2, vend = -1, flds = [''name'']\<rparr>],
      unsupported = None\<rparr>"
  by code_simp

section \<open>Properties\<close>

text \<open>C3: Lookup picks the most specific stored route: for any path, the pattern that answers is
  one that matches the path's segments and has routes for the verb, and every other such
  pattern is less specific (segments are compared left to right, a literal before a star
  before a double star); the answer is empty only when no stored pattern matches.\<close>

theorem lookup_precedence:
  "let raws = split_on CHR ''/'' path in
     findTarget t (CHR ''/'' # path) v m = answer t v m (best t v raws) \<and>
     (case best t v raws of
        None \<Rightarrow> \<forall>q. pat_matches q raws \<longrightarrow> routes t q v = None
      | Some p \<Rightarrow> pat_matches p raws \<and> routes t p v \<noteq> None \<and>
          (\<forall>q. pat_matches q raws \<and> routes t q v \<noteq> None \<longrightarrow> q = p \<or> more_specific p q))"
proof -
  let ?raws = "split_on CHR ''/'' path"
  have "findTarget t (CHR ''/'' # path) v m = answer t v m (best t v ?raws)"
    using findTarget_best [of ?raws t v m] by (simp add: render_split)
  moreover have "case best t v ?raws of
        None \<Rightarrow> \<forall>q. pat_matches q ?raws \<longrightarrow> routes t q v = None
      | Some p \<Rightarrow> pat_matches p ?raws \<and> routes t p v \<noteq> None \<and>
          (\<forall>q. pat_matches q ?raws \<and> routes t q v \<noteq> None \<longrightarrow> q = p \<or> more_specific p q)"
  proof (cases "best t v ?raws")
    case None
    then show ?thesis using best_None [of t v ?raws] by simp
  next
    case (Some p)
    then show ?thesis using best_Some [OF Some] by simp
  qed
  ultimately show ?thesis by (simp only: Let_def simp_thms)
qed

theorem lookup_precedence_witness:
  "findTarget sample_table ''/v1/s1/books/x'' ''read'' ''GET'' =
     answer sample_table ''read'' ''GET''
       (best sample_table ''read'' (split_on CHR ''/'' ''v1/s1/books/x''))"
  using lookup_precedence [of "''v1/s1/books/x''" sample_table "''read''" "''GET''"]
  unfolding Let_def by (rule conjunct1)


text \<open>The order in which routes are added does not matter: adding the same routes, with
  pairwise different keys, in any two orders either conflicts with the table both times, or
  gives tables with the same content.\<close>

theorem route_order_irrelevant:
  fixes t :: "'t routeTrie"
  assumes "set kxs = set kys" and "distinct (map fst kxs)" and "distinct (map fst kys)"
  shows "(fst (insert_all trie_insert kxs t) = None) = (fst (insert_all trie_insert kys t) = None) \<and>
    (fst (insert_all trie_insert kxs t) = None \<longrightarrow>
       route (snd (insert_all trie_insert kxs t)) = route (snd (insert_all trie_insert kys t)))"
  using trie.insert_all_order [OF assms] by blast

theorem route_order_irrelevant_witness:
  "(fst (insert_all trie_insert
        [(([''a''], [], ''GET''), 1::nat), (([''*''], [], ''GET''), 2)] emptyTrie) = None) =
   (fst (insert_all trie_insert
        [(([''*''], [], ''GET''), 2::nat), (([''a''], [], ''GET''), 1)] emptyTrie) = None)"
  using route_order_irrelevant [of "[(([''a''], [], ''GET''), 1::nat), (([''*''], [], ''GET''), 2)]"
      "[(([''*''], [], ''GET''), 2), (([''a''], [], ''GET''), 1)]" emptyTrie]
  by auto

text \<open>C29: Every table built by adding rules to the empty one is well formed: a stored target is
  kept under the segments and verb of its own canonical template and under its own HTTP
  method, its variables lie within those segments, and their fields can be walked.\<close>

theorem table_invariant:
  "reachable_table R t \<Longrightarrow> good_table R t"
  by (rule reachable_good)

theorem table_invariant_witness: "good_table sample sample_table"
  by (rule table_invariant [OF sample_reachable])

text \<open>C1: A matched request can always be decoded up to its escapes: when the router returns a
  target, cutting the target's verb off the request path does not panic, and the capture of
  each of the target's variables does not panic either and is the unescaped text of exactly
  the path segments the variable covers.\<close>

theorem match_never_panics:
  assumes "reachable_table R t" and "match t uri hm = (Some target, ms)"
  shows "\<exists>raws. trimVerb target uri = Some (render raws) \<and> plain_segments raws \<and>
     (\<forall>x \<in> set (vars target). in_range x (length raws) \<and>
        capture x (render raws) =
          Some (pathUnescape (join_with ''/'' (covered x raws)) (capture_mode x)))"
  by (rule match_captures [OF reachable_good [OF assms(1)] assms(2)])

theorem match_never_panics_witness:
  "\<exists>target raws. fst (match sample_table ''/v1/s1/books/b%2F1/x:read'' ''GET'') = Some target \<and>
     trimVerb target ''/v1/s1/books/b%2F1/x:read'' = Some (render raws) \<and> plain_segments raws"
proof -
  obtain target ms where
    "match sample_table ''/v1/s1/books/b%2F1/x:read'' ''GET'' = (Some target, ms)"
    using sample_match by (metis prod.collapse)
  then show ?thesis
    using match_never_panics [OF sample_reachable] by (metis fst_conv)
qed

text \<open>C28: A request is reported as not found only when no stored route could serve it: for a path
  that starts with a slash and does not end in a colon, the answer is empty if and only if
  every way to read the path as segments with an optional verb matches no stored pattern of
  that verb.\<close>

theorem not_found_iff:
  assumes "has_prefix uri ''/''" and "\<not> has_suffix uri '':''"
  shows "noMatch (match t uri hm) \<longleftrightarrow>
     (\<forall>p v raws. uri = render raws @ (if v = [] then [] else CHR '':'' # v) \<longrightarrow>
        plain_segments raws \<longrightarrow> raws \<noteq> [] \<longrightarrow> CHR ''/'' \<notin> set v \<longrightarrow> CHR '':'' \<notin> set v \<longrightarrow>
        pat_matches p raws \<longrightarrow> routes t p v = None)"
  by (rule noMatch_iff [OF assms])

theorem not_found_iff_witness:
  "routes sample_table [''v2''] [] = None"
proof -
  have "noMatch (match sample_table ''/v2'' ''GET'')" "has_prefix ''/v2'' ''/''" "\<not> has_suffix ''/v2'' '':''"
    by code_simp+
  then have all: "\<forall>p v raws. ''/v2'' = render raws @ (if v = [] then [] else CHR '':'' # v) \<longrightarrow>
        plain_segments raws \<longrightarrow> raws \<noteq> [] \<longrightarrow> CHR ''/'' \<notin> set v \<longrightarrow> CHR '':'' \<notin> set v \<longrightarrow>
        pat_matches p raws \<longrightarrow> routes sample_table p v = None"
    using not_found_iff by blast
  have "pat_matches [''v2''] [''v2'']"
    by code_simp
  then show ?thesis
    using all [rule_format, of "[''v2'']" "[]" "[''v2'']"] by simp
qed

text \<open>Verbs are compared as written, segments in canonical form: a rule whose verb holds an
  escape with a lower-case digit is stored under the canonical (upper-case) verb, so the very
  path of the rule is not found, while the same escape in a segment is.\<close>

theorem verb_not_canonicalised:
  "let t = snd (addRoute sample (sample_method ''GetBook'' StreamTypeUnary)
              (sample_rule (HttpRule_Get ''/v1/a%2c:x%2c'')) emptyTrie)
   in noMatch (match t ''/v1/a%2c:x%2c'' ''GET'') \<and>
      fst (match t ''/v1/a%2c:x%2C'' ''GET'') \<noteq> None"
  by code_simp

end
