(* ===== verification/Numbers.thy ===== *)
theory Numbers
  imports Prelude
begin

text \<open>
  Numbers in parameters: \<open>isJSONNumber\<close> and the integer readers of \<open>params.go\<close>, with what
  they use of Go's \<open>strconv\<close> and \<open>encoding/json\<close>: decimal \<open>ParseInt\<close> and \<open>ParseUint\<close> of a
  given bit size, and the decimal text \<open>json.Marshal\<close> writes for an integer.
\<close>

section \<open>Digits\<close>

definition isDigit :: "char \<Rightarrow> bool" where
  "isDigit c \<longleftrightarrow> c \<in> set ''0123456789''"

definition digit_char :: "nat \<Rightarrow> char" where
  "digit_char d = ''0123456789'' ! d"

definition digit_value :: "char \<Rightarrow> nat" where
  "digit_value c = (case index_byte c ''0123456789'' of Some i \<Rightarrow> i | None \<Rightarrow> 0)"

lemma digit_table:
  "list_all (\<lambda>d. digit_value (digit_char d) = d \<and> isDigit (digit_char d) \<and>
     (digit_char d = CHR ''0'' \<longleftrightarrow> d = 0)) [0..<10]"
  by code_simp

lemma digit_char_simps [simp]:
  assumes "d < 10"
  shows "digit_value (digit_char d) = d" "isDigit (digit_char d)" "digit_char d = CHR ''0'' \<longleftrightarrow> d = 0"
  using digit_table assms by (simp_all only: list_all_iff set_upt atLeastLessThan_iff) auto

lemma digit_cases: "isDigit c \<Longrightarrow> \<exists>d < 10. c = digit_char d"
proof -
  assume "isDigit c"
  then obtain d where "d < length ''0123456789''" "c = ''0123456789'' ! d"
    unfolding isDigit_def in_set_conv_nth by auto
  then show ?thesis
    by (intro exI [of _ d]) (simp add: digit_char_def)
qed

lemma isDigit_special [simp]:
  "\<not> isDigit CHR ''.''" "\<not> isDigit CHR ''e''" "\<not> isDigit CHR ''E''" "\<not> isDigit CHR ''-''" "\<not> isDigit CHR ''+''"
  by (simp_all add: isDigit_def)

lemma isDigit_0 [simp]: "isDigit CHR ''0''"
  by (simp add: isDigit_def)

section \<open>isJSONNumber\<close>

text \<open>The local function \<open>digits\<close>: the text after the leading digits, and whether there were any.\<close>

definition digits :: "string \<Rightarrow> string \<times> bool" where
  "digits data = (let trimmed = dropWhile isDigit data in (trimmed, length trimmed < length data))"

definition trimPrefix :: "string \<Rightarrow> string \<Rightarrow> string" where
  "trimPrefix s p = (if has_prefix s p then drop (length p) s else s)"

text \<open>The three steps of the function, \<open>None\<close> for its \<open>return false\<close>.\<close>

definition integerPart :: "string \<Rightarrow> string option" where
  "integerPart data =
     (if has_prefix data ''0'' then Some (drop 1 data)
      else if data \<noteq> [] \<and> CHR ''1'' \<le> hd data \<and> hd data \<le> CHR ''9'' then Some (fst (digits data))
      else None)"

definition fractionPart :: "string \<Rightarrow> string option" where
  "fractionPart data =
     (if has_prefix data ''.''
      then (let (d, ok) = digits (drop 1 data) in if \<not> ok then None else Some d)
      else Some data)"

definition exponentPart :: "string \<Rightarrow> string option" where
  "exponentPart data =
     (if length data > 0 \<and> (hd data = CHR ''e'' \<or> hd data = CHR ''E'')
      then
        (let rest = dropWhile (\<lambda>c. c \<in> set ''+-'') (drop 1 data) in
         if int (length data) - int (length rest) > 2 then None
         else (let (d, ok) = digits rest in if \<not> ok then None else Some d))
      else Some data)"

definition isJSONNumber :: "string \<Rightarrow> bool" where
  "isJSONNumber data =
     (case integerPart (trimPrefix data ''-'') of
        None \<Rightarrow> False
      | Some data \<Rightarrow>
          (case fractionPart data of
             None \<Rightarrow> False
           | Some data \<Rightarrow>
               (case exponentPart data of
                  None \<Rightarrow> False
                | Some data \<Rightarrow> data = [])))"

section \<open>The JSON number grammar\<close>

definition is_digits :: "string \<Rightarrow> bool" where
  "is_digits s \<longleftrightarrow> s \<noteq> [] \<and> list_all isDigit s"

definition json_int :: "string \<Rightarrow> bool" where
  "json_int s \<longleftrightarrow> s = ''0'' \<or> is_digits s \<and> hd s \<noteq> CHR ''0''"

definition json_frac :: "string \<Rightarrow> bool" where
  "json_frac s \<longleftrightarrow> s = [] \<or> (\<exists>ds. s = CHR ''.'' # ds \<and> is_digits ds)"

definition json_exp :: "string \<Rightarrow> bool" where
  "json_exp s \<longleftrightarrow> s = [] \<or>
     (\<exists>e sign ds. s = e # sign @ ds \<and> e \<in> {CHR ''e'', CHR ''E''} \<and> sign \<in> {'''', ''+'', ''-''} \<and> is_digits ds)"

definition json_number :: "string \<Rightarrow> bool" where
  "json_number s \<longleftrightarrow>
     (\<exists>sign i f e. s = sign @ i @ f @ e \<and> sign \<in> {'''', ''-''} \<and> json_int i \<and> json_frac f \<and> json_exp e)"

lemma digits_append:
  "is_digits ds \<Longrightarrow> rest = [] \<or> \<not> isDigit (hd rest) \<Longrightarrow> digits (ds @ rest) = (rest, True)"
proof -
  assume ds: "is_digits ds" and rest: "rest = [] \<or> \<not> isDigit (hd rest)"
  have "dropWhile isDigit (ds @ rest) = dropWhile isDigit rest"
    using ds by (simp add: is_digits_def list_all_iff dropWhile_append)
  also have "\<dots> = rest"
    using rest by (cases rest) auto
  finally show ?thesis
    using ds by (simp add: digits_def is_digits_def)
qed

lemma digits_True:
  assumes "digits s = (rest, True)"
  shows "\<exists>ds. s = ds @ rest \<and> is_digits ds \<and> (rest = [] \<or> \<not> isDigit (hd rest))"
proof -
  have "rest = dropWhile isDigit s" "takeWhile isDigit s \<noteq> []"
    using assms by (auto simp: digits_def Let_def dropWhile_eq_drop)
  then show ?thesis
    using hd_dropWhile [of isDigit s]
    by (intro exI [of _ "takeWhile isDigit s"])
       (auto simp: is_digits_def list_all_iff dest: set_takeWhileD simp del: dropWhile_eq_Nil_conv)
qed

lemma digit_19: "CHR ''1'' \<le> c \<and> c \<le> CHR ''9'' \<longleftrightarrow> isDigit c \<and> c \<noteq> CHR ''0''"
proof
  assume "CHR ''1'' \<le> c \<and> c \<le> CHR ''9''"
  then have "of_char c \<in> set [49..<58 :: nat]"
    by (auto simp: less_eq_char_def simp del: upt_rec_numeral)
  then have "c \<in> set (map char_of [49..<58 :: nat])"
    by (metis char_of_char image_eqI list.set_map)
  also have "map char_of [49..<58 :: nat] = ''123456789''"
    by code_simp
  finally show "isDigit c \<and> c \<noteq> CHR ''0''"
    by (auto simp: isDigit_def)
next
  assume "isDigit c \<and> c \<noteq> CHR ''0''"
  moreover have "list_all (\<lambda>c. CHR ''1'' \<le> c \<and> c \<le> CHR ''9'') ''123456789''"
    by code_simp
  ultimately show "CHR ''1'' \<le> c \<and> c \<le> CHR ''9''"
    unfolding isDigit_def list_all_iff by auto
qed

lemma exponent_part_iff:
  "exponentPart s = Some [] \<longleftrightarrow> json_exp s"
proof
  assume *: "exponentPart s = Some []"
  show "json_exp s"
  proof (cases "s = []")
    case False
    let ?rest = "dropWhile (\<lambda>c. c \<in> set ''+-'') (drop 1 s)"
    let ?sign = "takeWhile (\<lambda>c. c \<in> set ''+-'') (drop 1 s)"
    obtain e t where s: "s = e # t"
      using False by (cases s) auto
    have e: "e \<in> {CHR ''e'', CHR ''E''}" and d: "digits ?rest = ([], True)"
      and len: "int (length s) - int (length ?rest) \<le> 2"
      using * False s by (auto simp: exponentPart_def Let_def split: if_splits prod.splits)
    have st: "drop 1 s = ?sign @ ?rest"
      by simp
    have "length t = length ?sign + length ?rest"
      using arg_cong [OF st, of length] s by (simp only: length_append) simp
    then have "length ?sign \<le> 1"
      using len s by simp
    then have "?sign \<in> {'''', ''+'', ''-''}"
      using set_takeWhileD [of _ "\<lambda>c. c \<in> set ''+-''" "drop 1 s"]
      by (cases ?sign) auto
    moreover obtain ds where "?rest = ds" "is_digits ds"
      using digits_True [OF d] by auto
    ultimately show ?thesis
      unfolding json_exp_def using s e st by (metis drop0 drop_Suc_Cons One_nat_def)
  qed (simp add: json_exp_def)
next
  assume "json_exp s"
  then consider "s = []" | e sign ds where "s = e # sign @ ds" "e \<in> {CHR ''e'', CHR ''E''}"
    "sign \<in> {'''', ''+'', ''-''}" "is_digits ds"
    unfolding json_exp_def by blast
  then show "exponentPart s = Some []"
  proof cases
    case 2
    obtain d ds' where ds: "ds = d # ds'" "isDigit d"
      using 2(4) by (cases ds) (auto simp: is_digits_def)
    then have "d \<notin> set ''+-''"
      by auto
    then have "dropWhile (\<lambda>c. c \<in> set ''+-'') (sign @ ds) = ds"
      using 2(3) ds by auto
    moreover have "digits ds = ([], True)"
      using digits_append [OF 2(4), of "[]"] by simp
    moreover have "length sign \<le> 1"
      using 2(3) by auto
    ultimately show ?thesis
      using 2(1,2) by (auto simp: exponentPart_def Let_def)
  qed (simp add: exponentPart_def)
qed

lemma json_exp_head: "json_exp s \<Longrightarrow> s = [] \<or> hd s = CHR ''e'' \<or> hd s = CHR ''E''"
  by (auto simp: json_exp_def)

lemma fraction_part_iff:
  "(\<exists>t. fractionPart s = Some t \<and> json_exp t) \<longleftrightarrow> (\<exists>f e. s = f @ e \<and> json_frac f \<and> json_exp e)"
proof
  assume "\<exists>t. fractionPart s = Some t \<and> json_exp t"
  then obtain t where t: "fractionPart s = Some t" "json_exp t" by blast
  show "\<exists>f e. s = f @ e \<and> json_frac f \<and> json_exp e"
  proof (cases "has_prefix s ''.''")
    case True
    then obtain u where s: "s = CHR ''.'' # u"
      by (auto simp: has_prefix_iff)
    then have "digits u = (t, True)"
      using t(1) by (auto simp: fractionPart_def split: prod.splits if_splits)
    then obtain ds where "u = ds @ t" "is_digits ds"
      using digits_True by blast
    then show ?thesis
      using s t(2) by (intro exI [of _ "CHR ''.'' # ds"] exI [of _ t]) (auto simp: json_frac_def)
  next
    case False
    then show ?thesis
      using t by (intro exI [of _ "[]"] exI [of _ t]) (auto simp: fractionPart_def json_frac_def)
  qed
next
  assume "\<exists>f e. s = f @ e \<and> json_frac f \<and> json_exp e"
  then obtain f e where fe: "s = f @ e" "json_frac f" "json_exp e" by blast
  note head = json_exp_head [OF fe(3)]
  show "\<exists>t. fractionPart s = Some t \<and> json_exp t"
  proof (cases "f = []")
    case True
    then have "\<not> has_prefix s ''.''"
      using fe(1) head by (cases e) (auto simp: has_prefix_iff)
    then show ?thesis
      using fe True by (simp add: fractionPart_def)
  next
    case False
    then obtain ds where f: "f = CHR ''.'' # ds" "is_digits ds"
      using fe(2) by (auto simp: json_frac_def)
    then have "digits (ds @ e) = (e, True)"
      using head by (intro digits_append) auto
    then show ?thesis
      using fe f by (simp add: fractionPart_def)
  qed
qed

lemma integer_part_iff:
  "(\<exists>t. integerPart s = Some t \<and> (\<exists>f e. t = f @ e \<and> json_frac f \<and> json_exp e)) \<longleftrightarrow>
   (\<exists>i f e. s = i @ f @ e \<and> json_int i \<and> json_frac f \<and> json_exp e)"
proof
  assume "\<exists>t. integerPart s = Some t \<and> (\<exists>f e. t = f @ e \<and> json_frac f \<and> json_exp e)"
  then obtain f e where t: "integerPart s = Some (f @ e)" "json_frac f" "json_exp e" by blast
  show "\<exists>i f e. s = i @ f @ e \<and> json_int i \<and> json_frac f \<and> json_exp e"
  proof (cases "has_prefix s ''0''")
    case True
    then have "s = ''0'' @ f @ e"
      using t(1) by (auto simp: has_prefix_iff integerPart_def)
    then show ?thesis
      using t by (intro exI [of _ "''0''"] exI) (auto simp: json_int_def)
  next
    case False
    then have s: "s \<noteq> []" "isDigit (hd s)" "hd s \<noteq> CHR ''0''" "fst (digits s) = f @ e"
      using t(1) digit_19 [of "hd s"] by (auto simp: integerPart_def split: if_splits)
    then have "digits s = (f @ e, True)"
      using length_dropWhile_le [of isDigit "tl s"]
      by (cases s) (auto simp: digits_def Let_def less_Suc_eq_le)
    then obtain ds where ds: "s = ds @ f @ e" "is_digits ds"
      using digits_True by blast
    then have "hd ds \<noteq> CHR ''0''"
      using s(3) by (cases ds) (auto simp: is_digits_def)
    then show ?thesis
      using ds t by (auto simp: json_int_def)
  qed
next
  assume "\<exists>i f e. s = i @ f @ e \<and> json_int i \<and> json_frac f \<and> json_exp e"
  then obtain i f e where ife: "s = i @ f @ e" "json_int i" "json_frac f" "json_exp e" by blast
  have "f @ e = [] \<or> \<not> isDigit (hd (f @ e))"
    using ife(3) json_exp_head [OF ife(4)] by (auto simp: json_frac_def hd_append)
  then have "integerPart s = Some (f @ e)"
  proof (cases "i = ''0''")
    case False
    then have i: "is_digits i" "hd i \<noteq> CHR ''0''"
      using ife(2) by (auto simp: json_int_def)
    then obtain d ds where d: "i = d # ds" "isDigit d" "d \<noteq> CHR ''0''"
      by (cases i) (auto simp: is_digits_def)
    have "digits s = (f @ e, True)"
      unfolding ife(1) by (rule digits_append) (use i \<open>f @ e = [] \<or> _\<close> in auto)
    then show ?thesis
      using d ife(1) digit_19 [of d] by (simp add: integerPart_def has_prefix_iff)
  qed (use ife(1) in \<open>simp add: integerPart_def has_prefix_iff\<close>)
  then show "\<exists>t. integerPart s = Some t \<and> (\<exists>f e. t = f @ e \<and> json_frac f \<and> json_exp e)"
    using ife by blast
qed

lemma isJSONNumber_steps:
  "isJSONNumber s \<longleftrightarrow>
     (\<exists>t. integerPart (trimPrefix s ''-'') = Some t \<and> (\<exists>u. fractionPart t = Some u \<and> json_exp u))"
  by (auto simp: isJSONNumber_def exponent_part_iff [symmetric] split: option.splits)

lemma json_int_head: "json_int i \<Longrightarrow> i \<noteq> [] \<and> isDigit (hd i)"
  by (cases i) (auto simp: json_int_def is_digits_def)

lemma isJSONNumber_iff: "isJSONNumber s \<longleftrightarrow> json_number s"
proof -
  have "isJSONNumber s \<longleftrightarrow>
      (\<exists>i f e. trimPrefix s ''-'' = i @ f @ e \<and> json_int i \<and> json_frac f \<and> json_exp e)"
    unfolding isJSONNumber_steps fraction_part_iff integer_part_iff ..
  also have "\<dots> \<longleftrightarrow> json_number s"
  proof (cases "has_prefix s ''-''")
    case True
    then obtain t where t: "s = CHR ''-'' # t"
      by (auto simp: has_prefix_iff)
    have "json_number s \<longleftrightarrow> (\<exists>i f e. t = i @ f @ e \<and> json_int i \<and> json_frac f \<and> json_exp e)"
    proof
      assume "json_number s"
      then obtain sign i f e where *: "s = sign @ i @ f @ e" "sign \<in> {'''', ''-''}" "json_int i"
        "json_frac f" "json_exp e"
        unfolding json_number_def by blast
      have "sign = ''-''"
        using * t json_int_head [OF *(3)] by (cases i) auto
      then show "\<exists>i f e. t = i @ f @ e \<and> json_int i \<and> json_frac f \<and> json_exp e"
        using * t by auto
    next
      assume "\<exists>i f e. t = i @ f @ e \<and> json_int i \<and> json_frac f \<and> json_exp e"
      then obtain i f e where "s = ''-'' @ i @ f @ e" "json_int i" "json_frac f" "json_exp e"
        using t by auto
      then show "json_number s"
        unfolding json_number_def by blast
    qed
    then show ?thesis
      using t by (simp add: trimPrefix_def)
  next
    case False
    have "json_number s \<longleftrightarrow> (\<exists>i f e. s = i @ f @ e \<and> json_int i \<and> json_frac f \<and> json_exp e)"
    proof
      assume "json_number s"
      then obtain sign i f e where *: "s = sign @ i @ f @ e" "sign \<in> {'''', ''-''}" "json_int i"
        "json_frac f" "json_exp e"
        unfolding json_number_def by blast
      then have "sign = []"
        using False by (auto simp: has_prefix_iff)
      then show "\<exists>i f e. s = i @ f @ e \<and> json_int i \<and> json_frac f \<and> json_exp e"
        using * by auto
    next
      assume "\<exists>i f e. s = i @ f @ e \<and> json_int i \<and> json_frac f \<and> json_exp e"
      then obtain i f e where "s = [] @ i @ f @ e" "json_int i" "json_frac f" "json_exp e"
        by auto
      then show "json_number s"
        unfolding json_number_def by blast
    qed
    then show ?thesis
      using False by (simp add: trimPrefix_def)
  qed
  finally show ?thesis .
qed

section \<open>Integers: strconv and json\<close>

text \<open>
  \<open>strconv.ParseUint(s, 10, bits)\<close> and \<open>strconv.ParseInt\<close>: decimal digits with a range check,
  \<open>None\<close> for an error.  The value is an integer of the range, which the caller converts.
\<close>

definition nat_of_digits :: "string \<Rightarrow> nat" where
  "nat_of_digits ds = foldl (\<lambda>n c. 10 * n + digit_value c) 0 ds"

definition parseUint :: "nat \<Rightarrow> string \<Rightarrow> nat option" where
  "parseUint bits s =
     (if s = [] \<or> \<not> list_all isDigit s then None
      else if nat_of_digits s < 2 ^ bits then Some (nat_of_digits s) else None)"

definition parseInt :: "nat \<Rightarrow> string \<Rightarrow> int option" where
  "parseInt bits s =
     (let neg = has_prefix s ''-'';
          ds = (if neg \<or> has_prefix s ''+'' then drop 1 s else s) in
      if ds = [] \<or> \<not> list_all isDigit ds then None
      else
        (let n = int (nat_of_digits ds); x = (if neg then - n else n) in
         if - (2 ^ (bits - 1)) \<le> x \<and> x < 2 ^ (bits - 1) then Some x else None))"

text \<open>
  \<open>json.Unmarshal\<close> into an integer: white space is trimmed, \<open>null\<close> leaves the zero value, a
  JSON number must be an integer of the range, and anything else is an error.
\<close>

definition isSpace :: "char \<Rightarrow> bool" where
  "isSpace c \<longleftrightarrow> c \<in> set [CHR '' '', CHR 0x09, CHR 0x0A, CHR 0x0D]"

definition trimSpace :: "string \<Rightarrow> string" where
  "trimSpace s = rev (dropWhile isSpace (rev (dropWhile isSpace s)))"

definition jsonInteger :: "(string \<Rightarrow> 'n option) \<Rightarrow> 'n \<Rightarrow> string \<Rightarrow> 'n option" where
  "jsonInteger parse zero s =
     (let t = trimSpace s in
      if t = ''null'' then Some zero
      else if isJSONNumber t then parse t else None)"

text \<open>\<open>unmarshalNumber\<close>, with the fallback \<open>json.Unmarshal\<close> as its second argument.\<close>

definition unmarshalNumber :: "(string \<Rightarrow> 'n option) \<Rightarrow> (string \<Rightarrow> 'n option) \<Rightarrow> string \<Rightarrow> 'n option" where
  "unmarshalNumber parse jsonUnmarshal data =
     (case (if isJSONNumber data then parse data else None) of
        Some x \<Rightarrow> Some x
      | None \<Rightarrow> jsonUnmarshal data)"

definition unmarshalInt :: "nat \<Rightarrow> string \<Rightarrow> int option" where
  "unmarshalInt bits data =
     unmarshalNumber (parseInt bits) (jsonInteger (parseInt bits) 0) data"

definition unmarshalUint :: "nat \<Rightarrow> string \<Rightarrow> nat option" where
  "unmarshalUint bits data =
     unmarshalNumber (parseUint bits) (jsonInteger (parseUint bits) 0) data"

text \<open>The decimal text of an integer, as \<open>json.Marshal\<close> writes it.\<close>

fun decimal_nat :: "nat \<Rightarrow> string" where
  "decimal_nat n = (if n < 10 then [digit_char n] else decimal_nat (n div 10) @ [digit_char (n mod 10)])"

declare decimal_nat.simps [simp del]

definition decimal :: "int \<Rightarrow> string" where
  "decimal x = (if x < 0 then CHR ''-'' # decimal_nat (nat (- x)) else decimal_nat (nat x))"

lemma decimal_nat_digits: "is_digits (decimal_nat n)"
proof (induction n rule: decimal_nat.induct)
  case (1 n)
  then show ?case
    by (subst decimal_nat.simps) (auto simp: is_digits_def)
qed

lemma nat_of_digits_snoc: "nat_of_digits (ds @ [c]) = 10 * nat_of_digits ds + digit_value c"
  by (simp add: nat_of_digits_def)

lemma nat_of_decimal: "nat_of_digits (decimal_nat n) = n"
proof (induction n rule: decimal_nat.induct)
  case (1 n)
  show ?case
  proof (cases "n < 10")
    case True
    then show ?thesis
      by (subst decimal_nat.simps) (simp add: nat_of_digits_def)
  next
    case False
    then show ?thesis
      using 1 by (subst decimal_nat.simps) (simp add: nat_of_digits_snoc)
  qed
qed

lemma decimal_nat_head: "hd (decimal_nat n) = CHR ''0'' \<Longrightarrow> n = 0"
proof (induction n rule: decimal_nat.induct)
  case (1 n)
  show ?case
  proof (cases "n < 10")
    case True
    then show ?thesis
      using "1.prems" by (subst (asm) decimal_nat.simps) simp
  next
    case False
    have ne: "decimal_nat (n div 10) \<noteq> []"
      using decimal_nat_digits by (simp add: is_digits_def)
    have "hd (decimal_nat n) = hd (decimal_nat (n div 10))"
      using False ne by (subst decimal_nat.simps) simp
    then have "n div 10 = 0"
      using 1 False by simp
    then show ?thesis using False by simp
  qed
qed

lemma decimal_nat_json: "json_int (decimal_nat n)"
proof (cases "n = 0")
  case True
  then have "decimal_nat n = ''0''"
    by (subst decimal_nat.simps) (simp add: digit_char_def)
  then show ?thesis by (simp add: json_int_def)
next
  case False
  then show ?thesis
    using decimal_nat_digits decimal_nat_head by (auto simp: json_int_def)
qed

lemma decimal_isJSONNumber: "isJSONNumber (decimal x)"
proof -
  obtain sign n where "decimal x = sign @ decimal_nat n @ [] @ []" "sign \<in> {'''', ''-''}"
  proof (cases "x < 0")
    case True
    then show thesis using that [of "''-''"] by (simp add: decimal_def)
  next
    case False
    then show thesis using that [of "[]"] by (simp add: decimal_def)
  qed
  then show ?thesis
    unfolding isJSONNumber_iff json_number_def
    using decimal_nat_json json_exp_def json_frac_def by blast
qed

lemma digits_no_sign:
  assumes "is_digits ds"
  shows "\<not> has_prefix ds ''-''" and "\<not> has_prefix ds ''+''"
  using assms by (auto simp: is_digits_def has_prefix_iff)

lemma parseUint_decimal: "parseUint bits (decimal_nat n) = (if n < 2 ^ bits then Some n else None)"
  using decimal_nat_digits [of n] by (simp add: parseUint_def nat_of_decimal is_digits_def)

lemma parseInt_decimal:
  "parseInt bits (decimal x) =
     (if - (2 ^ (bits - 1)) \<le> x \<and> x < 2 ^ (bits - 1) then Some x else None)"
proof -
  have ds: "decimal_nat n \<noteq> []" "list_all isDigit (decimal_nat n)" for n
    using decimal_nat_digits [of n] by (simp_all add: is_digits_def)
  show ?thesis
  proof (cases "x < 0")
    case True
    then show ?thesis
      using ds by (simp add: parseInt_def decimal_def nat_of_decimal has_prefix_iff)
  next
    case False
    then show ?thesis
      using ds digits_no_sign [OF decimal_nat_digits] by (simp add: parseInt_def decimal_def nat_of_decimal)
  qed
qed

lemma trimSpace_plain: "\<forall>c \<in> set s. \<not> isSpace c \<Longrightarrow> trimSpace s = s"
proof -
  assume *: "\<forall>c \<in> set s. \<not> isSpace c"
  have dw: "dropWhile isSpace t = t" if "\<forall>c \<in> set t. \<not> isSpace c" for t
    using that by (cases t) auto
  show ?thesis
    using * dw [of s] dw [of "rev s"] by (simp add: trimSpace_def)
qed

lemma digit_not_space: "list_all (\<lambda>c. \<not> isSpace c) ''0123456789''" "\<not> isSpace CHR ''-''"
  by code_simp+

lemma digits_trim: "\<forall>c \<in> set s. isDigit c \<or> c = CHR ''-'' \<Longrightarrow> trimSpace s = s"
proof (rule trimSpace_plain, intro ballI)
  fix c
  assume "\<forall>c \<in> set s. isDigit c \<or> c = CHR ''-''" "c \<in> set s"
  then have "isDigit c \<or> c = CHR ''-''"
    by blast
  then show "\<not> isSpace c"
  proof
    assume "isDigit c"
    then show ?thesis
      using digit_not_space(1) unfolding list_all_iff isDigit_def by (rule bspec [rotated])
  next
    assume "c = CHR ''-''"
    then show ?thesis using digit_not_space(2) by (simp only: not_False_eq_True)
  qed
qed

lemma decimal_chars: "c \<in> set (decimal x) \<Longrightarrow> isDigit c \<or> c = CHR ''-''"
  using decimal_nat_digits by (auto simp: decimal_def is_digits_def list_all_iff split: if_splits)

lemma unmarshalNumber_plain:
  assumes "isJSONNumber s" and "trimSpace s = s" and "s \<noteq> ''null''"
  shows "unmarshalNumber parse (jsonInteger parse zero) s = parse s"
  using assms by (simp add: unmarshalNumber_def jsonInteger_def split: option.splits)

lemma not_null: "isJSONNumber s \<Longrightarrow> s \<noteq> ''null''"
  by (auto simp: isJSONNumber_def integerPart_def trimPrefix_def has_prefix_iff less_eq_char_def)

lemma unmarshalInt_decimal:
  "unmarshalInt bits (decimal x) =
     (if - (2 ^ (bits - 1)) \<le> x \<and> x < 2 ^ (bits - 1) then Some x else None)"
  unfolding unmarshalInt_def
  using unmarshalNumber_plain [of "decimal x" "parseInt bits" 0] decimal_isJSONNumber [of x] not_null
    digits_trim [of "decimal x"] decimal_chars parseInt_decimal [of bits x] by metis

lemma decimal_of_nat: "decimal (int n) = decimal_nat n"
  by (simp add: decimal_def)

lemma unmarshalUint_decimal:
  "unmarshalUint bits (decimal (int n)) = (if n < 2 ^ bits then Some n else None)"
  unfolding unmarshalUint_def
  using unmarshalNumber_plain [of "decimal (int n)" "parseUint bits" 0] decimal_isJSONNumber [of "int n"]
    not_null digits_trim [of "decimal (int n)"] decimal_chars parseUint_decimal [of bits n] decimal_of_nat [of n]
  by metis

section \<open>Properties\<close>

text \<open>The hand-written scanner accepts exactly the numbers of the JSON grammar: an optional
  minus sign, a zero or digits without a leading zero, an optional fraction and an optional
  exponent, and nothing after them.\<close>

theorem isJSONNumber_grammar:
  "isJSONNumber s \<longleftrightarrow>
     (\<exists>sign i f e. s = sign @ i @ f @ e \<and> sign \<in> {'''', ''-''} \<and> json_int i \<and> json_frac f \<and> json_exp e)"
  unfolding isJSONNumber_iff json_number_def ..

text \<open>The decimal text of an integer is read back as that integer when it fits the field's
  width, and refused when it does not, for signed and unsigned fields of any width.\<close>

theorem integers_read_back:
  "unmarshalInt bits (decimal x) =
     (if - (2 ^ (bits - 1)) \<le> x \<and> x < 2 ^ (bits - 1) then Some x else None) \<and>
   unmarshalUint bits (decimal (int n)) = (if n < 2 ^ bits then Some n else None)"
  using unmarshalInt_decimal unmarshalUint_decimal by blast

end
