(* ===== verification/Base64.thy ===== *)
theory Base64
  imports Prelude
begin

text \<open>
  Bytes in parameters.  \<open>params.go\<close> writes a \<open>bytes\<close> field with \<open>base64.URLEncoding\<close> and reads
  the standard and the URL alphabet, with and without padding.  The encoder and the decoder
  are those of Go's \<open>encoding/base64\<close>: the decoder skips line ends and ignores the unused
  bits of a last quantum.
\<close>

section \<open>encoding/base64\<close>

datatype alphabet = StdEncoding | URLEncoding

definition letters :: string where
  "letters = ''ABCDEFGHIJKLMNOPQRSTUVWXYZabcdefghijklmnopqrstuvwxyz0123456789''"

fun symbols :: "alphabet \<Rightarrow> string" where
  "symbols StdEncoding = letters @ ''+/''"
| "symbols URLEncoding = letters @ ''-_''"

definition symbol :: "alphabet \<Rightarrow> nat \<Rightarrow> char" where
  "symbol al n = symbols al ! n"

definition symbolValue :: "alphabet \<Rightarrow> char \<Rightarrow> nat option" where
  "symbolValue al c = index_byte c (symbols al)"

abbreviation val8 :: "char \<Rightarrow> nat" where
  "val8 c \<equiv> of_char c"

fun encode64 :: "alphabet \<Rightarrow> string \<Rightarrow> string" where
  "encode64 al [] = []"
| "encode64 al [a] = [symbol al (val8 a div 4), symbol al ((val8 a mod 4) * 16), CHR ''='', CHR ''='']"
| "encode64 al [a, b] =
     [symbol al (val8 a div 4), symbol al ((val8 a mod 4) * 16 + val8 b div 16),
      symbol al ((val8 b mod 16) * 4), CHR ''='']"
| "encode64 al (a # b # c # s) =
     [symbol al (val8 a div 4), symbol al ((val8 a mod 4) * 16 + val8 b div 16),
      symbol al ((val8 b mod 16) * 4 + val8 c div 64), symbol al (val8 c mod 64)] @ encode64 al s"

text \<open>The bytes of a quantum of two, three and four symbols.\<close>

definition quantum2 :: "alphabet \<Rightarrow> char \<Rightarrow> char \<Rightarrow> string option" where
  "quantum2 al a b =
     (case (symbolValue al a, symbolValue al b) of
        (Some w, Some x) \<Rightarrow> Some [char_of (w * 4 + x div 16)]
      | _ \<Rightarrow> None)"

definition quantum3 :: "alphabet \<Rightarrow> char \<Rightarrow> char \<Rightarrow> char \<Rightarrow> string option" where
  "quantum3 al a b c =
     (case (symbolValue al a, symbolValue al b, symbolValue al c) of
        (Some w, Some x, Some y) \<Rightarrow>
          Some [char_of (w * 4 + x div 16), char_of ((x mod 16) * 16 + y div 4)]
      | _ \<Rightarrow> None)"

definition quantum4 :: "alphabet \<Rightarrow> char \<Rightarrow> char \<Rightarrow> char \<Rightarrow> char \<Rightarrow> string option" where
  "quantum4 al a b c d =
     (case (symbolValue al a, symbolValue al b, symbolValue al c, symbolValue al d) of
        (Some w, Some x, Some y, Some z) \<Rightarrow>
          Some [char_of (w * 4 + x div 16), char_of ((x mod 16) * 16 + y div 4),
                char_of ((y mod 4) * 64 + z)]
      | _ \<Rightarrow> None)"

fun decodeQuanta :: "alphabet \<Rightarrow> bool \<Rightarrow> string \<Rightarrow> string option" where
  "decodeQuanta al padded [] = Some []"
| "decodeQuanta al padded [a] = None"
| "decodeQuanta al padded [a, b] = (if padded then None else quantum2 al a b)"
| "decodeQuanta al padded [a, b, c] = (if padded then None else quantum3 al a b c)"
| "decodeQuanta al padded (a # b # c # d # s) =
     (if padded \<and> d = CHR ''='' then
        if s \<noteq> [] then None
        else if c = CHR ''='' then quantum2 al a b else quantum3 al a b c
      else
        (case quantum4 al a b c d of
           None \<Rightarrow> None
         | Some bs \<Rightarrow> map_option (\<lambda>t. bs @ t) (decodeQuanta al padded s)))"

definition decode64 :: "alphabet \<Rightarrow> bool \<Rightarrow> string \<Rightarrow> string option" where
  "decode64 al padded data =
     decodeQuanta al padded (filter (\<lambda>c. c \<noteq> CHR 0x0A \<and> c \<noteq> CHR 0x0D) data)"

section \<open>The bytes cases of marshalFieldValue and unmarshalFieldValue\<close>

definition unmarshalBytes :: "string \<Rightarrow> string option" where
  "unmarshalBytes data =
     (let enc = (if CHR ''-'' \<in> set data \<or> CHR ''_'' \<in> set data then URLEncoding else StdEncoding);
          padded = (length data mod 4 = 0)
      in decode64 enc padded data)"

definition marshalBytes :: "string \<Rightarrow> string" where
  "marshalBytes src = encode64 URLEncoding src"

section \<open>Reading back\<close>

definition to_std :: "char \<Rightarrow> char" where
  "to_std c = (if c = CHR ''-'' then CHR ''+'' else if c = CHR ''_'' then CHR ''/'' else c)"

lemma symbol_table:
  "list_all (\<lambda>n. symbolValue StdEncoding (symbol StdEncoding n) = Some n) [0..<64]"
  "list_all (\<lambda>n. symbolValue URLEncoding (symbol URLEncoding n) = Some n) [0..<64]"
  "list_all (\<lambda>n. symbol StdEncoding n \<notin> set [CHR ''='', CHR ''-'', CHR ''_'', CHR 0x0A, CHR 0x0D]) [0..<64]"
  "list_all (\<lambda>n. symbol URLEncoding n \<notin> set [CHR ''='', CHR 0x0A, CHR 0x0D]) [0..<64]"
  "list_all (\<lambda>n. to_std (symbol URLEncoding n) = symbol StdEncoding n) [0..<64]"
  by code_simp+

lemma in_table: "list_all P [0..<64] \<Longrightarrow> n < 64 \<Longrightarrow> P n"
  by (simp add: list_all_iff)

lemma symbolValue_symbol [simp]: "n < 64 \<Longrightarrow> symbolValue al (symbol al n) = Some n"
  by (cases al) (blast intro: in_table [OF symbol_table(1)] in_table [OF symbol_table(2)])+

lemma symbol_plain: "n < 64 \<Longrightarrow> symbol al n \<notin> set [CHR ''='', CHR 0x0A, CHR 0x0D]"
proof (cases al)
  case StdEncoding
  assume "n < 64"
  from in_table [OF symbol_table(3) this] show ?thesis
    unfolding StdEncoding by simp
next
  case URLEncoding
  assume "n < 64"
  from in_table [OF symbol_table(4) this] show ?thesis
    unfolding URLEncoding .
qed

lemma symbol_not_pad [simp]:
  "n < 64 \<Longrightarrow> symbol al n \<noteq> CHR ''=''" "n < 64 \<Longrightarrow> symbol al n \<noteq> CHR 0x0A"
  "n < 64 \<Longrightarrow> symbol al n \<noteq> CHR 0x0D"
  using symbol_plain [of n al] by simp_all

lemma symbol_std: "n < 64 \<Longrightarrow> symbol StdEncoding n \<noteq> CHR ''-'' \<and> symbol StdEncoding n \<noteq> CHR ''_''"
  using in_table [OF symbol_table(3), of n] by simp

lemma symbol_url [simp]: "n < 64 \<Longrightarrow> to_std (symbol URLEncoding n) = symbol StdEncoding n"
  using in_table [OF symbol_table(5), of n] by simp

lemma to_std_pad: "to_std CHR ''='' = CHR ''=''"
  by (simp add: to_std_def)

lemma val8_less [simp]: "(of_char c :: nat) < 256"
  using unsigned_less [of "byte_of c"] by (simp add: unat_byte_of)

lemma bounds6 [simp]:
  "(of_char a :: nat) div 4 < 64" "((of_char a :: nat) mod 4) * 16 < 64"
  "((of_char a :: nat) mod 4) * 16 + of_char b div 16 < 64" "((of_char b :: nat) mod 16) * 4 < 64"
  "((of_char b :: nat) mod 16) * 4 + of_char c div 64 < 64" "(of_char c :: nat) mod 64 < 64"
proof -
  have "(of_char a :: nat) < 256" "(of_char b :: nat) < 256" "(of_char c :: nat) < 256"
    by simp_all
  then have "(of_char a :: nat) div 4 < 64" "(of_char b :: nat) div 16 < 16" "(of_char c :: nat) div 64 < 4"
    by (simp_all add: less_mult_imp_div_less)
  moreover have "(of_char a :: nat) mod 4 < 4" "(of_char b :: nat) mod 16 < 16"
    by simp_all
  ultimately show "(of_char a :: nat) div 4 < 64" "((of_char a :: nat) mod 4) * 16 < 64"
    "((of_char a :: nat) mod 4) * 16 + of_char b div 16 < 64" "((of_char b :: nat) mod 16) * 4 < 64"
    "((of_char b :: nat) mod 16) * 4 + of_char c div 64 < 64" "(of_char c :: nat) mod 64 < 64"
    by linarith+
qed

lemma nibbles8 [simp]:
  "(of_char c :: nat) div 16 div 16 = 0" "(of_char c :: nat) div 16 mod 16 = of_char c div 16"
  "(of_char c :: nat) div 64 div 4 = 0" "(of_char c :: nat) div 64 mod 4 = of_char c div 64"
proof -
  have c: "(of_char c :: nat) < 256" by simp
  then have "(of_char c :: nat) div 16 < 16" "(of_char c :: nat) div 64 < 4"
    by (simp_all add: less_mult_imp_div_less)
  then show "(of_char c :: nat) div 16 div 16 = 0" "(of_char c :: nat) div 16 mod 16 = of_char c div 16"
    "(of_char c :: nat) div 64 div 4 = 0" "(of_char c :: nat) div 64 mod 4 = of_char c div 64"
    by simp_all
qed

lemma decode_encode_quanta:
  "decodeQuanta al True (encode64 al s) = Some s"
  by (induction al s rule: encode64.induct)
     (simp_all add: quantum2_def quantum3_def quantum4_def)

lemma decode_encode_unpadded:
  "decodeQuanta al False (filter (\<lambda>c. c \<noteq> CHR ''='') (encode64 al s)) = Some s"
  by (induction al s rule: encode64.induct)
     (simp_all add: quantum2_def quantum3_def quantum4_def)

lemma encode64_plain: "c \<in> set (encode64 al s) \<Longrightarrow> c \<noteq> CHR 0x0A \<and> c \<noteq> CHR 0x0D"
  by (induction al s rule: encode64.induct) auto

lemma encode64_filter:
  "filter (\<lambda>c. c \<noteq> CHR 0x0A \<and> c \<noteq> CHR 0x0D) (encode64 al s) = encode64 al s"
  using encode64_plain by (intro filter_True) blast

lemma length_encode64: "length (encode64 al s) mod 4 = 0"
  by (induction al s rule: encode64.induct) simp_all

text \<open>Without its padding an encoding has a length not divisible by four, or had none.\<close>

definition unpad :: "string \<Rightarrow> string" where
  "unpad = filter (\<lambda>c. c \<noteq> CHR ''='')"

lemma unpad_length:
  "length (unpad (encode64 al s)) mod 4 = 0 \<Longrightarrow> unpad (encode64 al s) = encode64 al s"
  by (induction al s rule: encode64.induct) (simp_all add: unpad_def)

lemma encode64_std: "c \<in> set (encode64 StdEncoding s) \<Longrightarrow> c \<noteq> CHR ''-'' \<and> c \<noteq> CHR ''_''"
  by (induction StdEncoding s rule: encode64.induct) (use symbol_std in \<open>auto simp del: symbols.simps\<close>)

lemma encode64_to_std: "map to_std (encode64 URLEncoding s) = encode64 StdEncoding s"
  by (induction URLEncoding s rule: encode64.induct) (simp_all add: to_std_pad)

lemma encode64_url:
  "CHR ''-'' \<notin> set (encode64 URLEncoding s) \<Longrightarrow> CHR ''_'' \<notin> set (encode64 URLEncoding s) \<Longrightarrow>
   encode64 URLEncoding s = encode64 StdEncoding s"
  unfolding encode64_to_std [symmetric] by (rule map_idI [symmetric]) (auto simp: to_std_def)

lemma unpad_filter: "filter (\<lambda>c. c \<noteq> CHR 0x0A \<and> c \<noteq> CHR 0x0D) (unpad (encode64 al s)) = unpad (encode64 al s)"
  unfolding unpad_def using encode64_plain by (intro filter_True) auto

text \<open>The alphabet that is chosen reads the text as the alphabet that wrote it.\<close>

definition chosen :: "string \<Rightarrow> alphabet" where
  "chosen data = (if CHR ''-'' \<in> set data \<or> CHR ''_'' \<in> set data then URLEncoding else StdEncoding)"

lemma chosen_encode: "encode64 (chosen (encode64 al s)) s = encode64 al s"
proof (cases al)
  case StdEncoding
  then show ?thesis using encode64_std [of _ s] by (auto simp: chosen_def)
next
  case URLEncoding
  then show ?thesis using encode64_url [of s] by (simp add: chosen_def)
qed

lemma chosen_unpad: "chosen (unpad data) = chosen data"
  by (simp add: chosen_def unpad_def)

lemma unmarshalBytes_chosen: "unmarshalBytes data = decode64 (chosen data) (length data mod 4 = 0) data"
  by (simp add: unmarshalBytes_def chosen_def Let_def)

lemma unmarshalBytes_padded: "unmarshalBytes (encode64 al s) = Some s"
proof -
  let ?al = "chosen (encode64 al s)"
  have "unmarshalBytes (encode64 al s) = decode64 ?al True (encode64 ?al s)"
    unfolding unmarshalBytes_chosen chosen_encode length_encode64 by simp
  then show ?thesis
    by (simp add: decode64_def encode64_filter decode_encode_quanta)
qed

lemma unmarshalBytes_unpadded: "unmarshalBytes (unpad (encode64 al s)) = Some s"
proof (cases "length (unpad (encode64 al s)) mod 4 = 0")
  case True
  then show ?thesis
    using unpad_length unmarshalBytes_padded by metis
next
  case False
  let ?al = "chosen (encode64 al s)"
  have "unmarshalBytes (unpad (encode64 al s)) = decode64 ?al False (unpad (encode64 ?al s))"
    unfolding unmarshalBytes_chosen chosen_encode chosen_unpad using False by simp
  then show ?thesis
    unfolding decode64_def unpad_filter using decode_encode_unpadded [of ?al s] by (simp add: unpad_def)
qed

section \<open>Properties\<close>

text \<open>Bytes written as a parameter are read back unchanged; and the reader also reads the
  other usual forms, the standard as well as the URL alphabet, each with padding and with
  its padding removed.\<close>

theorem bytes_read_back:
  "unmarshalBytes (marshalBytes s) = Some s \<and>
   unmarshalBytes (encode64 al s) = Some s \<and> unmarshalBytes (unpad (encode64 al s)) = Some s"
  using unmarshalBytes_padded unmarshalBytes_unpadded by (simp add: marshalBytes_def)

end
