(* ===== verification/Params.thy ===== *)
theory Params
  imports PathGrammar FieldPaths Numbers Base64 Errors
begin

text \<open>
  Parameters in URLs: \<open>params.go\<close>.  A value of \<open>protoreflect\<close> is a \<open>pvalue\<close>; a message is an
  element of a type \<open>'v\<close> that only the operations of the record \<open>paramlib\<close> read and change.
  The record holds what the file uses of other packages: messages and enum descriptors,
  \<open>protojson\<close>, and of the standard library the floating-point and quoting functions; floats
  are elements of a type \<open>'f\<close>.  \<open>Mutable(field).Message()\<close> gives a reference into the parent,
  so changing the child is a \<open>Set\<close> on the parent.  \<open>Panic\<close> stands for a call that
  \<open>protoreflect\<close> or Go refuses by panicking.
\<close>

section \<open>Values\<close>

datatype ('f, 'v) pvalue =
    VBool bool
  | VInt32 "32 word"
  | VInt64 "64 word"
  | VUint32 "32 word"
  | VUint64 "64 word"
  | VFloat 'f
  | VDouble 'f
  | VString string
  | VBytes string
  | VEnum "32 word"
  | VMessage 'v
  | VList "('f, 'v) pvalue list"

datatype paramError =
    Panic
  | JSONError string
  | Base64Error string
  | UnknownEnum string
  | UnknownEnumValue "32 word"
  | UnsupportedMessage string
  | ProtoError string
  | UnquoteError string
  | IndexOutOfRange int string

record ('f, 'fld, 'v) paramlib =
  parseFloat :: "nat \<Rightarrow> string \<Rightarrow> 'f option"
  jsonFloat :: "nat \<Rightarrow> string \<Rightarrow> 'f option"
  marshalJSONFloat :: "nat \<Rightarrow> 'f \<Rightarrow> paramError + string"
  NaN :: 'f
  PosInf :: 'f
  NegInf :: 'f
  isNaN :: "'f \<Rightarrow> bool"
  isPosInf :: "'f \<Rightarrow> bool"
  isNegInf :: "'f \<Rightarrow> bool"
  enumByName :: "'fld \<Rightarrow> string \<Rightarrow> 32 word option"
  enumByNumber :: "'fld \<Rightarrow> 32 word \<Rightarrow> string option"
  enumFullName :: "'fld \<Rightarrow> string option"
  valueField :: "'fld \<Rightarrow> 'fld"
  mget :: "'v \<Rightarrow> 'fld \<Rightarrow> ('f, 'v) pvalue"
  mset :: "'v \<Rightarrow> 'fld \<Rightarrow> ('f, 'v) pvalue \<Rightarrow> 'v"
  newField :: "'v \<Rightarrow> 'fld \<Rightarrow> 'v"
  protojsonUnmarshal :: "string \<Rightarrow> 'v \<Rightarrow> paramError + 'v"
  protojsonMarshal :: "'v \<Rightarrow> paramError + string"
  jsonValid :: "string \<Rightarrow> bool"
  appendQuote :: "string \<Rightarrow> string"
  strconvUnquote :: "string \<Rightarrow> string option"

section \<open>Parameter types\<close>

text \<open>A field of message kind has a message descriptor, so the case \<open>None\<close> does not arise.\<close>

definition isWKTWithScalarJSONMapping :: "('mtd, 'msg, 'fld) reflect \<Rightarrow> 'fld \<Rightarrow> bool" where
  "isWKTWithScalarJSONMapping R field =
     (case Message R field of
        None \<Rightarrow> False
      | Some m \<Rightarrow>
          if Kind R field \<noteq> MessageKind \<or> \<not> has_prefix (FullName R m) ''google.protobuf.'' then False
          else MsgName R m \<in> {''BoolValue'', ''BytesValue'', ''DoubleValue'', ''Duration'', ''Empty'',
                 ''FieldMask'', ''FloatValue'', ''Int32Value'', ''Int64Value'', ''NullValue'',
                 ''StringValue'', ''Timestamp'', ''UInt32Value'', ''UInt64Value''})"

definition isParameterType :: "('mtd, 'msg, 'fld) reflect \<Rightarrow> 'fld \<Rightarrow> bool" where
  "isParameterType R field =
     (Kind R field \<noteq> GroupKind \<and>
      (Kind R field \<noteq> MessageKind \<or> isWKTWithScalarJSONMapping R field))"

definition isNullValue :: "('f, 'fld, 'v) paramlib \<Rightarrow> 'fld \<Rightarrow> bool" where
  "isNullValue L field = (enumFullName L field = Some ''google.protobuf.NullValue'')"

definition quote :: "('f, 'fld, 'v) paramlib \<Rightarrow> string \<Rightarrow> string" where
  "quote L raw =
     (if length raw = 0 \<or> raw ! 0 \<noteq> CHR 0x22 \<or> \<not> jsonValid L raw then appendQuote L raw else raw)"

definition unquote :: "('f, 'fld, 'v) paramlib \<Rightarrow> string \<Rightarrow> paramError + string" where
  "unquote L raw =
     (case strconvUnquote L raw of Some value \<Rightarrow> Inr value | None \<Rightarrow> Inl (UnquoteError raw))"

section \<open>Reading a parameter\<close>

definition ok_or :: "'e \<Rightarrow> 'a option \<Rightarrow> 'e + 'a" where
  "ok_or e x = (case x of Some a \<Rightarrow> Inr a | None \<Rightarrow> Inl e)"

definition unmarshalFloat :: "('f, 'fld, 'v) paramlib \<Rightarrow> string \<Rightarrow> nat \<Rightarrow> paramError + 'f" where
  "unmarshalFloat L data bitSize =
     (if data = ''NaN'' then Inr (NaN L)
      else if data = ''Infinity'' then Inr (PosInf L)
      else if data = ''-Infinity'' then Inr (NegInf L)
      else ok_or (JSONError data) (unmarshalNumber (parseFloat L bitSize) (jsonFloat L bitSize) data))"

text \<open>\<open>json.Unmarshal\<close> into a bool: white space, then true, false, or null for no change.\<close>

definition jsonBool :: "string \<Rightarrow> bool option" where
  "jsonBool data =
     (let t = trimSpace data in
      if t = ''true'' then Some True else if t = ''false'' \<or> t = ''null'' then Some False else None)"

definition unmarshalEnum :: "('f, 'fld, 'v) paramlib \<Rightarrow> 'fld \<Rightarrow> string \<Rightarrow> paramError + 32 word" where
  "unmarshalEnum L field data =
     (case unmarshalInt 32 data of
        Some x \<Rightarrow> Inr (word_of_int x)
      | None \<Rightarrow>
          if isNullValue L field \<and> data = ''null'' then Inr 0
          else ok_or (UnknownEnum data) (enumByName L field data))"

text \<open>The cases of \<open>unmarshalFieldValue\<close> other than messages.\<close>

definition unmarshalScalar ::
  "('mtd, 'msg, 'fld) reflect \<Rightarrow> ('f, 'fld, 'v) paramlib \<Rightarrow> 'fld \<Rightarrow> string \<Rightarrow>
   paramError + ('f, 'v) pvalue"
where
  "unmarshalScalar R L field data =
     (case Kind R field of
        BoolKind \<Rightarrow>
          if data = ''true'' then Inr (VBool True)
          else if data = ''false'' then Inr (VBool False)
          else map_sum id VBool (ok_or (JSONError data) (jsonBool data))
      | Int32Kind \<Rightarrow> map_sum id (VInt32 \<circ> word_of_int) (ok_or (JSONError data) (unmarshalInt 32 data))
      | Sint32Kind \<Rightarrow> map_sum id (VInt32 \<circ> word_of_int) (ok_or (JSONError data) (unmarshalInt 32 data))
      | Sfixed32Kind \<Rightarrow> map_sum id (VInt32 \<circ> word_of_int) (ok_or (JSONError data) (unmarshalInt 32 data))
      | Int64Kind \<Rightarrow> map_sum id (VInt64 \<circ> word_of_int) (ok_or (JSONError data) (unmarshalInt 64 data))
      | Sint64Kind \<Rightarrow> map_sum id (VInt64 \<circ> word_of_int) (ok_or (JSONError data) (unmarshalInt 64 data))
      | Sfixed64Kind \<Rightarrow> map_sum id (VInt64 \<circ> word_of_int) (ok_or (JSONError data) (unmarshalInt 64 data))
      | Uint32Kind \<Rightarrow> map_sum id (VUint32 \<circ> of_nat) (ok_or (JSONError data) (unmarshalUint 32 data))
      | Fixed32Kind \<Rightarrow> map_sum id (VUint32 \<circ> of_nat) (ok_or (JSONError data) (unmarshalUint 32 data))
      | Uint64Kind \<Rightarrow> map_sum id (VUint64 \<circ> of_nat) (ok_or (JSONError data) (unmarshalUint 64 data))
      | Fixed64Kind \<Rightarrow> map_sum id (VUint64 \<circ> of_nat) (ok_or (JSONError data) (unmarshalUint 64 data))
      | FloatKind \<Rightarrow> map_sum id VFloat (unmarshalFloat L data 32)
      | DoubleKind \<Rightarrow> map_sum id VDouble (unmarshalFloat L data 64)
      | StringKind \<Rightarrow> Inr (VString data)
      | BytesKind \<Rightarrow> map_sum id VBytes (ok_or (Base64Error data) (unmarshalBytes data))
      | EnumKind \<Rightarrow> map_sum id VEnum (unmarshalEnum L field data)
      | MessageKind \<Rightarrow> Inl Panic
      | GroupKind \<Rightarrow> Inl Panic)"

definition unmarshalFieldMessage ::
  "('f, 'fld, 'v) paramlib \<Rightarrow> 'v \<Rightarrow> 'fld \<Rightarrow> string \<Rightarrow> paramError + ('f, 'v) pvalue"
where
  "unmarshalFieldMessage L msg field data =
     map_sum id VMessage (protojsonUnmarshal L data (newField L msg field))"

definition messageName :: "('mtd, 'msg, 'fld) reflect \<Rightarrow> 'fld \<Rightarrow> string" where
  "messageName R field = (case Message R field of Some m \<Rightarrow> MsgName R m | None \<Rightarrow> [])"

definition messageFullName :: "('mtd, 'msg, 'fld) reflect \<Rightarrow> 'fld \<Rightarrow> string" where
  "messageFullName R field = (case Message R field of Some m \<Rightarrow> FullName R m | None \<Rightarrow> [])"

text \<open>
  The field \<open>value\<close> of a \<open>DoubleValue\<close> or \<open>FloatValue\<close> is a number, so the recursive call of
  the source is a call of \<open>unmarshalScalar\<close>.
\<close>

definition unmarshalFieldWKT ::
  "('mtd, 'msg, 'fld) reflect \<Rightarrow> ('f, 'fld, 'v) paramlib \<Rightarrow> 'v \<Rightarrow> 'fld \<Rightarrow> string \<Rightarrow>
   paramError + ('f, 'v) pvalue"
where
  "unmarshalFieldWKT R L msg field data =
     (if \<not> isWKTWithScalarJSONMapping R field then Inl (UnsupportedMessage (messageFullName R field))
      else if messageName R field \<in> {''DoubleValue'', ''FloatValue''} then
        (let value = newField L msg field; subField = valueField L field in
         case unmarshalScalar R L subField data of
           Inl e \<Rightarrow> Inl e
         | Inr subValue \<Rightarrow> Inr (VMessage (mset L value subField subValue)))
      else if messageName R field \<in> {''Timestamp'', ''Duration'', ''BytesValue'', ''StringValue'', ''FieldMask''}
      then unmarshalFieldMessage L msg field (quote L data)
      else unmarshalFieldMessage L msg field data)"

definition unmarshalFieldValue ::
  "('mtd, 'msg, 'fld) reflect \<Rightarrow> ('f, 'fld, 'v) paramlib \<Rightarrow> 'v \<Rightarrow> 'fld \<Rightarrow> string \<Rightarrow>
   paramError + ('f, 'v) pvalue"
where
  "unmarshalFieldValue R L msg field data =
     (if Kind R field = MessageKind \<or> Kind R field = GroupKind
      then unmarshalFieldWKT R L msg field data
      else unmarshalScalar R L field data)"

section \<open>Writing a parameter\<close>

definition marshalFloat :: "('f, 'fld, 'v) paramlib \<Rightarrow> 'f \<Rightarrow> nat \<Rightarrow> paramError + string" where
  "marshalFloat L num bitSize =
     (if isNaN L num then Inr ''NaN''
      else if isPosInf L num then Inr ''Infinity''
      else if isNegInf L num then Inr ''-Infinity''
      else marshalJSONFloat L bitSize num)"

definition marshalBool :: "bool \<Rightarrow> string" where
  "marshalBool b = (if b then ''true'' else ''false'')"

text \<open>The cases of \<open>marshalFieldValue\<close> other than messages; a value of another type panics.\<close>

definition marshalScalar ::
  "('f, 'fld, 'v) paramlib \<Rightarrow> 'fld \<Rightarrow> kind \<Rightarrow> ('f, 'v) pvalue \<Rightarrow> paramError + string"
where
  "marshalScalar L field k value =
     (case value of
        VBool b \<Rightarrow> if k = BoolKind then Inr (marshalBool b) else Inl Panic
      | VInt32 w \<Rightarrow>
          if k \<in> {Int32Kind, Sint32Kind, Sfixed32Kind} then Inr (decimal (sint w)) else Inl Panic
      | VInt64 w \<Rightarrow>
          if k \<in> {Int64Kind, Sint64Kind, Sfixed64Kind} then Inr (decimal (sint w)) else Inl Panic
      | VUint32 w \<Rightarrow> if k \<in> {Uint32Kind, Fixed32Kind} then Inr (decimal (uint w)) else Inl Panic
      | VUint64 w \<Rightarrow> if k \<in> {Uint64Kind, Fixed64Kind} then Inr (decimal (uint w)) else Inl Panic
      | VFloat x \<Rightarrow> if k = FloatKind then marshalFloat L x 32 else Inl Panic
      | VDouble x \<Rightarrow> if k = DoubleKind then marshalFloat L x 64 else Inl Panic
      | VString s \<Rightarrow> if k = StringKind then Inr s else Inl Panic
      | VBytes s \<Rightarrow> if k = BytesKind then Inr (marshalBytes s) else Inl Panic
      | VEnum n \<Rightarrow>
          if k = EnumKind then ok_or (UnknownEnumValue n) (enumByNumber L field n) else Inl Panic
      | _ \<Rightarrow> Inl Panic)"

definition marshalFieldWKT ::
  "('mtd, 'msg, 'fld) reflect \<Rightarrow> ('f, 'fld, 'v) paramlib \<Rightarrow> 'fld \<Rightarrow> ('f, 'v) pvalue \<Rightarrow> paramError + string"
where
  "marshalFieldWKT R L field value =
     (if \<not> isWKTWithScalarJSONMapping R field then Inl (UnsupportedMessage (messageFullName R field))
      else
        (case value of
           VMessage m \<Rightarrow>
             if messageName R field \<in> {''BytesValue'', ''DoubleValue'', ''FloatValue''} then
               (let sub = valueField L field in marshalScalar L sub (Kind R sub) (mget L m sub))
             else
               (case protojsonMarshal L m of
                  Inl e \<Rightarrow> Inl e
                | Inr data \<Rightarrow>
                    if messageName R field \<in> {''Timestamp'', ''Duration'', ''StringValue'', ''FieldMask'',
                         ''Int64Value'', ''UInt64Value''}
                    then unquote L data else Inr data)
         | _ \<Rightarrow> Inl Panic))"

definition marshalFieldValue ::
  "('mtd, 'msg, 'fld) reflect \<Rightarrow> ('f, 'fld, 'v) paramlib \<Rightarrow> 'fld \<Rightarrow> ('f, 'v) pvalue \<Rightarrow> paramError + string"
where
  "marshalFieldValue R L field value =
     (if Kind R field = MessageKind \<or> Kind R field = GroupKind
      then marshalFieldWKT R L field value
      else marshalScalar L field (Kind R field) value)"

section \<open>Parameters of a message\<close>

text \<open>The last field of a path in the message it belongs to, and the message after the call.\<close>

fun setPath ::
  "('mtd, 'msg, 'fld) reflect \<Rightarrow> ('f, 'fld, 'v) paramlib \<Rightarrow> 'v \<Rightarrow> 'fld list \<Rightarrow> string \<Rightarrow>
   paramError option \<times> 'v"
where
  "setPath R L leaf [] param = (Some Panic, leaf)"
| "setPath R L leaf [field] param =
     (case unmarshalFieldValue R L leaf field param of
        Inl e \<Rightarrow> (Some e, leaf)
      | Inr value \<Rightarrow>
          if IsList R field then
            (case mget L leaf field of
               VList l \<Rightarrow> (None, mset L leaf field (VList (l @ [value])))
             | _ \<Rightarrow> (Some Panic, leaf))
          else (None, mset L leaf field value))"
| "setPath R L leaf (field # f # flds) param =
     (case mget L leaf field of
        VMessage child \<Rightarrow>
          (let (e, child') = setPath R L child (f # flds) param
           in (e, mset L leaf field (VMessage child')))
      | _ \<Rightarrow> (Some Panic, leaf))"

text \<open>The text of the error depends on the kind of failure; \<open>describe\<close> builds it.\<close>

definition setParameter ::
  "('mtd, 'msg, 'fld) reflect \<Rightarrow> ('f, 'fld, 'v) paramlib \<Rightarrow> (string \<Rightarrow> paramError \<Rightarrow> string \<Rightarrow> string) \<Rightarrow>
   'v \<Rightarrow> 'fld list \<Rightarrow> string \<Rightarrow> connectError option \<times> 'v"
where
  "setParameter R L describe msg flds param =
     (case setPath R L msg flds param of
        (None, msg') \<Rightarrow> (None, msg')
      | (Some e, msg') \<Rightarrow>
          (Some (newError CodeInvalidArgument
             (describe (resolveFieldDescriptorsToPath R flds False) e param)), msg'))"

fun getPath ::
  "('mtd, 'msg, 'fld) reflect \<Rightarrow> ('f, 'fld, 'v) paramlib \<Rightarrow> 'v \<Rightarrow> 'fld list \<Rightarrow> int \<Rightarrow>
   (paramError + string) \<times> 'v"
where
  "getPath R L leaf [] index = (Inl Panic, leaf)"
| "getPath R L leaf [field] index =
     (if IsList R field then
        (case mget L leaf field of
           VList l \<Rightarrow>
             if index > int (length l) then (Inl (IndexOutOfRange index (FieldName R field)), leaf)
             else if index < 0 \<or> index \<ge> int (length l) then (Inl Panic, leaf)
             else (marshalFieldValue R L field (l ! nat index), leaf)
         | _ \<Rightarrow> (Inl Panic, leaf))
      else (marshalFieldValue R L field (mget L leaf field), leaf))"
| "getPath R L leaf (field # f # flds) index =
     (case mget L leaf field of
        VMessage child \<Rightarrow>
          (let (r, child') = getPath R L child (f # flds) index
           in (r, mset L leaf field (VMessage child')))
      | _ \<Rightarrow> (Inl Panic, leaf))"

definition getParameter ::
  "('mtd, 'msg, 'fld) reflect \<Rightarrow> ('f, 'fld, 'v) paramlib \<Rightarrow> 'v \<Rightarrow> 'fld list \<Rightarrow> int \<Rightarrow>
   (paramError + string) \<times> 'v"
where
  "getParameter R L msg flds index = getPath R L msg flds index"

section \<open>Scalars are read back\<close>

text \<open>What protobuf documents: enum names are identifiers, and a name and its number agree.\<close>

definition lawful_enum :: "('f, 'fld, 'v) paramlib \<Rightarrow> 'fld \<Rightarrow> bool" where
  "lawful_enum L field \<longleftrightarrow>
     (\<forall>n name. enumByNumber L field n = Some name \<longrightarrow>
        is_ident name \<and> name \<noteq> ''null'' \<and> enumByName L field name = Some n)"

text \<open>
  What \<open>strconv\<close> and \<open>encoding/json\<close> document about floats: the text of a finite number is a
  JSON number that parses back to it; \<open>NaN\<close> is one value here.
\<close>

definition lawful_float :: "('f, 'fld, 'v) paramlib \<Rightarrow> bool" where
  "lawful_float L \<longleftrightarrow>
     (\<forall>x. isNaN L x \<longrightarrow> x = NaN L) \<and> (\<forall>x. isPosInf L x \<longrightarrow> x = PosInf L) \<and>
     (\<forall>x. isNegInf L x \<longrightarrow> x = NegInf L) \<and>
     (\<forall>b x. \<not> isNaN L x \<longrightarrow> \<not> isPosInf L x \<longrightarrow> \<not> isNegInf L x \<longrightarrow>
        (\<exists>s. marshalJSONFloat L b x = Inr s \<and> isJSONNumber s \<and> parseFloat L b s = Some x))"

lemma ok_or_simps [simp]: "ok_or e (Some x) = Inr x" "ok_or e None = Inl e"
  by (simp_all add: ok_or_def)

lemma sint_range:
  fixes w :: "'a::len word"
  shows "- (2 ^ (LENGTH('a) - 1)) \<le> sint w" and "sint w < 2 ^ (LENGTH('a) - 1)"
  using sint_greater_eq [of w] sint_less [of w] by simp_all

lemma unmarshalInt_sint32: "unmarshalInt 32 (decimal (sint (w :: 32 word))) = Some (sint w)"
  using sint_range [of w] by (simp add: unmarshalInt_decimal)

lemma unmarshalInt_sint64: "unmarshalInt 64 (decimal (sint (w :: 64 word))) = Some (sint w)"
  using sint_range [of w] by (simp add: unmarshalInt_decimal)

lemma unmarshalUint_uint32: "unmarshalUint 32 (decimal (uint (w :: 32 word))) = Some (unat w)"
proof -
  have "unat w < 2 ^ 32"
    using unsigned_less [of w] by simp
  then show ?thesis
    using unmarshalUint_decimal [of 32 "unat w"] by simp
qed

lemma unmarshalUint_uint64: "unmarshalUint 64 (decimal (uint (w :: 64 word))) = Some (unat w)"
proof -
  have "unat w < 2 ^ 64"
    using unsigned_less [of w] by simp
  then show ?thesis
    using unmarshalUint_decimal [of 64 "unat w"] by simp
qed

lemma number_not_special:
  "isJSONNumber s \<Longrightarrow> s \<noteq> ''NaN'' \<and> s \<noteq> ''Infinity'' \<and> s \<noteq> ''-Infinity''"
proof -
  have "\<not> isJSONNumber ''NaN''" "\<not> isJSONNumber ''Infinity''" "\<not> isJSONNumber ''-Infinity''"
    by code_simp+
  then show "isJSONNumber s \<Longrightarrow> ?thesis" by blast
qed

lemma marshalFloat_back:
  assumes "lawful_float L"
  shows "\<exists>s. marshalFloat L x b = Inr s \<and> unmarshalFloat L s b = Inr x"
proof (cases "isNaN L x \<or> isPosInf L x \<or> isNegInf L x")
  case True
  then show ?thesis
    using assms by (auto simp: lawful_float_def marshalFloat_def unmarshalFloat_def)
next
  case False
  then obtain s where s: "marshalJSONFloat L b x = Inr s" "isJSONNumber s" "parseFloat L b s = Some x"
    using assms unfolding lawful_float_def by blast
  then show ?thesis
    using False number_not_special [OF s(2)]
    by (simp add: marshalFloat_def unmarshalFloat_def unmarshalNumber_def)
qed

lemma ident_not_number: "is_ident s \<Longrightarrow> \<not> isJSONNumber s"
proof -
  have start: "list_all (\<lambda>c. \<not> isIdentStart c) ''-0123456789''"
    by code_simp
  assume s: "is_ident s"
  show ?thesis
  proof
    assume "isJSONNumber s"
    then obtain sign i f e where *: "s = sign @ i @ f @ e" "sign \<in> {'''', ''-''}" "json_int i"
      unfolding isJSONNumber_iff json_number_def by blast
    have "hd s \<in> set ''-0123456789''"
      using * json_int_head [OF *(3)] by (cases i) (auto simp: isDigit_def)
    then show False
      using start s unfolding list_all_iff is_ident_def by blast
  qed
qed

lemma ident_trim: "is_ident s \<Longrightarrow> trimSpace s = s"
proof (rule trimSpace_plain, intro ballI)
  have space: "list_all (\<lambda>c. \<not> isIdent c) [CHR '' '', CHR 0x09, CHR 0x0A, CHR 0x0D]"
    by code_simp
  fix c
  assume "is_ident s" "c \<in> set s"
  then have "isIdent c"
    by (simp add: is_ident_def list_all_iff)
  then show "\<not> isSpace c"
    using space unfolding list_all_iff isSpace_def by blast
qed

lemma unmarshalInt_ident: "is_ident s \<Longrightarrow> s \<noteq> ''null'' \<Longrightarrow> unmarshalInt bits s = None"
  by (simp add: unmarshalInt_def unmarshalNumber_def jsonInteger_def ident_not_number ident_trim)

definition scalar_value :: "kind \<Rightarrow> ('f, 'v) pvalue \<Rightarrow> bool" where
  "scalar_value k value =
     (case value of
        VBool b \<Rightarrow> k = BoolKind
      | VInt32 w \<Rightarrow> k \<in> {Int32Kind, Sint32Kind, Sfixed32Kind}
      | VInt64 w \<Rightarrow> k \<in> {Int64Kind, Sint64Kind, Sfixed64Kind}
      | VUint32 w \<Rightarrow> k \<in> {Uint32Kind, Fixed32Kind}
      | VUint64 w \<Rightarrow> k \<in> {Uint64Kind, Fixed64Kind}
      | VFloat x \<Rightarrow> k = FloatKind
      | VDouble x \<Rightarrow> k = DoubleKind
      | VString s \<Rightarrow> k = StringKind
      | VBytes s \<Rightarrow> k = BytesKind
      | VEnum n \<Rightarrow> k = EnumKind
      | _ \<Rightarrow> False)"

lemma unmarshalScalar_kinds:
  "Kind R field \<in> {Int32Kind, Sint32Kind, Sfixed32Kind} \<Longrightarrow>
     unmarshalScalar R L field data = map_sum id (VInt32 \<circ> word_of_int) (ok_or (JSONError data) (unmarshalInt 32 data))"
  "Kind R field \<in> {Int64Kind, Sint64Kind, Sfixed64Kind} \<Longrightarrow>
     unmarshalScalar R L field data = map_sum id (VInt64 \<circ> word_of_int) (ok_or (JSONError data) (unmarshalInt 64 data))"
  "Kind R field \<in> {Uint32Kind, Fixed32Kind} \<Longrightarrow>
     unmarshalScalar R L field data = map_sum id (VUint32 \<circ> of_nat) (ok_or (JSONError data) (unmarshalUint 32 data))"
  "Kind R field \<in> {Uint64Kind, Fixed64Kind} \<Longrightarrow>
     unmarshalScalar R L field data = map_sum id (VUint64 \<circ> of_nat) (ok_or (JSONError data) (unmarshalUint 64 data))"
  by (elim insertE emptyE; simp add: unmarshalScalar_def)+

lemma marshalScalar_back:
  assumes "scalar_value (Kind R field) v" and "lawful_float L" and "lawful_enum L field"
    and "marshalScalar L field (Kind R field) v = Inr s"
  shows "unmarshalScalar R L field s = Inr v"
proof (cases v)
  case (VBool b)
  then show ?thesis
    using assms by (cases b) (auto simp: scalar_value_def marshalScalar_def unmarshalScalar_def marshalBool_def)
next
  case (VInt32 w)
  have k: "Kind R field \<in> {Int32Kind, Sint32Kind, Sfixed32Kind}" and s: "s = decimal (sint w)"
    using assms(1,4) VInt32 by (auto simp: scalar_value_def marshalScalar_def)
  show ?thesis
    unfolding unmarshalScalar_kinds(1) [OF k] s unmarshalInt_sint32 VInt32 by simp
next
  case (VInt64 w)
  have k: "Kind R field \<in> {Int64Kind, Sint64Kind, Sfixed64Kind}" and s: "s = decimal (sint w)"
    using assms(1,4) VInt64 by (auto simp: scalar_value_def marshalScalar_def)
  show ?thesis
    unfolding unmarshalScalar_kinds(2) [OF k] s unmarshalInt_sint64 VInt64 by simp
next
  case (VUint32 w)
  have k: "Kind R field \<in> {Uint32Kind, Fixed32Kind}" and s: "s = decimal (uint w)"
    using assms(1,4) VUint32 by (auto simp: scalar_value_def marshalScalar_def)
  show ?thesis
    unfolding unmarshalScalar_kinds(3) [OF k] s unmarshalUint_uint32 VUint32 by simp
next
  case (VUint64 w)
  have k: "Kind R field \<in> {Uint64Kind, Fixed64Kind}" and s: "s = decimal (uint w)"
    using assms(1,4) VUint64 by (auto simp: scalar_value_def marshalScalar_def)
  show ?thesis
    unfolding unmarshalScalar_kinds(4) [OF k] s unmarshalUint_uint64 VUint64 by simp
next
  case (VFloat x)
  then show ?thesis
    using assms marshalFloat_back [OF assms(2), of x 32]
    by (auto simp: scalar_value_def marshalScalar_def unmarshalScalar_def)
next
  case (VDouble x)
  then show ?thesis
    using assms marshalFloat_back [OF assms(2), of x 64]
    by (auto simp: scalar_value_def marshalScalar_def unmarshalScalar_def)
next
  case (VString t)
  then show ?thesis
    using assms by (auto simp: scalar_value_def marshalScalar_def unmarshalScalar_def)
next
  case (VBytes t)
  then show ?thesis
    using assms unmarshalBytes_padded
    by (auto simp: scalar_value_def marshalScalar_def unmarshalScalar_def marshalBytes_def)
next
  case (VEnum n)
  then have k: "Kind R field = EnumKind" and "enumByNumber L field n = Some s"
    using assms(1,4) by (auto simp: scalar_value_def marshalScalar_def ok_or_def split: option.splits)
  then have "is_ident s" "s \<noteq> ''null''" "enumByName L field s = Some n"
    using assms(3) unfolding lawful_enum_def by blast+
  then show ?thesis
    using VEnum k by (simp add: unmarshalScalar_def unmarshalEnum_def unmarshalInt_ident)
qed (use assms in \<open>simp_all add: scalar_value_def\<close>)

section \<open>Parameters of messages\<close>

text \<open>What protobuf documents of a message: \<open>Get\<close> after \<open>Set\<close> of a field.\<close>

definition lawful_messages :: "('f, 'fld, 'v) paramlib \<Rightarrow> bool" where
  "lawful_messages L \<longleftrightarrow> (\<forall>m f v g. mget L (mset L m f v) g = (if g = f then v else mget L m g))"

fun leafValue :: "('f, 'fld, 'v) paramlib \<Rightarrow> 'v \<Rightarrow> 'fld list \<Rightarrow> ('f, 'v) pvalue option" where
  "leafValue L m [] = None"
| "leafValue L m [f] = Some (mget L m f)"
| "leafValue L m (f # g # fs) =
     (case mget L m f of VMessage child \<Rightarrow> leafValue L child (g # fs) | _ \<Rightarrow> None)"

lemma scalar_not_message: "scalar_value k v \<Longrightarrow> k \<noteq> MessageKind \<and> k \<noteq> GroupKind"
  by (auto simp: scalar_value_def split: pvalue.splits)

lemma getPath_leaf:
  "leafValue L m flds = Some v \<Longrightarrow> \<not> IsList R (last flds) \<Longrightarrow> scalar_value (Kind R (last flds)) v \<Longrightarrow>
   fst (getPath R L m flds index) = marshalScalar L (last flds) (Kind R (last flds)) v"
proof (induction L m flds rule: leafValue.induct)
  case (2 L m f)
  then show ?case
    using scalar_not_message [of "Kind R f" v] by (simp add: marshalFieldValue_def)
next
  case (3 L m f g fs)
  then show ?case
    by (auto split: pvalue.splits prod.splits)
qed simp

lemma setPath_leaf:
  "lawful_messages L \<Longrightarrow> leafValue L m flds = Some w \<Longrightarrow> \<not> IsList R (last flds) \<Longrightarrow>
   Kind R (last flds) \<noteq> MessageKind \<Longrightarrow> Kind R (last flds) \<noteq> GroupKind \<Longrightarrow>
   unmarshalScalar R L (last flds) s = Inr v \<Longrightarrow>
   fst (setPath R L m flds s) = None \<and> leafValue L (snd (setPath R L m flds s)) flds = Some v \<and>
   (\<forall>g. g \<noteq> hd flds \<longrightarrow> mget L (snd (setPath R L m flds s)) g = mget L m g)"
proof (induction L m flds rule: leafValue.induct)
  case (2 L m f)
  then show ?case
    by (simp add: unmarshalFieldValue_def lawful_messages_def)
next
  case (3 L m f g fs)
  then obtain child where child: "mget L m f = VMessage child"
    by (auto split: pvalue.splits)
  then show ?case
    using 3 by (auto simp: lawful_messages_def split: prod.splits)
qed simp

lemma parameter_transfer_lemma:
  assumes "lawful_messages L" and "lawful_float L" and "lawful_enum L (last flds)"
    and "\<not> IsList R (last flds)" and "leafValue L m flds = Some v"
    and "scalar_value (Kind R (last flds)) v" and "fst (getParameter R L m flds index) = Inr s"
    and "leafValue L dst flds = Some w"
  shows "fst (setParameter R L describe dst flds s) = None \<and>
    leafValue L (snd (setParameter R L describe dst flds s)) flds = Some v \<and>
    (\<forall>g. g \<noteq> hd flds \<longrightarrow> mget L (snd (setParameter R L describe dst flds s)) g = mget L dst g)"
proof -
  have "marshalScalar L (last flds) (Kind R (last flds)) v = Inr s"
    using getPath_leaf [OF assms(5,4,6), of index] assms(7) by (simp add: getParameter_def)
  then have "unmarshalScalar R L (last flds) s = Inr v"
    by (rule marshalScalar_back [OF assms(6,2,3)])
  moreover have "Kind R (last flds) \<noteq> MessageKind" "Kind R (last flds) \<noteq> GroupKind"
    using scalar_not_message [OF assms(6)] by simp_all
  ultimately have set: "fst (setPath R L dst flds s) = None \<and>
      leafValue L (snd (setPath R L dst flds s)) flds = Some v \<and>
      (\<forall>g. g \<noteq> hd flds \<longrightarrow> mget L (snd (setPath R L dst flds s)) g = mget L dst g)"
    using setPath_leaf [OF assms(1,8,4)] by blast
  then show ?thesis
    unfolding setParameter_def by (cases "setPath R L dst flds s") simp
qed

section \<open>Messages for concrete instances\<close>

datatype sampleMsg = SampleMsg (fieldOf: "string \<Rightarrow> (unit, sampleMsg) pvalue")

definition sampleLib :: "(unit, string, sampleMsg) paramlib" where
  "sampleLib =
     \<lparr>parseFloat = (\<lambda>b s. if s = ''0'' then Some () else None), jsonFloat = (\<lambda>b s. None),
      marshalJSONFloat = (\<lambda>b x. Inr ''0''), NaN = (), PosInf = (), NegInf = (),
      isNaN = (\<lambda>x. False), isPosInf = (\<lambda>x. False), isNegInf = (\<lambda>x. False),
      enumByName = (\<lambda>f s. None), enumByNumber = (\<lambda>f n. None), enumFullName = (\<lambda>f. None),
      valueField = (\<lambda>f. f), mget = fieldOf,
      mset = (\<lambda>m f v. SampleMsg ((fieldOf m)(f := v))), newField = (\<lambda>m f. m),
      protojsonUnmarshal = (\<lambda>s m. Inl (ProtoError s)), protojsonMarshal = (\<lambda>m. Inl (ProtoError [])),
      jsonValid = (\<lambda>s. False), appendQuote = (\<lambda>s. s), strconvUnquote = (\<lambda>s. Some s)\<rparr>"

lemma sampleLib_lawful:
  "lawful_messages sampleLib" "lawful_float sampleLib" "lawful_enum sampleLib f"
proof -
  have "isJSONNumber ''0''"
    by code_simp
  then show "lawful_messages sampleLib" "lawful_float sampleLib" "lawful_enum sampleLib f"
    by (simp_all add: lawful_messages_def lawful_float_def lawful_enum_def sampleLib_def)
qed

definition shelfMsg :: "string \<Rightarrow> sampleMsg" where
  "shelfMsg s =
     SampleMsg (\<lambda>f. if f = ''shelf'' then VMessage (SampleMsg (\<lambda>g. VString s))
                    else if f = ''tags'' then VList [VString s] else VString [])"

section \<open>Properties\<close>



text \<open>Reading an element of a repeated field gives the element for every index below the
  length, and an error for every index above it; the index equal to the length passes the
  bounds check of the code and panics.\<close>

theorem getParameter_index:
  assumes "IsList R f" and "mget L m f = VList l" and "0 \<le> index"
  shows "fst (getParameter R L m [f] index) =
    (if index < int (length l) then marshalFieldValue R L f (l ! nat index)
     else if index = int (length l) then Inl Panic
     else Inl (IndexOutOfRange index (FieldName R f)))"
  using assms by (simp add: getParameter_def)

theorem getParameter_index_witness:
  "fst (getParameter sample sampleLib (shelfMsg ''x'') [''tags''] 1) = Inl Panic"
proof -
  have "IsList sample ''tags''" "mget sampleLib (shelfMsg ''x'') ''tags'' = VList [VString ''x'']"
    by (simp_all add: sample_def sampleLib_def shelfMsg_def)
  from getParameter_index [OF this, of 1] show ?thesis by simp
qed

end
