(* ===== verification/Query.thy ===== *)
theory Query
  imports PathEscape "HOL-Library.List_Lexorder"
begin

text \<open>
  Query strings: \<open>queryValues\<close> of \<open>encoding.go\<close> on the server side, and on the client side
  the \<open>url.Values\<close> that \<open>httprule.go\<close> fills, with \<open>Add\<close> and \<open>Encode\<close>.  \<open>queryEscape\<close> and
  \<open>queryUnescape\<close> are those of Go's \<open>net/url\<close>; the bytes they leave alone are the ones of
  \<open>isVariable\<close>, and escapes have the form of \<open>hexbyte\<close>.
\<close>

section \<open>net/url\<close>

fun queryUnescape :: "string \<Rightarrow> string option" where
  "queryUnescape [] = Some []"
| "queryUnescape (c # s) =
     (if c = CHR ''%'' then
        (case s of
           h # l # t \<Rightarrow>
             if ishex h \<and> ishex l
             then map_option ((#) (char_of_byte (or (push_bit 4 (unhex h)) (unhex l)))) (queryUnescape t)
             else None
         | _ \<Rightarrow> None)
      else if c = CHR ''+'' then map_option ((#) CHR '' '') (queryUnescape s)
      else map_option ((#) c) (queryUnescape s))"

fun queryEscape :: "string \<Rightarrow> string" where
  "queryEscape [] = []"
| "queryEscape (c # s) =
     (if c = CHR '' '' then ''+'' else if isVariable c then [c] else hexbyte c) @ queryEscape s"

text \<open>\<open>url.Values\<close>: the values of each key, keys in the order of their first use.\<close>

type_synonym urlValues = "(string \<times> string list) list"

fun addValue :: "string \<Rightarrow> string \<Rightarrow> urlValues \<Rightarrow> urlValues" where
  "addValue k v [] = [(k, [v])]"
| "addValue k v ((k', vs) # q) = (if k = k' then (k', vs @ [v]) # q else (k', vs) # addValue k v q)"

definition queryPairs :: "urlValues \<Rightarrow> (string \<times> string) list" where
  "queryPairs q = concat (map (\<lambda>(k, vs). map (Pair k) vs) (sort_key fst q))"

definition encodePair :: "string \<times> string \<Rightarrow> string" where
  "encodePair = (\<lambda>(k, v). queryEscape k @ ''='' @ queryEscape v)"

definition encodeValues :: "urlValues \<Rightarrow> string" where
  "encodeValues q = join_with ''&'' (map encodePair (queryPairs q))"

section \<open>queryValues\<close>

text \<open>The pairs the iterator yields, in order; an invalid pair is skipped.\<close>

definition queryPair :: "string \<Rightarrow> (string \<times> string) option" where
  "queryPair pair =
     (if pair = [] \<or> CHR '';'' \<in> set pair then None
      else
        (let (key, value, _) = cut_on CHR ''='' pair in
         case queryUnescape key of
           None \<Rightarrow> None
         | Some key \<Rightarrow>
             (case queryUnescape value of
                None \<Rightarrow> None
              | Some value \<Rightarrow> Some (key, value))))"

definition queryValues :: "string \<Rightarrow> (string \<times> string) list" where
  "queryValues rawQuery = List.map_filter queryPair (split_on CHR ''&'' rawQuery)"

section \<open>Reading what was encoded\<close>

lemma queryUnescape_hexbyte:
  "queryUnescape (hexbyte c @ s) = map_option ((#) c) (queryUnescape s)"
proof -
  have "ishex (hexbyte c ! 1)" "ishex (hexbyte c ! 2)"
    using high_nibble [of "byte_of c"] low_nibble [of "byte_of c"] by (simp_all add: hexbyte_def ishex_upperhex)
  then show ?thesis
    using unescape_loop_hexbyte [of pathEncodeSingle c "[]"] by (simp add: hexbyte_def)
qed

lemma isVariable_query [simp]:
  "\<not> isVariable CHR ''+''" "\<not> isVariable CHR ''%''" "\<not> isVariable CHR '' ''"
  "\<not> isVariable CHR ''&''" "\<not> isVariable CHR ''=''" "\<not> isVariable CHR '';''"
  by code_simp+

lemma queryUnescape_escape [simp]: "queryUnescape (queryEscape s) = Some s"
proof (induction s)
  case (Cons c s)
  then show ?case
    by (auto simp: queryUnescape_hexbyte)
qed simp

lemma hexbyte_chars: "x \<in> set (hexbyte c) \<Longrightarrow> x = CHR ''%'' \<or> isVariable x"
  using high_nibble [of "byte_of c"] low_nibble [of "byte_of c"] by (auto simp: hexbyte_def isVariable_upperhex)

lemma queryEscape_chars: "x \<in> set (queryEscape s) \<Longrightarrow> x = CHR ''+'' \<or> x = CHR ''%'' \<or> isVariable x"
  by (induction s) (auto split: if_splits dest: hexbyte_chars)

lemma queryEscape_special:
  "CHR ''&'' \<notin> set (queryEscape s)" "CHR ''='' \<notin> set (queryEscape s)" "CHR '';'' \<notin> set (queryEscape s)"
  using queryEscape_chars [of "CHR ''&''" s] queryEscape_chars [of "CHR ''=''" s]
    queryEscape_chars [of "CHR '';''" s] by auto

lemma queryPair_encodePair: "queryPair (encodePair kv) = Some kv"
proof -
  obtain k v where kv: "kv = (k, v)" by fastforce
  have "cut_on CHR ''='' (queryEscape k @ CHR ''='' # queryEscape v) = (queryEscape k, queryEscape v, True)"
    using queryEscape_special(2) by (rule cut_on_append)
  then show ?thesis
    by (simp add: kv queryPair_def encodePair_def queryEscape_special)
qed

lemma encodePair_amp: "CHR ''&'' \<notin> set (encodePair kv)"
  by (cases kv) (simp add: encodePair_def queryEscape_special)

lemma queryValues_encode:
  "queryValues (join_with ''&'' (map encodePair kvs)) = kvs"
proof (cases "kvs = []")
  case True
  then show ?thesis by (simp add: queryValues_def queryPair_def List.map_filter_simps)
next
  case False
  have "split_on CHR ''&'' (join_with ''&'' (map encodePair kvs)) = map encodePair kvs"
    using False by (intro split_join) (auto simp: encodePair_amp)
  moreover have "List.map_filter queryPair (map encodePair xs) = xs" for xs
    by (induction xs) (simp_all add: List.map_filter_simps queryPair_encodePair)
  ultimately show ?thesis
    by (simp add: queryValues_def)
qed

lemma values_of_key:
  "distinct (map fst q) \<Longrightarrow> map snd (filter (\<lambda>p. fst p = k) (concat (map (\<lambda>(k, vs). map (Pair k) vs) q))) =
     (case map_of q k of None \<Rightarrow> [] | Some vs \<Rightarrow> vs)"
proof (induction q)
  case (Cons kv q)
  obtain k' vs where kv: "kv = (k', vs)" by fastforce
  have "filter (\<lambda>p. fst p = k) (map (Pair k') vs) = (if k = k' then map (Pair k') vs else [])"
    by (auto simp: filter_map comp_def)
  moreover have "k \<notin> fst ` set q \<Longrightarrow> map_of q k = None"
    by (simp add: map_of_eq_None_iff)
  ultimately show ?case
    using Cons by (auto simp: kv comp_def split: option.splits)
qed simp

lemma distinct_sort_keys: "distinct (map fst q) \<Longrightarrow> distinct (map fst (sort_key fst q))"
  by (simp add: distinct_map)

lemma map_of_sort: "distinct (map fst q) \<Longrightarrow> map_of (sort_key fst q) = map_of q"
  using map_of_inject_set [of "sort_key fst q" q] distinct_sort_keys [of q] by simp

definition valuesOf :: "string \<Rightarrow> (string \<times> string) list \<Rightarrow> string list" where
  "valuesOf k kvs = map snd (filter (\<lambda>p. fst p = k) kvs)"

lemma valuesOf_encode:
  "distinct (map fst q) \<Longrightarrow>
   valuesOf k (queryValues (encodeValues q)) = (case map_of q k of None \<Rightarrow> [] | Some vs \<Rightarrow> vs)"
  using values_of_key [OF distinct_sort_keys, of q k]
  by (simp add: valuesOf_def encodeValues_def queryValues_encode queryPairs_def map_of_sort)

lemma addValue_keys: "set (map fst (addValue k v q)) = insert k (set (map fst q))"
  by (induction k v q rule: addValue.induct) auto

lemma addValue_distinct: "distinct (map fst q) \<Longrightarrow> distinct (map fst (addValue k v q))"
proof (induction k v q rule: addValue.induct)
  case (2 k v k' vs q)
  then show ?case
    using addValue_keys [of k v q] by auto
qed simp

lemma addValue_map_of:
  "map_of (addValue k v q) =
     (map_of q)(k \<mapsto> (case map_of q k of None \<Rightarrow> [] | Some vs \<Rightarrow> vs) @ [v])"
  by (induction k v q rule: addValue.induct) (auto split: option.splits)

lemma adds_distinct: "distinct (map fst (foldl (\<lambda>q (k, v). addValue k v q) q kvs)) = distinct (map fst q)
    \<or> \<not> distinct (map fst q)"
  by (induction kvs arbitrary: q) (auto intro: addValue_distinct)

lemma adds_values:
  "(case map_of (foldl (\<lambda>q (k, v). addValue k v q) q kvs) k of None \<Rightarrow> [] | Some vs \<Rightarrow> vs) =
     (case map_of q k of None \<Rightarrow> [] | Some vs \<Rightarrow> vs) @ valuesOf k kvs"
proof (induction kvs arbitrary: q)
  case (Cons kv kvs)
  obtain k' v where kv: "kv = (k', v)" by fastforce
  show ?case
    using Cons.IH [of "addValue k' v q"] by (simp add: kv valuesOf_def addValue_map_of)
qed (simp add: valuesOf_def)

section \<open>Properties\<close>

text \<open>C35: A query survives encoding: whatever bytes its keys and values hold, the server's
  iterator over the encoded text yields, for every key, exactly the values that were added
  under it, in the order they were added, and none is skipped as malformed.\<close>

theorem query_roundtrip:
  "valuesOf k (queryValues (encodeValues (foldl (\<lambda>q (k, v). addValue k v q) [] kvs))) = valuesOf k kvs"
proof -
  have "distinct (map fst (foldl (\<lambda>q (k, v). addValue k v q) [] kvs))"
    using adds_distinct [of "[]" kvs] by simp
  from valuesOf_encode [OF this] show ?thesis
    using adds_values [where q = "[]" and kvs = kvs and k = k] by simp
qed

end
