(* ===== verification/HttpRule.thy ===== *)
theory HttpRule
  imports Router Params Query
begin

text \<open>
  The client's side of a rule: \<open>httpSplitVar\<close> and \<open>httpEncodePathValues\<close> of \<open>httprule.go\<close>.
  The counts of used field paths are a function from paths to integers (a missing key of the
  Go map reads as zero).  \<open>Range\<close> of a message visits its populated fields in an order
  protobuf does not fix; the argument \<open>rng\<close> lists them.  The closure \<open>fieldRanger\<close> calls
  itself on nested messages, here with a bound on the depth of nesting; running out of it is
  \<open>None\<close>, and a bound above the depth of the message is enough (\<open>rangeFields_enough\<close>).
\<close>

section \<open>Path values\<close>

datatype encodeError =
    ParameterError paramError
  | PatternMismatch string string
  | CannotEncode string

definition httpSplitVar :: "string \<Rightarrow> bool \<Rightarrow> string list" where
  "httpSplitVar variable multi =
     (if \<not> multi then [pathEscape variable pathEncodeSingle]
      else map (\<lambda>value. pathEscape value pathEncodeMulti) (split_on CHR ''/'' variable))"

text \<open>The inner loop over the parts of a value; \<open>None\<close> when a part differs from a literal.\<close>

fun placeParts :: "nat \<Rightarrow> string list \<Rightarrow> string list \<Rightarrow> string list option" where
  "placeParts segmentIndex [] segs = Some segs"
| "placeParts segmentIndex (part # parts) segs =
     (if segmentIndex \<ge> length segs then placeParts (segmentIndex + 1) parts (segs @ [part])
      else
        (let segment = segs ! segmentIndex in
         if segment = ''*'' \<or> segment = ''**''
         then placeParts (segmentIndex + 1) parts (segs[segmentIndex := part])
         else if segment \<noteq> part then None
         else placeParts (segmentIndex + 1) parts segs))"

type_synonym counts = "string \<Rightarrow> int"

text \<open>The loop over the variables; besides the source's results it lists the values read.\<close>

fun encodeVars ::
  "('mtd, 'msg, 'fld) reflect \<Rightarrow> ('f, 'fld, 'v) paramlib \<Rightarrow> 'fld routeTargetVar list \<Rightarrow>
   counts \<Rightarrow> string list \<Rightarrow> 'v \<Rightarrow>
   encodeError + counts \<times> string list \<times> 'v \<times> string list"
where
  "encodeVars R L [] counts segs msg = Inr (counts, segs, msg, [])"
| "encodeVars R L (variable # vs) counts segs msg =
     (let fieldIndex = counts (fieldPath variable);
          counts = counts(fieldPath variable := counts (fieldPath variable) + 1) in
      case getParameter R L msg (flds variable) fieldIndex of
        (Inl e, msg) \<Rightarrow> Inl (ParameterError e)
      | (Inr value, msg) \<Rightarrow>
          (let variableSize = size_var variable;
               values = httpSplitVar value (variableSize \<noteq> 1) in
           if variableSize > 1 \<and> int (length values) \<noteq> variableSize
           then Inl (PatternMismatch (fieldPath variable) value)
           else
             (case placeParts (nat (vstart variable)) values segs of
                None \<Rightarrow> Inl (PatternMismatch (fieldPath variable) value)
              | Some segs \<Rightarrow>
                  (case encodeVars R L vs counts segs msg of
                     Inl e \<Rightarrow> Inl e
                   | Inr (counts, segs, msg, vals) \<Rightarrow> Inr (counts, segs, msg, value # vals)))))"

definition pathURL :: "string list \<Rightarrow> string \<Rightarrow> string" where
  "pathURL segs verb = concat (map (\<lambda>s. CHR ''/'' # s) segs) @ (if verb \<noteq> [] then CHR '':'' # verb else [])"

section \<open>Query values\<close>

text \<open>The loop over the elements of a repeated field, from \<open>fieldIndex\<close> on.\<close>

fun addElements ::
  "('mtd, 'msg, 'fld) reflect \<Rightarrow> ('f, 'fld, 'v) paramlib \<Rightarrow> 'fld list \<Rightarrow> 'fld \<Rightarrow>
   ('f, 'v) pvalue list \<Rightarrow> urlValues \<Rightarrow> encodeError + urlValues"
where
  "addElements R L fs field [] query = Inr query"
| "addElements R L fs field (value # l) query =
     (case marshalFieldValue R L field value of
        Inl e \<Rightarrow> Inl (ParameterError e)
      | Inr encoded \<Rightarrow>
          addElements R L fs field l
            (addValue (resolveFieldDescriptorsToPath R fs True) encoded query))"

text \<open>
  One call of \<open>fieldRanger\<close> on the fields \<open>fs\<close>, whose last one is \<open>field\<close>; \<open>nested\<close> is the
  call of \<open>Range\<close> on the message of the value.
\<close>

definition fieldRanger ::
  "('mtd, 'msg, 'fld) reflect \<Rightarrow> ('f, 'fld, 'v) paramlib \<Rightarrow>
   ('fld list \<Rightarrow> 'v \<Rightarrow> counts \<Rightarrow> urlValues \<Rightarrow> (encodeError + counts \<times> urlValues) option) \<Rightarrow>
   'fld list \<Rightarrow> 'fld \<Rightarrow> ('f, 'v) pvalue \<Rightarrow> counts \<Rightarrow> urlValues \<Rightarrow> (encodeError + counts \<times> urlValues) option"
where
  "fieldRanger R L nested prefix field value counts query =
     (let fs = prefix @ [field];
          fp = resolveFieldDescriptorsToPath R fs False;
          fieldIndex = counts fp in
      if \<not> isParameterType R field then
        if fieldIndex \<noteq> 0 then Some (Inr (counts(fp := fieldIndex), query))
        else if IsMap R field \<or> IsList R field \<or> Kind R field \<noteq> MessageKind
        then Some (Inl (CannotEncode fp))
        else
          (case value of
             VMessage m \<Rightarrow>
               (case nested fs m counts query of
                  None \<Rightarrow> None
                | Some (Inl e) \<Rightarrow> Some (Inl e)
                | Some (Inr (counts, query)) \<Rightarrow> Some (Inr (counts(fp := fieldIndex + 1), query)))
           | _ \<Rightarrow> Some (Inl (ParameterError Panic)))
      else if IsList R field then
        if fieldIndex < 0 then Some (Inr (counts(fp := fieldIndex), query))
        else
          (case value of
             VList l \<Rightarrow>
               (case addElements R L fs field (drop (nat fieldIndex) l) query of
                  Inl e \<Rightarrow> Some (Inl e)
                | Inr query \<Rightarrow>
                    Some (Inr (counts(fp := max fieldIndex (int (length l))), query)))
           | _ \<Rightarrow> Some (Inl (ParameterError Panic)))
      else if fieldIndex = 0 then
        (case marshalFieldValue R L field value of
           Inl e \<Rightarrow> Some (Inl (ParameterError e))
         | Inr encoded \<Rightarrow>
             Some (Inr (counts(fp := fieldIndex + 1),
               addValue (resolveFieldDescriptorsToPath R fs True) encoded query)))
      else Some (Inr (counts(fp := fieldIndex), query)))"

fun rangeList ::
  "('fld \<Rightarrow> ('f, 'v) pvalue \<Rightarrow> counts \<Rightarrow> urlValues \<Rightarrow> (encodeError + counts \<times> urlValues) option) \<Rightarrow>
   ('fld \<times> ('f, 'v) pvalue) list \<Rightarrow> counts \<Rightarrow> urlValues \<Rightarrow> (encodeError + counts \<times> urlValues) option"
where
  "rangeList visit [] counts query = Some (Inr (counts, query))"
| "rangeList visit ((field, value) # fvs) counts query =
     (case visit field value counts query of
        None \<Rightarrow> None
      | Some (Inl e) \<Rightarrow> Some (Inl e)
      | Some (Inr (counts, query)) \<Rightarrow> rangeList visit fvs counts query)"

primrec rangeFields ::
  "nat \<Rightarrow> ('mtd, 'msg, 'fld) reflect \<Rightarrow> ('f, 'fld, 'v) paramlib \<Rightarrow> ('v \<Rightarrow> ('fld \<times> ('f, 'v) pvalue) list) \<Rightarrow>
   'fld list \<Rightarrow> 'v \<Rightarrow> counts \<Rightarrow> urlValues \<Rightarrow> (encodeError + counts \<times> urlValues) option"
where
  "rangeFields 0 R L rng prefix m counts query = None"
| "rangeFields (Suc n) R L rng prefix m counts query =
     rangeList (fieldRanger R L (rangeFields n R L rng) prefix) (rng m) counts query"

definition httpEncodePathValues ::
  "nat \<Rightarrow> ('mtd, 'msg, 'fld) reflect \<Rightarrow> ('f, 'fld, 'v) paramlib \<Rightarrow> ('v \<Rightarrow> ('fld \<times> ('f, 'v) pvalue) list) \<Rightarrow>
   'v \<Rightarrow> ('mtd, 'typ, 'fld) routeTarget \<Rightarrow> (encodeError + string \<times> urlValues) option"
where
  "httpEncodePathValues fuel R L rng msg target =
     (let (templatePath, verb) = splitVerb (template target);
          segs = split_on CHR ''/'' (drop 1 templatePath) in
      case encodeVars R L (vars target) (\<lambda>_. 0) segs msg of
        Inl e \<Rightarrow> Some (Inl e)
      | Inr (counts, segs, msg, vals) \<Rightarrow>
          (let path = pathURL segs verb in
           if requestBodyFieldPath target = ''*'' then Some (Inr (path, []))
           else
             (let counts = (if requestBodyFieldPath target \<noteq> []
                            then counts(requestBodyFieldPath target := -1) else counts) in
              case rangeFields fuel R L rng [] msg counts [] of
                None \<Rightarrow> None
              | Some (Inl e) \<Rightarrow> Some (Inl e)
              | Some (Inr (counts, query)) \<Rightarrow> Some (Inr (path, query)))))"

section \<open>The recursion over nested messages ends\<close>

primrec depth_le :: "('v \<Rightarrow> ('fld \<times> ('f, 'v) pvalue) list) \<Rightarrow> nat \<Rightarrow> 'v \<Rightarrow> bool" where
  "depth_le rng 0 m = False"
| "depth_le rng (Suc n) m =
     list_all (\<lambda>(f, v). case v of VMessage c \<Rightarrow> depth_le rng n c | _ \<Rightarrow> True) (rng m)"

lemma rangeList_enough:
  "(\<And>f v counts query. (f, v) \<in> set fvs \<Longrightarrow> visit f v counts query \<noteq> None) \<Longrightarrow>
   rangeList visit fvs counts query \<noteq> None"
proof (induction fvs arbitrary: counts query)
  case (Cons fv fvs)
  obtain f v where fv: "fv = (f, v)" by fastforce
  obtain r where r: "visit f v counts query = Some r"
    using Cons.prems [of f v counts query] fv by auto
  then show ?case
    using Cons by (cases r) (auto simp: fv)
qed simp

lemma fieldRanger_enough:
  "(\<And>m fs counts query. v = VMessage m \<Longrightarrow> nested fs m counts query \<noteq> None) \<Longrightarrow>
   fieldRanger R L nested prefix f v counts query \<noteq> None"
proof (cases v)
  case (VMessage m)
  assume "\<And>m fs counts query. v = VMessage m \<Longrightarrow> nested fs m counts query \<noteq> None"
  then have "nested (prefix @ [f]) m counts query \<noteq> None"
    using VMessage by blast
  then show ?thesis
    using VMessage by (auto simp: fieldRanger_def Let_def split: option.splits sum.splits)
qed (auto simp: fieldRanger_def Let_def split: sum.splits)

lemma rangeFields_enough: "depth_le rng n m \<Longrightarrow> rangeFields n R L rng prefix m counts query \<noteq> None"
proof (induction n arbitrary: m prefix counts query)
  case (Suc n)
  have "fieldRanger R L (rangeFields n R L rng) prefix f v counts query \<noteq> None"
    if "(f, v) \<in> set (rng m)" for f v counts query
  proof (rule fieldRanger_enough)
    fix c fs counts query
    assume "v = VMessage c"
    then have "depth_le rng n c"
      using Suc.prems that by (auto simp: list_all_iff)
    then show "rangeFields n R L rng fs c counts query \<noteq> None"
      by (rule Suc.IH)
  qed
  then show ?case
    by (simp add: rangeList_enough)
qed simp

section \<open>The path that is built\<close>

text \<open>
  \<open>filled p segs\<close>: the segments are those of the pattern \<open>p\<close>, except that stars may have
  been replaced by escaped text, and text may follow a double star.
\<close>

definition plain_part :: "string \<Rightarrow> bool" where
  "plain_part s \<longleftrightarrow> list_all isLiteral s"

definition filled :: "string list \<Rightarrow> string list \<Rightarrow> bool" where
  "filled p segs \<longleftrightarrow>
     length p \<le> length segs \<and>
     (\<forall>i < length p. segs ! i = p ! i \<or> p ! i \<in> {''*'', ''**''} \<and> plain_part (segs ! i)) \<and>
     (length p < length segs \<longrightarrow> last p = ''**'') \<and>
     (\<forall>i < length segs. length p \<le> i \<longrightarrow> plain_part (segs ! i))"

lemma plain_part_not_star: "plain_part s \<Longrightarrow> s \<noteq> ''*'' \<and> s \<noteq> ''**''"
  by (auto simp: plain_part_def)

lemma escape_literal: "list_all isLiteral (pathEscape_loop mode s)"
proof (induction mode s rule: pathEscape_loop.induct)
  case (2 mode c s)
  have hex: "list_all isLiteral (hexbyte c)"
    using hexbyte_chars by (auto simp: list_all_iff isLiteral_def)
  have slash: "list_all isLiteral ''%2F''"
    by code_simp
  have var: "isLiteral c" if "isVariable c"
    using that by (simp add: isLiteral_def)
  show ?case
  proof (cases "c = CHR ''%'' \<and> mode = pathEncodeMulti \<and> pathIsHexSlash (c # s)")
    case True
    have "pathEscape_loop mode (c # s) = ''%2F'' @ pathEscape_loop mode (drop 2 s)"
      by (subst pathEscape_loop.simps) (rule if_P [OF True])
    then show ?thesis
      using 2(1) [OF True] slash by simp
  next
    case False
    have "pathEscape_loop mode (c # s) =
        (if isVariable c then [c] else hexbyte c) @ pathEscape_loop mode s"
      by (subst pathEscape_loop.simps, subst if_not_P [OF False]) simp
    then show ?thesis
      using 2(2,3) [OF False] hex var by auto
  qed
qed simp

lemma plain_part_escape: "plain_part (pathEscape s mode)"
  by (simp add: plain_part_def pathEscape_eq escape_literal)

lemma httpSplitVar_plain: "list_all plain_part (httpSplitVar s multi)"
  by (simp add: httpSplitVar_def plain_part_escape list_all_iff)

lemma httpSplitVar_single: "httpSplitVar s False = [pathEscape s pathEncodeSingle]"
  by (simp add: httpSplitVar_def)

text \<open>
  Placing parts keeps every segment that is no star, writes the parts to their positions, and
  only adds segments after the last one.
\<close>

lemma placeParts_effect:
  "placeParts i parts segs = Some segs' \<Longrightarrow> i \<le> length segs \<Longrightarrow>
   length segs' = max (length segs) (i + length parts) \<and>
   (\<forall>j < length parts. segs' ! (i + j) = parts ! j) \<and>
   (\<forall>j < length segs. j < i \<or> i + length parts \<le> j \<or> segs ! j \<notin> {''*'', ''**''} \<longrightarrow> segs' ! j = segs ! j)"
proof (induction i parts segs rule: placeParts.induct)
  case (2 i part parts segs)
  show ?case
  proof (cases "i \<ge> length segs")
    case True
    then have i: "i = length segs" and r: "placeParts (i + 1) parts (segs @ [part]) = Some segs'"
      using 2(4,5) by simp_all
    note ih = 2(1) [OF True r]
    have "segs' ! (i + j) = (part # parts) ! j" if "j < length (part # parts)" for j
      using ih i that by (cases j) (auto simp: nth_append)
    then show ?thesis
      using ih i by (auto simp: nth_append)
  next
    case False
    note le = False
    show ?thesis
    proof (cases "segs ! i = ''*'' \<or> segs ! i = ''**''")
      case True
      then have r: "placeParts (i + 1) parts (segs[i := part]) = Some segs'"
        using 2(4) False by simp
      note ih = 2(2) [OF False refl True r]
      have "segs' ! (i + j) = (part # parts) ! j" if "j < length (part # parts)" for j
        using ih False that by (cases j) auto
      moreover have "segs' ! j = segs ! j"
        if "j < length segs" "j < i \<or> i + length (part # parts) \<le> j \<or> segs ! j \<notin> {''*'', ''**''}" for j
      proof -
        have "j \<noteq> i"
          using that True by auto
        then show ?thesis
          using ih False that by auto
      qed
      ultimately show ?thesis
        using ih False by auto
    next
      case no_star: False
      then have eq: "segs ! i = part" and r: "placeParts (i + 1) parts segs = Some segs'"
        using 2(4) le by (auto split: if_splits)
      note ih = 2(3) [OF le refl no_star _ r]
      have ih': "length segs' = max (length segs) (i + 1 + length parts)"
        "\<forall>j < length parts. segs' ! (i + 1 + j) = parts ! j"
        "\<forall>j < length segs. j < i + 1 \<or> i + 1 + length parts \<le> j \<or> segs ! j \<notin> {''*'', ''**''} \<longrightarrow> segs' ! j = segs ! j"
        using ih eq le by simp_all
      have "segs' ! (i + j) = (part # parts) ! j" if "j < length (part # parts)" for j
        using ih' eq le that by (cases j) auto
      then show ?thesis
        using ih' eq le by auto
    qed
  qed
qed simp

lemma placeParts_filled:
  assumes "placeParts i parts segs = Some segs'" and "filled p segs" and "i < length p"
    and "list_all plain_part parts" and "i + length parts \<le> length p \<or> last p = ''**''"
  shows "filled p segs'"
proof -
  have i: "i \<le> length segs"
    using assms(2,3) by (simp add: filled_def)
  note eff = placeParts_effect [OF assms(1) i]
  have plain: "plain_part (parts ! j)" if "j < length parts" for j
    using assms(4) that by (simp add: list_all_length)
  have at: "segs' ! k = parts ! (k - i)" if "i \<le> k" "k < i + length parts" for k
    using eff that by (metis add_diff_inverse_nat less_diff_conv2 not_le add.commute)
  have old: "segs' ! k = segs ! k" if "k < length segs" "k < i \<or> i + length parts \<le> k" for k
    using eff that by blast
  have star: "segs' ! k = segs ! k" if "k < length segs" "segs ! k \<notin> {''*'', ''**''}" for k
    using eff that by blast
  have "segs' ! k = p ! k \<or> p ! k \<in> {''*'', ''**''} \<and> plain_part (segs' ! k)" if k: "k < length p" for k
  proof -
    have ks: "k < length segs" and f: "segs ! k = p ! k \<or> p ! k \<in> {''*'', ''**''} \<and> plain_part (segs ! k)"
      using assms(2) k by (auto simp: filled_def)
    show ?thesis
    proof (cases "k < i \<or> i + length parts \<le> k")
      case True
      then show ?thesis using old [OF ks] f by simp
    next
      case False
      then have "plain_part (segs' ! k)"
        using at [of k] plain [of "k - i"] by auto
      then show ?thesis
        using f star [OF ks] by (cases "segs ! k \<in> {''*'', ''**''}") (use plain_part_not_star in auto)
    qed
  qed
  moreover have "plain_part (segs' ! k)" if "length p \<le> k" "k < length segs'" for k
  proof (cases "i \<le> k \<and> k < i + length parts")
    case True
    then show ?thesis using at [of k] plain [of "k - i"] by auto
  next
    case False
    then have "k < length segs"
      using that eff assms(3) by auto
    then show ?thesis
      using that(1) False old [of k] assms(2) by (auto simp: filled_def)
  qed
  moreover have "length p < length segs' \<longrightarrow> last p = ''**''"
    using eff assms(2,3,5) by (auto simp: filled_def)
  ultimately show ?thesis
    using eff assms(2) by (auto simp: filled_def)
qed

text \<open>The ranges that \<open>makeTarget\<close> gives stay in range while segments are added.\<close>

lemma in_range_mono: "in_range v n \<Longrightarrow> n \<le> n' \<Longrightarrow> in_range v n'"
  by (auto simp: in_range_def)

lemma placeParts_fixed:
  assumes "placeParts i parts segs = Some segs'" and "i \<le> length segs"
    and "j < length segs" and "plain_part (segs ! j)"
  shows "j < length segs' \<and> segs' ! j = segs ! j"
  using placeParts_effect [OF assms(1,2)] assms(3) plain_part_not_star [OF assms(4)] by auto

definition var_parts :: "('fld, 'z) routeTargetVar_scheme \<Rightarrow> string \<Rightarrow> string list" where
  "var_parts v val = httpSplitVar val (size_var v \<noteq> 1)"

definition placed :: "('fld, 'z) routeTargetVar_scheme \<Rightarrow> string \<Rightarrow> string list \<Rightarrow> bool" where
  "placed v val segs \<longleftrightarrow>
     nat (vstart v) + length (var_parts v val) \<le> length segs \<and>
     take (length (var_parts v val)) (drop (nat (vstart v)) segs) = var_parts v val \<and>
     (vend v \<noteq> -1 \<longrightarrow> int (length (var_parts v val)) = vend v - vstart v)"

lemma encodeVars_kept:
  assumes "encodeVars R L vs counts segs msg = Inr (counts', segs', msg', vals)"
    and "\<forall>v \<in> set vs. in_range v (length segs)"
  shows "length segs \<le> length segs' \<and>
    (\<forall>j < length segs. plain_part (segs ! j) \<longrightarrow> segs' ! j = segs ! j)"
  using assms
proof (induction vs arbitrary: counts segs msg vals)
  case (Cons v vs)
  from Cons.prems(1) obtain val msg1 segs1 c1 vals1 where
    place: "placeParts (nat (vstart v)) (httpSplitVar val (size_var v \<noteq> 1)) segs = Some segs1"
    and rest: "encodeVars R L vs c1 segs1 msg1 = Inr (counts', segs', msg', vals1)"
    by (auto simp: Let_def split: prod.splits sum.splits if_splits option.splits)
  have start: "nat (vstart v) \<le> length segs"
    using Cons.prems(2) by (auto simp: in_range_def)
  note eff = placeParts_effect [OF place start]
  have "\<forall>u \<in> set vs. in_range u (length segs1)"
    using Cons.prems(2) eff in_range_mono [of _ "length segs" "length segs1"] by auto
  note ih = Cons.IH [OF rest this]
  show ?case
    using ih eff placeParts_fixed [OF place start] by auto
qed simp

end
