(* ===== verification/ClientPath.thy ===== *)
theory ClientPath
  imports HttpRule
begin

text \<open>
  The two sides of a rule agree: a path that \<open>httpEncodePathValues\<close> builds for a target is
  found by \<open>match\<close> in every table that holds the target, and \<open>capture\<close> reads the values
  back.
\<close>

section \<open>Every variable keeps its place\<close>

lemma placeParts_placed:
  assumes "placeParts (nat (vstart v)) (var_parts v val) segs = Some segs'"
    and "in_range v (length segs)"
    and "size_var v > 1 \<longrightarrow> int (length (var_parts v val)) = size_var v"
  shows "placed v val segs'"
proof -
  have start: "nat (vstart v) \<le> length segs"
    using assms(2) by (auto simp: in_range_def)
  note eff = placeParts_effect [OF assms(1) start]
  have "take (length (var_parts v val)) (drop (nat (vstart v)) segs') = var_parts v val"
    using eff by (intro nth_equalityI) auto
  moreover have "int (length (var_parts v val)) = vend v - vstart v" if "vend v \<noteq> -1"
    using assms(2,3) that
    by (cases "size_var v = 1") (auto simp: size_var_def in_range_def var_parts_def httpSplitVar_single)
  ultimately show ?thesis
    using eff by (auto simp: placed_def)
qed

lemma placed_kept:
  assumes "placed v val segs" and "length segs \<le> length segs'"
    and "\<forall>j < length segs. plain_part (segs ! j) \<longrightarrow> segs' ! j = segs ! j"
  shows "placed v val segs'"
proof -
  let ?i = "nat (vstart v)" and ?parts = "var_parts v val"
  have len: "?i + length ?parts \<le> length segs"
    and eq: "take (length ?parts) (drop ?i segs) = ?parts"
    using assms(1) by (simp_all add: placed_def)
  have "segs' ! (?i + j) = ?parts ! j" if j: "j < length ?parts" for j
  proof -
    have "segs ! (?i + j) = ?parts ! j"
      using arg_cong [OF eq, of "\<lambda>xs. xs ! j"] j len by simp
    moreover have "plain_part (?parts ! j)"
      using httpSplitVar_plain j by (simp add: var_parts_def list_all_length)
    ultimately show ?thesis
      using assms(3) j len by auto
  qed
  then have "take (length ?parts) (drop ?i segs') = ?parts"
    using len assms(2) by (intro nth_equalityI) auto
  then show ?thesis
    using assms(1,2) by (auto simp: placed_def)
qed

lemma encodeVars_Cons:
  assumes "encodeVars R L (v # vs) counts segs msg = Inr (counts', segs', msg', vals)"
  obtains val vals1 segs1 c1 msg1 where "vals = val # vals1"
    and "placeParts (nat (vstart v)) (var_parts v val) segs = Some segs1"
    and "size_var v > 1 \<longrightarrow> int (length (var_parts v val)) = size_var v"
    and "encodeVars R L vs c1 segs1 msg1 = Inr (counts', segs', msg', vals1)"
  using assms by (auto simp: Let_def var_parts_def split: prod.splits sum.splits if_splits option.splits)

lemma encodeVars_placed:
  assumes "encodeVars R L vs counts segs msg = Inr (counts', segs', msg', vals)"
    and "\<forall>v \<in> set vs. in_range v (length segs)"
  shows "list_all2 (\<lambda>v val. placed v val segs') vs vals"
  using assms
proof (induction vs arbitrary: counts segs msg vals)
  case (Cons v vs)
  from Cons.prems(1) obtain val vals1 segs1 c1 msg1 where v: "vals = val # vals1"
    and place: "placeParts (nat (vstart v)) (var_parts v val) segs = Some segs1"
    and size: "size_var v > 1 \<longrightarrow> int (length (var_parts v val)) = size_var v"
    and rest: "encodeVars R L vs c1 segs1 msg1 = Inr (counts', segs', msg', vals1)"
    by (rule encodeVars_Cons)
  have "length segs \<le> length segs1"
    using placeParts_effect [OF place] Cons.prems(2) by (auto simp: in_range_def)
  then have range: "\<forall>u \<in> set vs. in_range u (length segs1)"
    using Cons.prems(2) in_range_mono by auto
  have "placed v val segs1"
    using placeParts_placed [OF place _ size] Cons.prems(2) by simp
  then have "placed v val segs'"
    using placed_kept encodeVars_kept [OF rest range] by blast
  then show ?case
    using Cons.IH [OF rest range] v by simp
qed simp

lemma encodeVars_filled:
  assumes "encodeVars R L vs counts segs msg = Inr (counts', segs', msg', vals)"
    and "\<forall>v \<in> set vs. wf_variable p (pathVariable.truncate v)" and "filled p segs"
  shows "filled p segs'"
  using assms
proof (induction vs arbitrary: counts segs msg vals)
  case (Cons v vs)
  from Cons.prems(1) obtain val vals1 segs1 c1 msg1 where v: "vals = val # vals1"
    and place: "placeParts (nat (vstart v)) (var_parts v val) segs = Some segs1"
    and size: "size_var v > 1 \<longrightarrow> int (length (var_parts v val)) = size_var v"
    and rest: "encodeVars R L vs c1 segs1 msg1 = Inr (counts', segs', msg', vals1)"
    by (rule encodeVars_Cons)
  have wf: "wf_variable p (pathVariable.truncate v)"
    using Cons.prems(2) by simp
  then have start: "nat (vstart v) < length p"
    by (auto simp: wf_variable_def pathVariable.truncate_def split: if_splits)
  have "nat (vstart v) + length (var_parts v val) \<le> length p \<or> last p = ''**''"
    using wf size
    by (cases "size_var v = 1")
      (auto simp: wf_variable_def pathVariable.truncate_def size_var_def var_parts_def httpSplitVar_single
        split: if_splits)
  then have "filled p segs1"
    using placeParts_filled [OF place Cons.prems(3) start] httpSplitVar_plain by (simp add: var_parts_def)
  then show ?case
    using Cons.IH [OF rest] Cons.prems(2) by simp
qed simp

section \<open>The path matches the pattern\<close>

lemma plain_part_special: "plain_part s \<Longrightarrow> CHR ''/'' \<notin> set s \<and> CHR '':'' \<notin> set s"
  by (auto simp: plain_part_def list_all_iff)

lemma filled_refl: "filled p p"
  by (simp add: filled_def)

lemma filled_segment:
  assumes "filled p segs" and "wf_pattern p" and "s \<in> set segs"
  shows "CHR ''/'' \<notin> set s \<and> CHR '':'' \<notin> set s"
proof -
  obtain k where k: "k < length segs" "s = segs ! k"
    using assms(3) by (metis in_set_conv_nth)
  show ?thesis
  proof (cases "k < length p")
    case True
    then have "segs ! k = p ! k \<or> plain_part (segs ! k)"
      using assms(1) by (auto simp: filled_def)
    then show ?thesis
      using k True wf_pattern_segment [OF assms(2), of "p ! k"] plain_part_special by auto
  next
    case False
    then show ?thesis
      using k assms(1) plain_part_special by (auto simp: filled_def)
  qed
qed

lemma pat_matches_nth:
  assumes "p \<noteq> []" and "length p \<le> length raws"
    and "length p < length raws \<longrightarrow> last p = ''**''"
    and "\<forall>i < length p. p ! i = ''*'' \<or> Suc i = length p \<and> p ! i = ''**'' \<or> canonicalSegment (raws ! i) = Some (p ! i)"
  shows "pat_matches p raws"
  using assms
proof (induction p arbitrary: raws)
  case (Cons s p)
  obtain raw rest where raws: "raws = raw # rest"
    using Cons.prems(2) by (cases raws) auto
  show ?case
  proof (cases "p = []")
    case True
    have "s = ''*'' \<or> s = ''**'' \<or> canonicalSegment raw = Some s"
      using Cons.prems(4) [rule_format, of 0] raws unfolding True nth_Cons_0 by auto
    moreover have "rest \<noteq> [] \<longrightarrow> s = ''**''"
      using Cons.prems(3) True raws by simp
    ultimately show ?thesis
      unfolding raws True pat_matches.simps by blast
  next
    case False
    have "p ! i = ''*'' \<or> Suc i = length p \<and> p ! i = ''**'' \<or> canonicalSegment (rest ! i) = Some (p ! i)"
      if "i < length p" for i
      using Cons.prems(4) [rule_format, of "Suc i"] that raws False by simp
    then have "pat_matches p rest"
      using Cons.IH [of rest] Cons.prems(2,3) False raws by simp
    moreover have "s = ''*'' \<or> canonicalSegment raw = Some s"
      using Cons.prems(4) [rule_format, of 0] False raws by simp
    ultimately show ?thesis
      unfolding raws pat_matches.simps by blast
  qed
qed simp

lemma filled_matches:
  assumes "filled p segs" and "wf_pattern p"
  shows "pat_matches p segs"
proof (rule pat_matches_nth)
  show "p \<noteq> []"
    using assms(2) by (simp add: wf_pattern_def)
  show "length p \<le> length segs" "length p < length segs \<longrightarrow> last p = ''**''"
    using assms(1) unfolding filled_def by blast+
  show "\<forall>i < length p. p ! i = ''*'' \<or> Suc i = length p \<and> p ! i = ''**'' \<or> canonicalSegment (segs ! i) = Some (p ! i)"
  proof (intro allI impI)
    fix i
    assume i: "i < length p"
    have star: "Suc i = length p" if "p ! i = ''**''"
    proof (rule ccontr)
      assume "Suc i \<noteq> length p"
      then have "i < length (butlast p)" using i by simp
      then have "p ! i \<in> set (butlast p)"
        by (metis nth_butlast nth_mem)
      then show False
        using that assms(2) by (simp add: wf_pattern_def)
    qed
    have "p ! i = ''*'' \<or> p ! i = ''**'' \<or> canonical (p ! i)"
      using assms(2) nth_mem [OF i] unfolding wf_pattern_def by blast
    moreover have "segs ! i = p ! i \<or> p ! i = ''*'' \<or> p ! i = ''**''"
      using assms(1) i unfolding filled_def by blast
    ultimately have "p ! i = ''*'' \<or> p ! i = ''**'' \<or> canonical (p ! i) \<and> segs ! i = p ! i"
      by blast
    then show "p ! i = ''*'' \<or> Suc i = length p \<and> p ! i = ''**'' \<or> canonicalSegment (segs ! i) = Some (p ! i)"
      using star canonicalSegment_canonical by metis
  qed
qed


section \<open>Reading multi-segment values back\<close>

lemma well_escaped_append: "well_escaped s \<Longrightarrow> well_escaped t \<Longrightarrow> well_escaped (s @ CHR ''/'' # t)"
  by (induction rule: well_escaped_induct) (auto simp: validateHex_None)

lemma well_escaped_join:
  "\<forall>s \<in> set parts. well_escaped s \<Longrightarrow> well_escaped (join_with ''/'' parts)"
  by (induction "''/''" parts rule: join_with.induct) (auto intro: well_escaped_append)

lemma escape_no_slash: "CHR ''/'' \<notin> set (pathEscape s mode)"
  using plain_part_special [OF plain_part_escape] by blast

lemma split_normal_slashes:
  "split_on CHR ''/'' (normal_slashes s) = map normal_slashes (split_on CHR ''/'' s)"
proof (induction s rule: normal_slashes.induct)
  case (2 c s)
  show ?case
  proof (cases "pathIsHexSlash (c # s)")
    case True
    then obtain l t where s: "c = CHR ''%''" "s = CHR ''2'' # l # t" "l = CHR ''f'' \<or> l = CHR ''F''"
      by (cases s; cases "tl s") (auto simp: pathIsHexSlash_def)
    have "pathIsHexSlash (CHR ''%'' # CHR ''2'' # l # u) = True" for u
      using s(3) by (auto simp: pathIsHexSlash_def)
    then show ?thesis
      using 2 True s by (auto simp: split_on_Cons_no_sep hd_tl_map simp del: split_on.simps)
  next
    case False
    have keep: "pathIsHexSlash (c # hd (split_on CHR ''/'' s)) = False" if "c \<noteq> CHR ''/''"
      using False by (cases s; cases "tl s") (auto simp: pathIsHexSlash_def split: list.splits if_splits)
    have sep: "split_on CHR ''/'' (CHR ''/'' # u) = [] # split_on CHR ''/'' u" for u
      by simp
    show ?thesis
      using 2 False keep
      by (cases "c = CHR ''/''") (auto simp: sep split_on_Cons_no_sep hd_tl_map simp del: split_on.simps)
  qed
qed simp

lemma unescape_escape_multi:
  "pathUnescape (join_with ''/'' (map (\<lambda>s. pathEscape s pathEncodeMulti) (split_on CHR ''/'' val))) pathEncodeMulti =
   Inr (normal_slashes val)"
proof -
  let ?parts = "map (\<lambda>s. pathEscape s pathEncodeMulti) (split_on CHR ''/'' val)"
  let ?j = "join_with ''/'' ?parts"
  have w: "well_escaped ?j"
    by (rule well_escaped_join) auto
  have "split_on CHR ''/'' ?j = ?parts"
    using escape_no_slash by (intro split_join) auto
  then have "split_on CHR ''/'' (pathUnescape_loop pathEncodeMulti ?j) =
      map (pathUnescape_loop pathEncodeMulti) ?parts"
    using split_unescape_multi [OF w] by simp
  also have "\<dots> = map normal_slashes (split_on CHR ''/'' val)"
    using split_on_parts by (auto simp: pathEscape_eq unescape_escape_multi_loop)
  also have "\<dots> = split_on CHR ''/'' (normal_slashes val)"
    by (rule split_normal_slashes [symmetric])
  finally have "pathUnescape_loop pathEncodeMulti ?j = normal_slashes val"
    by (metis join_split)
  then show ?thesis
    using w by (simp add: pathUnescape_well_escaped)
qed

section \<open>The client's path at the server\<close>

lemma covered_placed:
  assumes "placed v val segs"
    and "vend v = -1 \<longrightarrow> length segs = nat (vstart v) + length (var_parts v val)"
  shows "covered v segs = var_parts v val"
proof (cases "vend v = -1")
  case True
  then show ?thesis
    using assms by (auto simp: covered_def placed_def)
next
  case False
  then have "nat (vend v - vstart v) = length (var_parts v val)"
    using assms(1) by (auto simp: placed_def)
  then show ?thesis
    using False assms(1) by (simp add: covered_def placed_def)
qed

lemma capture_placed:
  assumes "placed v val segs" and "plain_segments segs" and "in_range v (length segs)"
    and "vend v = -1 \<longrightarrow> length segs = nat (vstart v) + length (var_parts v val)"
  shows "capture v (render segs) =
    Some (Inr (if size_var v = 1 then val else normal_slashes val))"
proof -
  have cap: "capture v (render segs) =
      Some (pathUnescape (join_with ''/'' (var_parts v val)) (capture_mode v))"
    using capture_render [OF assms(2,3)] covered_placed [OF assms(1,4)] by simp
  have mode: "capture_mode v = (if size_var v = 1 then pathEncodeSingle else pathEncodeMulti)"
    by (auto simp: capture_mode_def size_var_def)
  show ?thesis
    using cap mode by (auto simp: var_parts_def httpSplitVar_def unescape_escape_multi unescape_escape_single)
qed

lemma httpEncodePathValues_Inr:
  assumes "httpEncodePathValues fuel R L rng msg target = Some (Inr (path, query))"
    and "splitVerb (template target) = (tpl, verb)"
  obtains c segs msg' vals where
    "encodeVars R L (vars target) (\<lambda>_. 0) (split_on CHR ''/'' (drop 1 tpl)) msg = Inr (c, segs, msg', vals)"
    and "path = pathURL segs verb"
proof (cases "encodeVars R L (vars target) (\<lambda>_. 0) (split_on CHR ''/'' (drop 1 tpl)) msg")
  case (Inl e)
  then show ?thesis using assms by (simp add: httpEncodePathValues_def)
next
  case (Inr r)
  obtain c segs msg' vals where r: "r = (c, segs, msg', vals)"
    by (metis prod_cases4)
  have "path = pathURL segs verb"
    using assms Inr r
    by (auto simp: httpEncodePathValues_def Let_def split: if_splits option.splits sum.splits)
  then show ?thesis
    using that Inr r by blast
qed

lemma wf_variable_in_range: "wf_variable p (pathVariable.truncate v) \<Longrightarrow> in_range v (length p)"
  by (auto simp: wf_variable_def in_range_def pathVariable.truncate_def split: if_splits)

lemma client_path:
  assumes "good_target R (p, v, m) target"
    and "encodeVars R L (vars target) (\<lambda>_. 0) p msg = Inr (c, segs, msg', vals)"
  shows "pat_matches p segs" and "plain_segments segs" and "segs \<noteq> []"
    and "\<forall>s \<in> set segs. CHR '':'' \<notin> set s"
    and "\<forall>x \<in> set (vars target). in_range x (length segs)"
    and "list_all2 (\<lambda>x val. placed x val segs) (vars target) vals"
proof -
  have wf: "wf_pattern p" and vars: "\<forall>x \<in> set (vars target). wf_variable p (pathVariable.truncate x)"
    using assms(1) by (simp_all add: good_target_def)
  have filled: "filled p segs"
    using encodeVars_filled [OF assms(2) vars filled_refl] .
  then show "pat_matches p segs"
    using wf by (rule filled_matches)
  have "p \<noteq> []" "length p \<le> length segs"
    using wf filled unfolding wf_pattern_def filled_def by blast+
  then show "segs \<noteq> []"
    by auto
  show "plain_segments segs" "\<forall>s \<in> set segs. CHR '':'' \<notin> set s"
    using filled_segment [OF filled wf] by (auto simp: plain_segments_def)
  have range: "\<forall>x \<in> set (vars target). in_range x (length p)"
    using vars wf_variable_in_range by blast
  then show "\<forall>x \<in> set (vars target). in_range x (length segs)"
    using filled in_range_mono unfolding filled_def by blast
  show "list_all2 (\<lambda>x val. placed x val segs) (vars target) vals"
    by (rule encodeVars_placed [OF assms(2) range])
qed

lemma client_path_noMatch:
  assumes "good_table R t" and "route t (p, v, m) = Some target"
    and "httpEncodePathValues fuel R L rng msg target = Some (Inr (path, query))"
  shows "\<not> noMatch (match t path hm)"
proof -
  have good: "good_target R (p, v, m) target"
    using assms(1,2) by (simp add: good_table_def)
  then have wf: "wf_pattern p" and canon: "v \<noteq> [] \<longrightarrow> canonical v"
    by (simp_all add: good_target_def)
  have sv: "splitVerb (template target) = (render p, v)"
    by (rule good_target_split [OF good])
  have "split_on CHR ''/'' (drop 1 (render p)) = p"
    using split_render wf wf_pattern_plain [OF wf] by (simp add: wf_pattern_def)
  then obtain c segs msg' vals where
    enc: "encodeVars R L (vars target) (\<lambda>_. 0) p msg = Inr (c, segs, msg', vals)"
    and path: "path = pathURL segs v"
    using httpEncodePathValues_Inr [OF assms(3) sv] by metis
  note cp = client_path [OF good enc]
  have shape: "path = render segs @ (if v = [] then [] else CHR '':'' # v)"
    using path by (simp add: pathURL_def render_def)
  have verb: "CHR ''/'' \<notin> set v" "CHR '':'' \<notin> set v"
    using canon canonical_special [of v] by (cases "v = []"; simp)+
  have pre: "has_prefix path ''/''"
    using cp(3) shape by (cases segs) (simp_all add: has_prefix_iff)
  have last: "CHR '':'' \<notin> set (last segs)"
    using cp(3,4) by simp
  have suf: "\<not> has_suffix path '':''"
  proof
    assume "has_suffix path '':''"
    then obtain u where u: "path = u @ '':''"
      unfolding has_suffix_iff by blast
    show False
    proof (cases "v = []")
      case True
      have "segs = butlast segs @ [last segs]"
        using cp(3) by simp
      then have "render segs = render (butlast segs) @ CHR ''/'' # last segs"
        by (metis append_Nil2 render_Cons render_Nil render_append)
      then have "u @ '':'' = render (butlast segs) @ CHR ''/'' # last segs"
        using u shape True by simp
      from arg_cong [OF this, of List.last] show False
        using last last_in_set [of "last segs"] by (cases "last segs = []") auto
    next
      case False
      then have "u @ '':'' = render segs @ CHR '':'' # v"
        using u shape by simp
      from arg_cong [OF this, of List.last] show False
        using False verb(2) last_in_set [of v] by auto
    qed
  qed
  have found: "routes t p v \<noteq> None"
    using assms(2) by (auto simp: route_def split: option.splits)
  show ?thesis
  proof
    assume "noMatch (match t path hm)"
    then have "routes t p v = None"
      using noMatch_iff [OF pre suf, where t = t and hm = hm] shape cp(1-3) verb by blast
    then show False
      using found by simp
  qed
qed

section \<open>More fuel changes nothing\<close>

lemma rangeList_cong:
  "(\<And>f v counts query. (f, v) \<in> set fvs \<Longrightarrow> visit f v counts query = visit' f v counts query) \<Longrightarrow>
   rangeList visit fvs counts query = rangeList visit' fvs counts query"
proof (induction fvs arbitrary: counts query)
  case (Cons fv fvs)
  obtain f v where fv: "fv = (f, v)" by fastforce
  have "visit f v counts query = visit' f v counts query"
    using Cons.prems fv by simp
  then show ?case
    using Cons fv by (auto split: option.splits sum.splits)
qed simp

lemma fieldRanger_cong:
  "(\<And>m fs counts query. v = VMessage m \<Longrightarrow> nested fs m counts query = nested' fs m counts query) \<Longrightarrow>
   fieldRanger R L nested prefix f v counts query = fieldRanger R L nested' prefix f v counts query"
  by (cases v) (simp_all add: fieldRanger_def Let_def)

lemma rangeFields_agree:
  "depth_le rng n m \<Longrightarrow> n \<le> k \<Longrightarrow>
   rangeFields k R L rng prefix m counts query = rangeFields n R L rng prefix m counts query"
proof (induction n arbitrary: m k prefix counts query)
  case (Suc n)
  obtain k' where k: "k = Suc k'" "n \<le> k'"
    using Suc.prems(2) by (cases k) auto
  have "rangeFields k' R L rng fs c counts query = rangeFields n R L rng fs c counts query"
    if "(f, VMessage c) \<in> set (rng m)" for f c fs counts query
    using Suc.IH [OF _ k(2)] Suc.prems(1) that by (auto simp: list_all_iff)
  then show ?case
    unfolding k rangeFields.simps by (intro rangeList_cong fieldRanger_cong) blast
qed simp

section \<open>A sample message\<close>

definition bookMsg :: "string \<Rightarrow> string \<Rightarrow> sampleMsg" where
  "bookMsg shelf name =
     SampleMsg (\<lambda>f. if f = ''shelf'' then VMessage (SampleMsg (\<lambda>g. VString shelf)) else VString name)"

definition bookRange :: "sampleMsg \<Rightarrow> (string \<times> (unit, sampleMsg) pvalue) list" where
  "bookRange m =
     (case fieldOf m ''shelf'' of
        VMessage s \<Rightarrow> [(''shelf'', VMessage s), (''name'', fieldOf m ''name'')]
      | v \<Rightarrow> [(''id'', v)])"

definition books_target :: "(string, unit, string) routeTarget" where
  "books_target =
     the (fst (match sample_table ''/v1/s1/books/b:read'' ''GET''))"

lemma books_encoded:
  "httpEncodePathValues 2 sample sampleLib bookRange (bookMsg ''s/1'' ''books/a%/b'') books_target =
     Some (Inr (''/v1/s%2F1/books/a%25/b:read'', []))"
  by code_simp

section \<open>Properties\<close>

text \<open>Every path a client builds for a rule is served by a server that holds the rule: when
  the table was built by adding rules and stores the target, looking up the path that
  the client returns for any message never ends in not found.\<close>

theorem client_path_found:
  assumes "reachable_table R t" and "route t (p, v, m) = Some target"
    and "httpEncodePathValues fuel R L rng msg target = Some (Inr (path, query))"
  shows "\<not> noMatch (match t path hm)"
  by (rule client_path_noMatch [OF reachable_good [OF assms(1)] assms(2,3)])

theorem client_path_found_witness:
  "\<not> noMatch (match sample_table ''/v1/s%2F1/books/a%25/b:read'' ''GET'')"
proof (rule client_path_found [OF sample_reachable _ books_encoded])
  show "route sample_table ([''v1'', ''*'', ''books'', ''**''], ''read'', ''GET'') = Some books_target"
    by code_simp
qed

text \<open>The server captures what the client put into the path: for a stored target, each
  variable of a path that was built is captured as the client's value when it covers one
  segment, and as the value with its escaped slashes in upper case when it covers several;
  for an open-ended variable as long as its value reaches the end of the path.\<close>

theorem client_path_captured:
  assumes "reachable_table R t" and "route t (p, v, m) = Some target"
    and "encodeVars R L (vars target) (\<lambda>_. 0) p msg = Inr (c, segs, msg', vals)"
  shows "list_all2 (\<lambda>x val.
      vend x \<noteq> -1 \<or> length segs = nat (vstart x) + length (httpSplitVar val True) \<longrightarrow>
      capture x (render segs) = Some (Inr (if size_var x = 1 then val else normal_slashes val)))
    (vars target) vals"
proof -
  have "good_target R (p, v, m) target"
    using reachable_good [OF assms(1)] assms(2) by (simp add: good_table_def)
  note cp = client_path [OF this assms(3)]
  show ?thesis
    using cp(6)
  proof (rule list.rel_mono_strong)
    fix x val
    assume "x \<in> set (vars target)" "placed x val segs"
    then have cap: "(vend x = -1 \<longrightarrow> length segs = nat (vstart x) + length (var_parts x val)) \<Longrightarrow>
        capture x (render segs) = Some (Inr (if size_var x = 1 then val else normal_slashes val))"
      using capture_placed [OF _ cp(2)] cp(5) by blast
    have "var_parts x val = httpSplitVar val True" if "vend x = -1"
      using that by (simp add: var_parts_def size_var_def)
    then show "vend x \<noteq> -1 \<or> length segs = nat (vstart x) + length (httpSplitVar val True) \<longrightarrow>
        capture x (render segs) = Some (Inr (if size_var x = 1 then val else normal_slashes val))"
      using cap by metis
  qed
qed

theorem client_path_captured_witness:
  "capture (hd (vars books_target)) (render [''v1'', ''s%2F1'', ''books'', ''a%25'', ''b'']) = Some (Inr ''s/1'')"
proof -
  have r: "route sample_table ([''v1'', ''*'', ''books'', ''**''], ''read'', ''GET'') = Some books_target"
    by code_simp
  have "case encodeVars sample sampleLib (vars books_target) (\<lambda>_. 0) [''v1'', ''*'', ''books'', ''**'']
       (bookMsg ''s/1'' ''books/a%/b'') of
      Inl e \<Rightarrow> False
    | Inr (c, segs, m, vals) \<Rightarrow>
        segs = [''v1'', ''s%2F1'', ''books'', ''a%25'', ''b''] \<and> vals = [''s/1'', ''books/a%/b'']"
    by code_simp
  then obtain c m where
    e: "encodeVars sample sampleLib (vars books_target) (\<lambda>_. 0) [''v1'', ''*'', ''books'', ''**'']
       (bookMsg ''s/1'' ''books/a%/b'') =
     Inr (c, [''v1'', ''s%2F1'', ''books'', ''a%25'', ''b''], m, [''s/1'', ''books/a%/b''])"
    by (auto split: sum.splits prod.splits)
  have v: "vars books_target \<noteq> []" "vend (hd (vars books_target)) \<noteq> -1" "size_var (hd (vars books_target)) = 1"
    by code_simp+
  show ?thesis
    using client_path_captured [OF sample_reachable r e] v(2,3)
    by (cases "vars books_target") (use v(1) in \<open>auto simp del: render_Cons\<close>)
qed



text \<open>An open-ended variable whose value has fewer segments than its pattern is not
  rejected: the client sends the double star of the pattern itself, and the server captures
  it as part of the value.\<close>

theorem open_ended_value_short:
  "httpEncodePathValues 2 sample sampleLib bookRange (bookMsg ''s'' ''books'') books_target =
     Some (Inr (''/v1/s/books/**:read'', [])) \<and>
   capture (last (vars books_target)) ''/v1/s/books/**'' = Some (Inr ''books/**'')"
  by code_simp

end
