(* ===== verification/Bodies.thy ===== *)
theory Bodies
  imports RouteTarget Params
begin

text \<open>
  Bodies of requests and responses: the rest of \<open>encoding.go\<close>.  An \<open>io.Reader\<close> is the text
  that is left to read and the error every read after it gives (\<open>EOF\<close> at a regular end);
  \<open>io.ReadAll\<close>, \<open>io.ReadFull\<close> and \<open>http.MaxBytesReader\<close> are written out on it.  A codec is a
  record of its methods: \<open>MarshalWrite\<close> fails before it writes, or writes the encoded message.
  \<open>D\<close> is the method \<open>Descriptor\<close> of a message.  Error texts that \<open>fmt\<close> builds from values of
  other packages are in the record \<open>texts\<close>.
\<close>

section \<open>Readers\<close>

record reader =
  rdData :: string
  rdErr :: goError

definition readAll :: "reader \<Rightarrow> string \<times> goError option" where
  "readAll r = (rdData r, if rdErr r = EOF then None else Some (rdErr r))"

definition readFull :: "nat \<Rightarrow> reader \<Rightarrow> string \<times> goError option \<times> reader" where
  "readFull n r =
     (let data = rdData r in
      if n \<le> length data then (take n data, None, r\<lparr>rdData := drop n data\<rparr>)
      else
        (data, Some (if rdErr r = EOF \<and> data \<noteq> [] then UnexpectedEOF else rdErr r), r\<lparr>rdData := []\<rparr>))"

definition maxBytesReader :: "nat \<Rightarrow> reader \<Rightarrow> reader" where
  "maxBytesReader limit r =
     (if length (rdData r) \<le> limit then r else \<lparr>rdData = take limit (rdData r), rdErr = MaxBytesError\<rparr>)"

definition bodyChunkSize :: nat where
  "bodyChunkSize = 32 * 1024"

definition readChunk :: "reader \<Rightarrow> (goError + string) \<times> reader" where
  "readChunk body =
     (let (buf, err, body) = readFull bodyChunkSize body;
          err = (case err of
                   Some e \<Rightarrow> if errorsIs e UnexpectedEOF then None else Some e
                 | None \<Rightarrow> None) in
      case err of
        Some e \<Rightarrow> (Inl e, body)
      | None \<Rightarrow> (Inr buf, body))"

section \<open>Codecs and texts\<close>

record ('fld, 'v) restCodec =
  codecName :: string
  unmarshalRead :: "reader \<Rightarrow> 'v \<Rightarrow> goError option \<times> 'v"
  unmarshalField :: "string \<Rightarrow> 'v \<Rightarrow> 'fld \<Rightarrow> goError option \<times> 'v"
  marshalWrite :: "'v \<Rightarrow> goError + string"
  marshalAppendField :: "'v \<Rightarrow> 'fld \<Rightarrow> goError + string"
  marshalStatus :: "status \<Rightarrow> string"
  unmarshalStatus :: "string \<Rightarrow> status \<times> bool"

record 'fld texts =
  connText :: "connectError \<Rightarrow> string"
  paramText :: "string \<Rightarrow> paramError \<Rightarrow> string \<Rightarrow> string"
  fieldText :: "fieldError \<Rightarrow> string"
  walkText :: "'fld \<Rightarrow> string"
  quoteText :: "string \<Rightarrow> string"

section \<open>google.api.HttpBody\<close>

definition isHTTPBody :: "('mtd, 'msg, 'fld) reflect \<Rightarrow> 'msg option \<Rightarrow> bool" where
  "isHTTPBody R msgDesc = (case msgDesc of None \<Rightarrow> False | Some d \<Rightarrow> FullName R d = httpBodyTypeName)"

text \<open>A \<open>google.api.HttpBody\<close> has the two fields; setting a field it lacks would panic.\<close>

definition setNamed ::
  "('mtd, 'msg, 'fld) reflect \<Rightarrow> ('f, 'fld, 'v) paramlib \<Rightarrow> 'msg \<Rightarrow> string \<Rightarrow> ('f, 'v) pvalue \<Rightarrow> 'v \<Rightarrow> 'v"
where
  "setNamed R L desc name x msg =
     (case ByName R desc name of Some field \<Rightarrow> mset L msg field x | None \<Rightarrow> msg)"

definition setHTTPBody ::
  "('mtd, 'msg, 'fld) reflect \<Rightarrow> ('f, 'fld, 'v) paramlib \<Rightarrow> ('v \<Rightarrow> 'msg) \<Rightarrow> 'v \<Rightarrow> string \<Rightarrow> string \<Rightarrow> 'v"
where
  "setHTTPBody R L D msg contentType data =
     (let desc = D msg;
          msg = setNamed R L desc ''content_type'' (VString contentType) msg
      in setNamed R L desc ''data'' (VBytes data) msg)"

definition getNamed ::
  "('mtd, 'msg, 'fld) reflect \<Rightarrow> ('f, 'fld, 'v) paramlib \<Rightarrow> ('v \<Rightarrow> 'msg) \<Rightarrow> 'v \<Rightarrow> string \<Rightarrow> string"
where
  "getNamed R L D host name =
     (case ByName R (D host) name of
        None \<Rightarrow> []
      | Some field \<Rightarrow> (case mget L host field of VString s \<Rightarrow> s | VBytes s \<Rightarrow> s | _ \<Rightarrow> []))"

text \<open>
  \<open>Mutable(field).Message()\<close> and \<open>Get(field).Message()\<close> give the message a field holds; a
  change to it is a change to every message above it.
\<close>

definition childMessage :: "('f, 'fld, 'v) paramlib \<Rightarrow> 'v \<Rightarrow> 'fld \<Rightarrow> 'v" where
  "childMessage L m field = (case mget L m field of VMessage c \<Rightarrow> c | _ \<Rightarrow> m)"

fun putMessage :: "('f, 'fld, 'v) paramlib \<Rightarrow> 'v \<Rightarrow> 'fld list \<Rightarrow> 'v \<Rightarrow> 'v" where
  "putMessage L root [] host = host"
| "putMessage L root (field # fs) host =
     mset L root field (VMessage (putMessage L (childMessage L root field) fs host))"

definition hostPath :: "'fld list \<Rightarrow> 'fld option \<Rightarrow> 'fld list" where
  "hostPath fs leaf = (if leaf = None then fs else butlast fs)"

definition setBodyHTTPBody ::
  "'fld texts \<Rightarrow> ('mtd, 'msg, 'fld) reflect \<Rightarrow> ('f, 'fld, 'v) paramlib \<Rightarrow> ('v \<Rightarrow> 'msg) \<Rightarrow>
   'fld list \<Rightarrow> 'v \<Rightarrow> string \<Rightarrow> string \<Rightarrow> goError option \<times> 'v"
where
  "setBodyHTTPBody T R L D fs msg contentType data =
     (case walkBodyFields R fs msg (childMessage L) of
        Inl field \<Rightarrow> (Some (OtherError (walkText T field)), msg)
      | Inr (host, leaf) \<Rightarrow>
          (None, putMessage L msg (hostPath fs leaf) (setHTTPBody R L D host contentType data)))"

section \<open>Decoding and encoding\<close>

definition decodeBody ::
  "'fld texts \<Rightarrow> ('mtd, 'msg, 'fld) reflect \<Rightarrow> ('f, 'fld, 'v) paramlib \<Rightarrow> ('v \<Rightarrow> 'msg) \<Rightarrow>
   reader \<Rightarrow> string \<Rightarrow> 'fld list \<Rightarrow> ('fld, 'v) restCodec \<Rightarrow> 'v \<Rightarrow> goError option \<times> 'v"
where
  "decodeBody T R L D body contentType fs codec msg =
     (case walkBodyFields R fs msg (childMessage L) of
        Inl field \<Rightarrow> (Some (OtherError (walkText T field)), msg)
      | Inr (host, leaf) \<Rightarrow>
          (let put = putMessage L msg (hostPath fs leaf);
               readError = (\<lambda>err. Some (Wrapped (''read body: '' @ errorText (connText T) err) err)) in
           if leaf = None \<and> isHTTPBody R (Some (D host)) then
             (case readAll body of
                (data, Some err) \<Rightarrow> (readError err, put host)
              | (data, None) \<Rightarrow> (None, put (setHTTPBody R L D host contentType data)))
           else
             (case leaf of
                None \<Rightarrow> (let (err, host) = unmarshalRead codec body host in (err, put host))
              | Some field \<Rightarrow>
                  (case readAll body of
                     (data, Some err) \<Rightarrow> (readError err, put host)
                   | (data, None) \<Rightarrow>
                       (let (err, host) = unmarshalField codec data host field in (err, put host))))))"

definition bodyContentType ::
  "('mtd, 'msg, 'fld) reflect \<Rightarrow> ('f, 'fld, 'v) paramlib \<Rightarrow> ('v \<Rightarrow> 'msg) \<Rightarrow>
   'fld list \<Rightarrow> 'v \<Rightarrow> ('fld, 'v) restCodec \<Rightarrow> string"
where
  "bodyContentType R L D fs msg codec =
     (case walkBodyFields R fs msg (childMessage L) of
        Inr (host, None) \<Rightarrow>
          if isHTTPBody R (Some (D host)) then getNamed R L D host ''content_type''
          else ''application/'' @ codecName codec
      | _ \<Rightarrow> ''application/'' @ codecName codec)"

text \<open>The writer is a function from the state of what is written to and the text.\<close>

definition encodeBody ::
  "'fld texts \<Rightarrow> ('mtd, 'msg, 'fld) reflect \<Rightarrow> ('f, 'fld, 'v) paramlib \<Rightarrow> ('v \<Rightarrow> 'msg) \<Rightarrow>
   (string \<Rightarrow> 's \<Rightarrow> goError option \<times> 's) \<Rightarrow> 'fld list \<Rightarrow> 'v \<Rightarrow> ('fld, 'v) restCodec \<Rightarrow> 's \<Rightarrow>
   goError option \<times> 's"
where
  "encodeBody T R L D write fs msg codec sink =
     (case walkBodyFields R fs msg (childMessage L) of
        Inl field \<Rightarrow> (Some (OtherError (walkText T field)), sink)
      | Inr (host, leaf) \<Rightarrow>
          if leaf = None \<and> isHTTPBody R (Some (D host)) then write (getNamed R L D host ''data'') sink
          else
            (case (case leaf of
                     None \<Rightarrow> marshalWrite codec host
                   | Some field \<Rightarrow> marshalAppendField codec host field) of
               Inl err \<Rightarrow> (Some err, sink)
             | Inr data \<Rightarrow> write data sink))"

section \<open>Timeouts\<close>

text \<open>
  The floating-point operations of the two timeout functions: the result of \<open>ParseFloat\<close> with
  its kind of error, the tests and the conversion to nanoseconds, and the decimal text of a
  duration in seconds.
\<close>

datatype parseErr = ParseOK | ErrRange | ErrSyntax

record 'f timelib =
  parseSeconds :: "string \<Rightarrow> 'f \<times> parseErr"
  secondsNaN :: "'f \<Rightarrow> bool"
  secondsNegative :: "'f \<Rightarrow> bool"
  secondsTooLong :: "'f \<Rightarrow> bool"
  toDuration :: "'f \<Rightarrow> int"
  formatSeconds :: "int \<Rightarrow> string"

definition restDecodeTimeout :: "'f timelib \<Rightarrow> string \<Rightarrow> string + int" where
  "restDecodeTimeout F timeout =
     (if timeout = [] then Inr 0
      else
        (let (val, err) = parseSeconds F timeout in
         if err = ErrSyntax then Inl timeout
         else if secondsNaN F val \<or> secondsNegative F val then Inl timeout
         else if secondsTooLong F val then Inr (2 ^ 63 - 1)
         else Inr (toDuration F val)))"

definition restEncodeTimeout :: "'f timelib \<Rightarrow> int \<Rightarrow> string" where
  "restEncodeTimeout F timeout = (if timeout = 0 then [] else formatSeconds F timeout)"


section \<open>What the code relies on\<close>

text \<open>
  The documented behaviour of messages: setting a field keeps the message's type, and
  \<open>google.api.HttpBody\<close> has its two fields.  \<open>path_messages\<close> says that a message follows its
  descriptors along a path: every field is singular and holds a message of the field's type.
\<close>

definition lawful_bodies ::
  "('mtd, 'msg, 'fld) reflect \<Rightarrow> ('f, 'fld, 'v) paramlib \<Rightarrow> ('v \<Rightarrow> 'msg) \<Rightarrow> bool"
where
  "lawful_bodies R L D \<longleftrightarrow>
     lawful_messages L \<and>
     (\<forall>m f x. D (mset L m f x) = D m) \<and>
     (\<forall>d. FullName R d = httpBodyTypeName \<longrightarrow>
        (\<exists>cf df. ByName R d ''content_type'' = Some cf \<and> ByName R d ''data'' = Some df \<and> cf \<noteq> df))"

definition lawful_time :: "'f timelib \<Rightarrow> bool" where
  "lawful_time F \<longleftrightarrow>
     (\<forall>x. \<not> secondsNaN F x \<longrightarrow> \<not> secondsNegative F x \<longrightarrow> \<not> secondsTooLong F x \<longrightarrow>
        0 \<le> toDuration F x \<and> toDuration F x < 2 ^ 63)"

fun path_messages ::
  "('mtd, 'msg, 'fld) reflect \<Rightarrow> ('f, 'fld, 'v) paramlib \<Rightarrow> ('v \<Rightarrow> 'msg) \<Rightarrow> 'v \<Rightarrow> 'fld list \<Rightarrow> bool"
where
  "path_messages R L D root [] = True"
| "path_messages R L D root (f # fs) =
     (case mget L root f of
        VMessage c \<Rightarrow> \<not> Repeated R f \<and> Message R f = Some (D c) \<and> path_messages R L D c fs
      | _ \<Rightarrow> False)"

section \<open>A message put below a root is found there\<close>

lemma foldl_putMessage:
  "lawful_messages L \<Longrightarrow> foldl (childMessage L) (putMessage L root fs host) fs = host"
  by (induction fs arbitrary: root) (simp_all add: lawful_messages_def childMessage_def)

lemma putMessage_desc: "lawful_bodies R L D \<Longrightarrow> fs \<noteq> [] \<Longrightarrow> D (putMessage L root fs host) = D root"
  by (cases fs) (auto simp: lawful_bodies_def)

lemma walk_messages:
  "path_messages R L D m fs \<Longrightarrow> walkBodyFields R fs root acc = Inr (foldl acc root fs, None)"
proof -
  have "walkBody_loop R acc host leaf fs = Inr (foldl acc host fs, leaf)"
    if "path_messages R L D m fs" for host leaf
    using that by (induction R L D m fs arbitrary: host rule: path_messages.induct)
      (auto split: pvalue.splits)
  then show "path_messages R L D m fs \<Longrightarrow> walkBodyFields R fs root acc = Inr (foldl acc root fs, None)"
    by (simp add: walkBodyFields_def)
qed

lemma host_desc:
  "path_messages R L D root fs \<Longrightarrow> fs \<noteq> [] \<Longrightarrow>
   Message R (last fs) = Some (D (foldl (childMessage L) root fs))"
proof (induction R L D root fs rule: path_messages.induct)
  case (2 R L D root f fs)
  then obtain c where c: "mget L root f = VMessage c" "path_messages R L D c fs" "Message R f = Some (D c)"
    by (auto split: pvalue.splits)
  have "childMessage L root f = c"
    using c(1) by (simp add: childMessage_def)
  then show ?case
    using 2 c by (cases "fs = []") simp_all
qed simp

lemma host_is_body:
  assumes "path_messages R L D root fs" and "isHTTPBodyPath R fs (D root)"
  shows "FullName R (D (foldl (childMessage L) root fs)) = httpBodyTypeName"
  using host_desc [OF assms(1)] assms(2)
  by (cases "fs = []") (auto simp: isHTTPBodyPath_def Let_def split: if_splits)

lemma setHTTPBody_get:
  assumes "lawful_bodies R L D" and "FullName R (D m) = httpBodyTypeName"
  shows "getNamed R L D (setHTTPBody R L D m ct data) ''data'' = data"
    and "getNamed R L D (setHTTPBody R L D m ct data) ''content_type'' = ct"
    and "D (setHTTPBody R L D m ct data) = D m"
proof -
  obtain cf df where cf: "ByName R (D m) ''content_type'' = Some cf" "ByName R (D m) ''data'' = Some df" "cf \<noteq> df"
    using assms unfolding lawful_bodies_def by blast
  have keep: "D (mset L x f y) = D x" and get: "mget L (mset L x f y) g = (if g = f then y else mget L x g)" for x f y g
    using assms(1) by (simp_all add: lawful_bodies_def lawful_messages_def)
  show "getNamed R L D (setHTTPBody R L D m ct data) ''data'' = data"
    "getNamed R L D (setHTTPBody R L D m ct data) ''content_type'' = ct"
    "D (setHTTPBody R L D m ct data) = D m"
    using cf by (simp_all add: setHTTPBody_def setNamed_def getNamed_def keep get Let_def)
qed

lemma setBody_encode:
  assumes "lawful_bodies R L D" and "path_messages R L D msg fs" and "isHTTPBodyPath R fs (D msg)"
    and "setBodyHTTPBody T R L D fs msg ct data = (e, msg')"
  shows "e = None" and "encodeBody T R L D write fs msg' codec sink = write data sink"
    and "bodyContentType R L D fs msg' codec = ct" and "D msg' = D msg"
proof -
  let ?host = "foldl (childMessage L) msg fs"
  let ?new = "setHTTPBody R L D ?host ct data"
  note body = host_is_body [OF assms(2,3)]
  note get = setHTTPBody_get [OF assms(1) body, of ct data]
  have e: "e = None" and m: "msg' = putMessage L msg fs ?new"
    using assms(4) by (simp_all add: setBodyHTTPBody_def hostPath_def walk_messages [OF assms(2)])
  show "e = None" by (rule e)
  have walk: "walkBodyFields R fs msg' (childMessage L) = Inr (?new, None)"
    using foldl_putMessage [of L msg fs ?new] assms(1) m by (simp add: lawful_bodies_def walk_messages [OF assms(2)])
  show "encodeBody T R L D write fs msg' codec sink = write data sink"
    "bodyContentType R L D fs msg' codec = ct"
    using get body walk by (simp_all add: encodeBody_def bodyContentType_def isHTTPBody_def)
  show "D msg' = D msg"
    using m putMessage_desc [OF assms(1)] get(3) by (cases "fs = []") simp_all
qed

lemma decodeBody_http:
  assumes "lawful_bodies R L D" and "path_messages R L D msg fs" and "isHTTPBodyPath R fs (D msg)"
  shows "decodeBody T R L D \<lparr>rdData = data, rdErr = EOF\<rparr> ct fs codec msg =
    setBodyHTTPBody T R L D fs msg ct data"
  using host_is_body [OF assms(2,3)]
  by (simp add: decodeBody_def setBodyHTTPBody_def readAll_def isHTTPBody_def Let_def
      walk_messages [OF assms(2)])

section \<open>The chunks of a body\<close>

text \<open>What \<open>n\<close> calls of \<open>readChunk\<close> give: the chunks, and the error that ended them, if any.\<close>

primrec readChunks :: "nat \<Rightarrow> reader \<Rightarrow> string list \<times> goError option" where
  "readChunks 0 body = ([], None)"
| "readChunks (Suc n) body =
     (case readChunk body of
        (Inl e, body) \<Rightarrow> ([], Some e)
      | (Inr data, body) \<Rightarrow> (let (ds, e) = readChunks n body in (data # ds, e)))"

lemma bodyChunkSize_pos: "0 < bodyChunkSize"
  by (simp add: bodyChunkSize_def)

lemma readChunk_full:
  "bodyChunkSize \<le> length (rdData b) \<Longrightarrow>
   readChunk b = (Inr (take bodyChunkSize (rdData b)), b\<lparr>rdData := drop bodyChunkSize (rdData b)\<rparr>)"
  by (simp add: readChunk_def readFull_def Let_def)

lemma readChunk_short:
  "length (rdData b) < bodyChunkSize \<Longrightarrow>
   readChunk b =
     (if rdErr b = EOF \<and> rdData b \<noteq> [] \<or> errorsIs (rdErr b) UnexpectedEOF then Inr (rdData b)
      else Inl (rdErr b), b\<lparr>rdData := []\<rparr>)"
  by (auto simp: readChunk_def readFull_def Let_def)

lemma readChunks_EOF:
  "rdErr b = EOF \<Longrightarrow> length (rdData b) div bodyChunkSize + 1 < n \<Longrightarrow>
   \<exists>ds. readChunks n b = (ds, Some EOF) \<and> concat ds = rdData b \<and>
     list_all (\<lambda>d. d \<noteq> [] \<and> length d \<le> bodyChunkSize) ds"
proof (induction n arbitrary: b)
  case (Suc n)
  show ?case
  proof (cases "bodyChunkSize \<le> length (rdData b)")
    case True
    let ?b = "b\<lparr>rdData := drop bodyChunkSize (rdData b)\<rparr>"
    have "length (rdData b) div bodyChunkSize = Suc (length (rdData ?b) div bodyChunkSize)"
      using True bodyChunkSize_pos by (simp add: le_div_geq)
    then obtain ds where ds: "readChunks n ?b = (ds, Some EOF)" "concat ds = rdData ?b"
        "list_all (\<lambda>d. d \<noteq> [] \<and> length d \<le> bodyChunkSize) ds"
      using Suc.IH [of ?b] Suc.prems by auto
    have "take bodyChunkSize (rdData b) \<noteq> []"
      using True bodyChunkSize_pos by auto
    then show ?thesis
      using ds readChunk_full [OF True] by auto
  next
    case False
    show ?thesis
    proof (cases "rdData b = []")
      case True
      then show ?thesis
        using Suc.prems(1) readChunk_short [of b] False by simp
    next
      case data: False
      then obtain k where "n = Suc k"
        using Suc.prems(2) by (cases n) auto
      then show ?thesis
        using Suc.prems(1) readChunk_short [of b] readChunk_short [of "b\<lparr>rdData := []\<rparr>"] False data bodyChunkSize_pos
        by simp
    qed
  qed
qed simp

lemma readChunks_truncated: "errorsIs (rdErr b) UnexpectedEOF \<Longrightarrow> snd (readChunks n b) = None"
proof (induction n arbitrary: b)
  case (Suc n)
  then have "\<exists>d. readChunk b = (Inr d, b\<lparr>rdData := drop bodyChunkSize (rdData b)\<rparr>)"
    using readChunk_full [of b] readChunk_short [of b] by (cases "bodyChunkSize \<le> length (rdData b)") auto
  then obtain d where d: "readChunk b = (Inr d, b\<lparr>rdData := drop bodyChunkSize (rdData b)\<rparr>)"
    by blast
  have "snd (readChunks n (b\<lparr>rdData := drop bodyChunkSize (rdData b)\<rparr>)) = None"
    using Suc by simp
  then show ?case
    using d by (simp add: case_prod_unfold Let_def)
qed simp


section \<open>Messages for concrete instances\<close>

text \<open>A message is its type's name and its fields.\<close>

datatype typedMsg = TypedMsg (typeName: string) (typedField: "string \<Rightarrow> (unit, typedMsg) pvalue")

definition uploadReflect :: "(string, string, string) reflect" where
  "uploadReflect =
     sample\<lparr>ByName := (\<lambda>m n. if m = ''google.api.HttpBody'' \<and> n \<in> {''content_type'', ''data''} then Some n
                             else ByName sample m n),
       FullName := (\<lambda>m. m),
       Message := (\<lambda>f. if f = ''file'' then Some ''google.api.HttpBody'' else Message sample f)\<rparr>"

definition uploadLib :: "(unit, string, typedMsg) paramlib" where
  "uploadLib =
     \<lparr>parseFloat = (\<lambda>b s. None), jsonFloat = (\<lambda>b s. None),
      marshalJSONFloat = (\<lambda>b x. Inr ''0''), NaN = (), PosInf = (), NegInf = (),
      isNaN = (\<lambda>x. False), isPosInf = (\<lambda>x. False), isNegInf = (\<lambda>x. False),
      enumByName = (\<lambda>f s. None), enumByNumber = (\<lambda>f n. None), enumFullName = (\<lambda>f. None),
      valueField = (\<lambda>f. f), mget = typedField,
      mset = (\<lambda>m f v. TypedMsg (typeName m) ((typedField m)(f := v))), newField = (\<lambda>m f. m),
      protojsonUnmarshal = (\<lambda>s m. Inl (ProtoError s)), protojsonMarshal = (\<lambda>m. Inl (ProtoError [])),
      jsonValid = (\<lambda>s. False), appendQuote = (\<lambda>s. s), strconvUnquote = (\<lambda>s. Some s)\<rparr>"

definition uploadMsg :: typedMsg where
  "uploadMsg =
     TypedMsg ''Upload''
       (\<lambda>f. if f = ''file'' then VMessage (TypedMsg ''google.api.HttpBody'' (\<lambda>g. VString [])) else VString [])"

definition plainTexts :: "string texts" where
  "plainTexts = \<lparr>connText = message, paramText = (\<lambda>p e s. p), fieldText = (\<lambda>e. []), walkText = (\<lambda>f. f), quoteText = (\<lambda>s. s)\<rparr>"

definition plainCodec :: "(string, typedMsg) restCodec" where
  "plainCodec =
     \<lparr>codecName = ''json'', unmarshalRead = (\<lambda>r m. (None, m)), unmarshalField = (\<lambda>s m f. (None, m)),
      marshalWrite = (\<lambda>m. Inr ''{}''), marshalAppendField = (\<lambda>m f. Inr ''{}''), marshalStatus = (\<lambda>s. statusMessage s),
      unmarshalStatus = (\<lambda>s. (\<lparr>statusCode = 0, statusMessage = s, statusDetails = []\<rparr>, False))\<rparr>"

lemma upload_lawful: "lawful_bodies uploadReflect uploadLib typeName"
  by (simp add: lawful_bodies_def lawful_messages_def uploadReflect_def uploadLib_def httpBodyTypeName_def)

lemma upload_path:
  "path_messages uploadReflect uploadLib typeName uploadMsg [''file'']"
  "isHTTPBodyPath uploadReflect [''file''] (typeName uploadMsg)"
  by (simp_all add: uploadReflect_def uploadLib_def uploadMsg_def sample_def isHTTPBodyPath_def
      httpBodyTypeName_def Let_def)

section \<open>Properties\<close>

text \<open>The bytes of a google.api.HttpBody pass through untouched: after a whole body was
  decoded into the body field of a message, encoding that field writes exactly the same
  bytes, whatever they are, and reports the same content type; the codec plays no part.\<close>

theorem http_body_verbatim:
  assumes "lawful_bodies R L D" and "path_messages R L D msg fs" and "isHTTPBodyPath R fs (D msg)"
    and "decodeBody T R L D \<lparr>rdData = data, rdErr = EOF\<rparr> ct fs codec msg = (e, msg')"
  shows "e = None \<and> encodeBody T R L D write fs msg' codec sink = write data sink \<and>
    bodyContentType R L D fs msg' codec = ct"
  using setBody_encode [OF assms(1-3)] assms(4) decodeBody_http [OF assms(1-3)] by metis

theorem http_body_verbatim_witness:
  "\<exists>m. decodeBody plainTexts uploadReflect uploadLib typeName \<lparr>rdData = ''a%0'', rdErr = EOF\<rparr> ''image/png''
       [''file''] plainCodec uploadMsg = (None, m) \<and>
     bodyContentType uploadReflect uploadLib typeName [''file''] m plainCodec = ''image/png''"
proof -
  obtain e m where d: "decodeBody plainTexts uploadReflect uploadLib typeName
      \<lparr>rdData = ''a%0'', rdErr = EOF\<rparr> ''image/png'' [''file''] plainCodec uploadMsg = (e, m)"
    by fastforce
  show ?thesis
    using http_body_verbatim [OF upload_lawful upload_path d, of "\<lambda>x s. (None, s)" "()"] d by auto
qed

text \<open>A body read in chunks arrives complete: reading a body that ends regularly gives, after
  at most one call for every 32 KiB and two more, the end of the body, and the chunks before
  it are not empty, are at most 32 KiB long and join to exactly the body.\<close>

theorem chunks_complete:
  assumes "rdErr body = EOF" and "length (rdData body) div bodyChunkSize + 2 \<le> n"
  shows "\<exists>ds. readChunks n body = (ds, Some EOF) \<and> concat ds = rdData body \<and>
    list_all (\<lambda>d. d \<noteq> [] \<and> length d \<le> bodyChunkSize) ds"
  using readChunks_EOF [OF assms(1)] assms(2) by simp

theorem chunks_complete_witness:
  "\<exists>ds. readChunks 2 \<lparr>rdData = ''abc'', rdErr = EOF\<rparr> = (ds, Some EOF) \<and> concat ds = ''abc''"
  using chunks_complete [of "\<lparr>rdData = ''abc'', rdErr = EOF\<rparr>" 2] by (auto simp: bodyChunkSize_def)

text \<open>A body that was cut off never ends and never fails: when the reader reports an
  unexpected end, as net/http and gzip readers do for a truncated body, every call of
  the chunk reader succeeds, with an empty chunk once the data is used up.\<close>

theorem truncated_body_endless:
  assumes "errorsIs (rdErr body) UnexpectedEOF"
  shows "snd (readChunks n body) = None \<and>
    (if rdData body = [] then readChunk body = (Inr [], body) else True)"
  using readChunks_truncated [OF assms] readChunk_short [of body] bodyChunkSize_pos assms by simp

theorem truncated_body_endless_witness:
  "snd (readChunks 1000 \<lparr>rdData = ''abc'', rdErr = UnexpectedEOF\<rparr>) = None"
  using truncated_body_endless [of "\<lparr>rdData = ''abc'', rdErr = UnexpectedEOF\<rparr>" 1000] by simp


definition wholeSeconds :: "int timelib" where
  "wholeSeconds =
     \<lparr>parseSeconds = (\<lambda>s. case parseInt 64 s of Some n \<Rightarrow> (n, ParseOK) | None \<Rightarrow> (0, ErrSyntax)),
      secondsNaN = (\<lambda>x. False), secondsNegative = (\<lambda>x. x < 0), secondsTooLong = (\<lambda>x. x \<ge> 9223372036),
      toDuration = (\<lambda>x. x * 1000000000), formatSeconds = (\<lambda>d. decimal d)\<rparr>"


end
