(* ===== verification/RequestURL.thy ===== *)
theory RequestURL
  imports ClientPath Bodies
begin

text \<open>
  A request at the server: \<open>decodeRequestURL\<close> of \<open>encoding.go\<close>, which sets the path variables
  and then the query parameters on the request message.  The request is the part of
  \<open>http.Request\<close> the code reads.  \<open>None\<close> is a panic.
\<close>

section \<open>Requests\<close>

record request =
  rqMethod :: string
  rqRemoteAddr :: string
  rqPath :: string
  rqEscapedPath :: string
  rqRawQuery :: string
  rqHeader :: headers
  rqContentLength :: int
  rqBody :: reader
  rqPattern :: string

section \<open>Decoding the URL\<close>

text \<open>The loop over the variables, last one first, and the loop over the query.\<close>

fun decodeVars ::
  "'fld texts \<Rightarrow> ('mtd, 'msg, 'fld) reflect \<Rightarrow> ('f, 'fld, 'v) paramlib \<Rightarrow> string \<Rightarrow>
   'fld routeTargetVar list \<Rightarrow> 'v \<Rightarrow> (goError option \<times> 'v) option"
where
  "decodeVars T R L path [] msg = Some (None, msg)"
| "decodeVars T R L path (variable # vs) msg =
     (case capture variable path of
        None \<Rightarrow> None
      | Some (Inl err) \<Rightarrow> Some (Some (Wrapped (''path variable: '' @ err) (OtherError err)), msg)
      | Some (Inr val) \<Rightarrow>
          (case setParameter R L (paramText T) msg (flds variable) val of
             (Some err, msg) \<Rightarrow>
               Some (Some (Wrapped (''path variable: '' @ connText T err) (Conn err)), msg)
           | (None, msg) \<Rightarrow> decodeVars T R L path vs msg))"

definition isUnknownField :: "fieldError \<Rightarrow> bool" where
  "isUnknownField err = (case err of UnknownField _ _ _ \<Rightarrow> True | _ \<Rightarrow> False)"

fun decodeQuery ::
  "'fld texts \<Rightarrow> ('mtd, 'msg, 'fld) reflect \<Rightarrow> ('f, 'fld, 'v) paramlib \<Rightarrow> bool \<Rightarrow> 'msg \<Rightarrow>
   (string \<times> string) list \<Rightarrow> 'v \<Rightarrow> goError option \<times> 'v"
where
  "decodeQuery T R L discardUnknownQueryParams desc [] msg = (None, msg)"
| "decodeQuery T R L discardUnknownQueryParams desc ((path, val) # params) msg =
     (let failed = (\<lambda>s err. Some (Wrapped (''query parameter '' @ quoteText T path @ '': '' @ s) err)) in
      case appendPathToFieldDescriptors R [] desc path True of
        Inl err \<Rightarrow>
          if discardUnknownQueryParams \<and> isUnknownField err
          then decodeQuery T R L discardUnknownQueryParams desc params msg
          else (failed (fieldText T err) (OtherError (fieldText T err)), msg)
      | Inr fs \<Rightarrow>
          (case setParameter R L (paramText T) msg fs val of
             (Some err, msg) \<Rightarrow> (failed (connText T err) (Conn err), msg)
           | (None, msg) \<Rightarrow> decodeQuery T R L discardUnknownQueryParams desc params msg))"

definition decodeRequestURL ::
  "'fld texts \<Rightarrow> ('mtd, 'msg, 'fld) reflect \<Rightarrow> ('f, 'fld, 'v) paramlib \<Rightarrow> ('v \<Rightarrow> 'msg) \<Rightarrow>
   request \<Rightarrow> ('mtd, 'typ, 'fld) routeTarget \<Rightarrow> bool \<Rightarrow> 'v \<Rightarrow> (goError option \<times> 'v) option"
where
  "decodeRequestURL T R L D request target discardUnknownQueryParams msg =
     (case trimVerb target (rqEscapedPath request) of
        None \<Rightarrow> None
      | Some path \<Rightarrow>
          (case decodeVars T R L path (rev (vars target)) msg of
             None \<Rightarrow> None
           | Some (Some err, msg) \<Rightarrow> Some (Some err, msg)
           | Some (None, msg') \<Rightarrow>
               Some (decodeQuery T R L discardUnknownQueryParams (D msg)
                       (queryValues (rqRawQuery request)) msg')))"

section \<open>No panic after a match\<close>

lemma decodeVars_captured:
  "\<forall>x \<in> set vs. capture x path \<noteq> None \<Longrightarrow> decodeVars T R L path vs msg \<noteq> None"
  by (induction vs arbitrary: msg) (auto split: option.splits sum.splits prod.splits)

section \<open>Values set on the server are those read on the client\<close>

text \<open>
  The leaf of a path in a message does not change when the client reads a parameter (it only
  materialises messages on the way).
\<close>

definition same_leaves :: "('f, 'fld, 'v) paramlib \<Rightarrow> 'v \<Rightarrow> 'v \<Rightarrow> bool" where
  "same_leaves L m m' \<longleftrightarrow>
     (\<forall>fs v. leafValue L m fs = Some v \<longrightarrow> (\<forall>c. v \<noteq> VMessage c) \<longrightarrow> leafValue L m' fs = Some v)"

lemma same_leaves_refl: "same_leaves L m m"
  and same_leaves_trans: "same_leaves L m m' \<Longrightarrow> same_leaves L m' m'' \<Longrightarrow> same_leaves L m m''"
  by (simp_all add: same_leaves_def)

lemma leafValue_other:
  "mget L m' (hd fs) = mget L m (hd fs) \<Longrightarrow> leafValue L m' fs = leafValue L m fs"
  by (cases "(L, m, fs)" rule: leafValue.cases) simp_all

lemma getPath_same_leaves:
  "lawful_messages L \<Longrightarrow> same_leaves L m (snd (getPath R L m fs index))"
proof (induction R L m fs index rule: getPath.induct)
  case (3 R L m f g fs index)
  show ?case
  proof (cases "mget L m f")
    case (VMessage c)
    let ?c = "snd (getPath R L c (g # fs) index)"
    have ih: "same_leaves L c ?c"
      using 3 VMessage by simp
    have m: "snd (getPath R L m (f # g # fs) index) = mset L m f (VMessage ?c)"
      using VMessage by (simp add: case_prod_unfold Let_def)
    have get: "mget L (mset L m f (VMessage ?c)) h = (if h = f then VMessage ?c else mget L m h)" for h
      using 3(2) by (simp add: lawful_messages_def)
    show ?thesis
      unfolding m same_leaves_def
    proof (intro allI impI)
      fix hs v
      assume v: "leafValue L m hs = Some v" "\<forall>c. v \<noteq> VMessage c"
      show "leafValue L (mset L m f (VMessage ?c)) hs = Some v"
      proof (cases "hs \<noteq> [] \<and> hd hs = f")
        case True
        then obtain h hs' where hs: "hs = f # h # hs'"
          using v VMessage by (cases hs; cases "tl hs") auto
        then have "leafValue L c (h # hs') = Some v"
          using v VMessage by simp
        then have "leafValue L ?c (h # hs') = Some v"
          using ih v(2) by (simp add: same_leaves_def)
        then show ?thesis
          using hs get by simp
      next
        case False
        then show ?thesis
          using v(1) get leafValue_other [of L "mset L m f (VMessage ?c)" hs m] by (cases hs) simp_all
      qed
    qed
  qed (simp_all add: same_leaves_def)
qed (auto simp: same_leaves_def split: pvalue.splits)

lemma encodeVars_read:
  "encodeVars R L vs counts segs msg = Inr (counts', segs', msg', vals) \<Longrightarrow> lawful_messages L \<Longrightarrow>
   list_all2 (\<lambda>x val. \<exists>m i. same_leaves L msg m \<and> fst (getParameter R L m (flds x) i) = Inr val) vs vals"
proof (induction vs arbitrary: counts segs msg vals)
  case (Cons v vs)
  from Cons.prems(1) obtain val vals1 segs1 c1 msg1 i where
    v: "vals = val # vals1" "getParameter R L msg (flds v) i = (Inr val, msg1)"
    and rest: "encodeVars R L vs c1 segs1 msg1 = Inr (counts', segs', msg', vals1)"
    by (auto simp: Let_def split: prod.splits sum.splits if_splits option.splits)
  have s: "same_leaves L msg msg1"
    using getPath_same_leaves [OF Cons.prems(2), of msg R "flds v" i] v(2) by (simp add: getParameter_def)
  have "list_all2 (\<lambda>x val. \<exists>m i. same_leaves L msg m \<and> fst (getParameter R L m (flds x) i) = Inr val) vs vals1"
    using Cons.IH [OF rest Cons.prems(2)]
    by (rule list.rel_mono_strong) (use same_leaves_trans [OF s] in blast)
  moreover have "\<exists>m i. same_leaves L msg m \<and> fst (getParameter R L m (flds v) i) = Inr val"
    using v(2) same_leaves_refl by (metis fst_conv)
  ultimately show ?case
    using v(1) by simp
qed simp

text \<open>
  What the server sets for one variable after another with different top-level fields: the
  value \<open>v\<close> that the text captured for the variable stands for.
\<close>

definition settable ::
  "('mtd, 'msg, 'fld) reflect \<Rightarrow> ('f, 'fld, 'v) paramlib \<Rightarrow> string \<Rightarrow> 'v \<Rightarrow> 'fld routeTargetVar \<Rightarrow>
   ('f, 'v) pvalue \<Rightarrow> bool"
where
  "settable R L path dst x v \<longleftrightarrow>
     (\<exists>s. capture x path = Some (Inr s) \<and> unmarshalScalar R L (last (flds x)) s = Inr v) \<and>
     Kind R (last (flds x)) \<noteq> MessageKind \<and> Kind R (last (flds x)) \<noteq> GroupKind \<and>
     \<not> IsList R (last (flds x)) \<and> leafValue L dst (flds x) \<noteq> None"

lemma settable_cong: "mget L m' (hd (flds x)) = mget L m (hd (flds x)) \<Longrightarrow> settable R L path m' x v = settable R L path m x v"
  by (simp only: settable_def leafValue_other [of L m' "flds x" m])

lemma settable_unique:
  assumes "settable R L path m x v" and "settable R L path m' x w"
  shows "w = v"
proof -
  obtain s t where s: "capture x path = Some (Inr s)" "unmarshalScalar R L (last (flds x)) s = Inr v"
    and t: "capture x path = Some (Inr t)" "unmarshalScalar R L (last (flds x)) t = Inr w"
    using assms unfolding settable_def by blast
  have "t = s"
    using s(1) t(1) by simp
  then show ?thesis
    using s(2) t(2) by simp
qed

lemma decodeVars_sets:
  assumes "lawful_messages L"
  shows "distinct (map (\<lambda>x. hd (flds x)) vs) \<Longrightarrow> \<forall>x \<in> set vs. settable R L path dst x (val x) \<Longrightarrow>
    \<exists>dst'. decodeVars T R L path vs dst = Some (None, dst') \<and>
      (\<forall>x \<in> set vs. leafValue L dst' (flds x) = Some (val x)) \<and>
      (\<forall>g. g \<notin> (\<lambda>x. hd (flds x)) ` set vs \<longrightarrow> mget L dst' g = mget L dst g)"
proof (induction vs arbitrary: dst)
  case (Cons x vs)
  from Cons.prems(2) have "settable R L path dst x (val x)"
    by simp
  then obtain s w where x: "capture x path = Some (Inr s)" "unmarshalScalar R L (last (flds x)) s = Inr (val x)"
    "Kind R (last (flds x)) \<noteq> MessageKind" "Kind R (last (flds x)) \<noteq> GroupKind" "\<not> IsList R (last (flds x))"
    "leafValue L dst (flds x) = Some w"
    unfolding settable_def by auto
  obtain dst1 where set: "setParameter R L (paramText T) dst (flds x) s = (None, dst1)"
    and leaf: "leafValue L dst1 (flds x) = Some (val x)"
    and other: "\<And>g. g \<noteq> hd (flds x) \<Longrightarrow> mget L dst1 g = mget L dst g"
    using setPath_leaf [OF assms x(6,5,3,4,2)] by (cases "setPath R L dst (flds x) s") (auto simp: setParameter_def)
  have "settable R L path dst1 y (val y)" if y: "y \<in> set vs" for y
  proof -
    have "hd (flds y) \<noteq> hd (flds x)"
      using Cons.prems(1) y by simp (metis image_eqI)
    then show ?thesis
      using Cons.prems(2) y settable_cong [of L dst1 y dst R path "val y", OF other] by simp
  qed
  moreover have "distinct (map (\<lambda>x. hd (flds x)) vs)"
    using Cons.prems(1) by simp
  ultimately obtain dst' where dst': "decodeVars T R L path vs dst1 = Some (None, dst')"
    "\<forall>y \<in> set vs. leafValue L dst' (flds y) = Some (val y)"
    "\<forall>g. g \<notin> (\<lambda>x. hd (flds x)) ` set vs \<longrightarrow> mget L dst' g = mget L dst1 g"
    using Cons.IH [of dst1] by blast
  have "hd (flds x) \<notin> (\<lambda>x. hd (flds x)) ` set vs"
    using Cons.prems(1) by auto
  then have "leafValue L dst' (flds x) = Some (val x)"
    using dst'(3) leaf leafValue_other by metis
  then show ?case
    using dst' x(1) set other by auto
qed simp

text \<open>The message of a value of every scalar kind is no message.\<close>

lemma scalar_no_message: "scalar_value k v \<Longrightarrow> v \<noteq> VMessage c"
  by (cases k) (auto simp: scalar_value_def)

lemma path_values_lemma:
  assumes "good_target R (p, v, m) target"
    and enc: "encodeVars R L (vars target) (\<lambda>_. 0) p msg = Inr (c, segs, msg', vals)"
    and laws: "lawful_messages L" "lawful_float L"
    and "distinct (map (\<lambda>x. hd (flds x)) (vars target))"
    and scalar: "\<forall>x \<in> set (vars target). size_var x = 1 \<and> lawful_enum L (last (flds x)) \<and>
        (\<exists>w. leafValue L msg (flds x) = Some w \<and> scalar_value (Kind R (last (flds x))) w) \<and>
        leafValue L dst (flds x) \<noteq> None"
  shows "\<exists>dst'. decodeVars T R L (render segs) (rev (vars target)) dst = Some (None, dst') \<and>
    (\<forall>x \<in> set (vars target). leafValue L dst' (flds x) = leafValue L msg (flds x))"
proof -
  note cp = client_path [OF assms(1) enc]
  let ?val = "\<lambda>x. the (leafValue L msg (flds x))"
  have "settable R L (render segs) dst x (?val x)" if x: "x \<in> set (vars target)" for x
  proof -
    obtain i where i: "i < length (vars target)" "vars target ! i = x"
      using x by (auto simp: in_set_conv_nth)
    obtain s m j where s: "placed x s segs" "same_leaves L msg m" "fst (getParameter R L m (flds x) j) = Inr s"
      using list_all2_nthD [OF cp(6) i(1)] list_all2_nthD [OF encodeVars_read [OF enc laws(1)] i(1)] i(2) by auto
    obtain w where w: "leafValue L msg (flds x) = Some w" "scalar_value (Kind R (last (flds x))) w"
      using scalar x by blast
    have "leafValue L m (flds x) = Some w"
      using s(2) w scalar_no_message unfolding same_leaves_def by metis
    moreover have "size_var x = 1"
      using scalar x by blast
    moreover have "vend x \<noteq> -1"
      using \<open>size_var x = 1\<close> by (auto simp: size_var_def)
    ultimately have "capture x (render segs) = Some (Inr s)"
      using capture_placed [OF s(1) cp(2)] cp(5) x by simp
    moreover have "\<not> IsList R (last (flds x))"
      using assms(1) x by (simp add: good_target_def)
    moreover have "unmarshalScalar R L (last (flds x)) s = Inr w"
      using getPath_leaf [OF \<open>leafValue L m (flds x) = Some w\<close> \<open>\<not> IsList R (last (flds x))\<close> w(2), of j] s(3)
        marshalScalar_back [OF w(2) laws(2)] scalar x by (simp add: getParameter_def)
    ultimately show ?thesis
      using w scalar x scalar_not_message [OF w(2)] by (simp add: settable_def)
  qed
  then have "\<exists>dst'. decodeVars T R L (render segs) (rev (vars target)) dst = Some (None, dst') \<and>
      (\<forall>x \<in> set (rev (vars target)). leafValue L dst' (flds x) = Some (?val x)) \<and>
      (\<forall>g. g \<notin> (\<lambda>x. hd (flds x)) ` set (rev (vars target)) \<longrightarrow> mget L dst' g = mget L dst g)"
    using assms(5) by (intro decodeVars_sets [OF laws(1)]) (simp_all flip: rev_map)
  then show ?thesis
    unfolding set_rev using scalar by fastforce
qed

lemma decodeURL_returns:
  assumes "reachable_table R t" and "match t (rqEscapedPath request) (rqMethod request) = (Some target, ms)"
  shows "decodeRequestURL T R L D request target discard msg \<noteq> None"
proof -
  obtain raws where "trimVerb target (rqEscapedPath request) = Some (render raws)"
    "\<forall>x \<in> set (vars target). capture x (render raws) \<noteq> None"
    using match_captures [OF reachable_good [OF assms(1)] assms(2)] by fastforce
  then show ?thesis
    using decodeVars_captured [of "rev (vars target)" "render raws" T R L msg]
    by (auto simp: decodeRequestURL_def split: option.splits prod.splits)
qed

section \<open>Properties\<close>

text \<open>Decoding the URL of a routed request does not panic: for any table built by adding
  rules, whatever path and query the request has, when its path matches a target, setting
  the path variables and query parameters returns, with or without an error.\<close>

theorem request_url_no_panic:
  assumes "reachable_table R t" and "match t (rqEscapedPath request) (rqMethod request) = (Some target, ms)"
  shows "decodeRequestURL T R L D request target discard msg \<noteq> None"
  by (rule decodeURL_returns [OF assms])

definition sample_request :: request where
  "sample_request =
     \<lparr>rqMethod = ''GET'', rqRemoteAddr = [], rqPath = ''/v1/s/1/books/b:read'', rqEscapedPath = ''/v1/s%2F1/books/b:read'',
      rqRawQuery = ''name=x'', rqHeader = (\<lambda>k. None), rqContentLength = 0,
      rqBody = \<lparr>rdData = [], rdErr = EOF\<rparr>, rqPattern = []\<rparr>"

theorem request_url_no_panic_witness:
  "decodeRequestURL plainTexts sample sampleLib (\<lambda>m. ''GetBook'') sample_request books_target False
     (bookMsg ''old'' ''old'') \<noteq> None"
proof -
  have "fst (match sample_table ''/v1/s%2F1/books/b:read'' ''GET'') = Some books_target"
    by code_simp
  then obtain ms where
    "match sample_table (rqEscapedPath sample_request) (rqMethod sample_request) = (Some books_target, ms)"
    by (simp add: sample_request_def) (metis prod.collapse)
  then show ?thesis
    by (rule request_url_no_panic [OF sample_reachable])
qed


definition two_table :: "(string, unit, string) routeTarget routeTrie" where
  "two_table =
     snd (addRoute sample (sample_method ''GetBook'' StreamTypeUnary)
            (sample_rule (HttpRule_Get ''/v1/{shelf.id}/{name}'')) emptyTrie)"

definition two_target :: "(string, unit, string) routeTarget" where
  "two_target = the (fst (match two_table ''/v1/a/b'' ''GET''))"


end
