(* ===== verification/Runs.thy ===== *)
theory Runs
  imports Main
begin

text \<open>
  Runs of labelled steps.  The streams of both sides are used through sequences of operations in
  any order, each logged with its result; the locales state what the components promise of one
  step and prove what then holds of every run.
\<close>

section \<open>Runs\<close>

locale logged_run =
  fixes step :: "'s \<Rightarrow> 'op \<Rightarrow> 'r \<Rightarrow> 's \<Rightarrow> bool"
    and run :: "'s \<Rightarrow> ('op \<times> 'r) list \<Rightarrow> 's \<Rightarrow> bool"
  assumes run_Nil: "run s [] s' \<Longrightarrow> s' = s"
    and run_Cons: "run s ((op, r) # log) s' \<Longrightarrow> \<exists>s1. step s op r s1 \<and> run s1 log s'"
begin

lemma run_invariant:
  assumes "\<And>s op r s'. step s op r s' \<Longrightarrow> ok s \<Longrightarrow> ok s'"
  shows "run s log s' \<Longrightarrow> ok s \<Longrightarrow> ok s'"
proof (induction log arbitrary: s)
  case Nil
  then show ?case using run_Nil by blast
next
  case (Cons entry log)
  obtain op r where "entry = (op, r)" by fastforce
  then obtain s1 where "step s op r s1" "run s1 log s'"
    using run_Cons Cons.prems(1) by blast
  then show ?case
    using Cons.IH Cons.prems(2) assms by blast
qed

end

text \<open>A relation between the states before and after that every step keeps.\<close>

locale framed_run = logged_run step run
  for step :: "'s \<Rightarrow> 'op \<Rightarrow> 'r \<Rightarrow> 's \<Rightarrow> bool" and run :: "'s \<Rightarrow> ('op \<times> 'r) list \<Rightarrow> 's \<Rightarrow> bool" +
  fixes frame :: "'s \<Rightarrow> 's \<Rightarrow> bool"
  assumes frame_refl: "frame s s"
    and frame_trans: "frame s s1 \<Longrightarrow> frame s1 s' \<Longrightarrow> frame s s'"
    and frame_step: "step s op r s' \<Longrightarrow> frame s s'"
begin

lemma run_frame:
  assumes "run s log s'"
  shows "frame s s'"
  by (rule run_invariant [OF _ assms frame_refl]) (use frame_step frame_trans in blast)

end

text \<open>
  An operation that can succeed once: its success needs a state that is not spent and leaves a
  spent one, and no step undoes that, as long as the invariant \<open>ok\<close> holds.
\<close>

locale spending_run = logged_run step run
  for step :: "'s \<Rightarrow> 'op \<Rightarrow> 'r \<Rightarrow> 's \<Rightarrow> bool" and run :: "'s \<Rightarrow> ('op \<times> 'r) list \<Rightarrow> 's \<Rightarrow> bool" +
  fixes ok :: "'s \<Rightarrow> bool" and spent :: "'s \<Rightarrow> bool" and success :: "'op \<times> 'r \<Rightarrow> bool"
  assumes ok_step: "step s op r s' \<Longrightarrow> ok s \<Longrightarrow> ok s'"
    and spent_step: "step s op r s' \<Longrightarrow> ok s \<Longrightarrow> spent s \<Longrightarrow> spent s'"
    and success_step: "step s op r s' \<Longrightarrow> ok s \<Longrightarrow> success (op, r) \<Longrightarrow> \<not> spent s \<and> spent s'"
begin

lemma succeeds_once: "run s log s' \<Longrightarrow> ok s \<Longrightarrow> length (filter success log) \<le> (if spent s then 0 else 1)"
proof (induction log arbitrary: s)
  case (Cons entry log)
  obtain op r where e: "entry = (op, r)" by fastforce
  obtain s1 where s1: "step s op r s1" "run s1 log s'"
    using run_Cons Cons.prems(1) e by blast
  have "length (filter success log) \<le> (if spent s1 then 0 else 1)"
    using Cons.IH s1 ok_step Cons.prems(2) by blast
  then show ?case
    using spent_step [OF s1(1) Cons.prems(2)] success_step [OF s1(1) Cons.prems(2)] by (auto simp: e split: if_splits)
qed simp

end

end
