(* ===== verification/ServerStream.thy ===== *)
theory ServerStream
  imports RequestURL Compression Runs
begin

text \<open>
  The server's stream of one call: \<open>stream_handler.go\<close>.  The Go struct is the record
  \<open>serverStream\<close>; its constant parts (codec, options) and the code of other packages it calls
  are the record \<open>serverEnv\<close>.  A compressor's writer is an element of a type \<open>'w\<close>; each of its
  operations gives the text that reaches the response.  An operation returns its error, if
  any, and the stream after it; \<open>None\<close> as the result of \<open>Receive\<close> is a panic.  After a body
  was decoded at once nothing reads its reader again, so what is left of it is not kept.
\<close>

section \<open>State and environment\<close>

record ('mtd, 'typ, 'msg, 'fld, 'f, 'v, 'c, 'w) serverEnv =
  reflect :: "('mtd, 'msg, 'fld) reflect"
  lib :: "('f, 'fld, 'v) paramlib"
  Descriptor :: "'v \<Rightarrow> 'msg"
  texts :: "'fld texts"
  codec :: "('fld, 'v) restCodec"
  maxReadBytes :: int
  discardUnknownQueryParams :: bool
  compressorName :: "'c \<Rightarrow> string"
  Decompress :: "'c \<Rightarrow> reader \<Rightarrow> goError + reader"
  Compress :: "'c \<Rightarrow> goError + 'w"
  writerWrite :: "'w \<Rightarrow> string \<Rightarrow> string \<times> 'w \<times> goError option"
  writerFlush :: "('w \<Rightarrow> string \<times> 'w \<times> goError option) option"
  writerClose :: "'w \<Rightarrow> string \<times> 'w \<times> goError option"
  responseErr :: "string \<Rightarrow> response \<Rightarrow> goError option"
  flushErr :: "response \<Rightarrow> goError option"

record ('mtd, 'typ, 'fld, 'c, 'w) serverStream =
  ssMethod :: "('mtd, 'typ) methodRecord"
  ssTarget :: "('mtd, 'typ, 'fld) routeTarget"
  ssInfo :: headers
  ssRequest :: request
  ssResponse :: response
  requestCompressor :: "'c option"
  responseCompressor :: "'c option"
  compressWriter :: "'w option"
  ssBody :: "reader option"
  ssDone :: bool
  ssSent :: bool
  headersSet :: bool

text \<open>The argument of \<open>Send\<close> and \<open>Receive\<close>: a \<open>proto.Message\<close> or a value of another type.\<close>

datatype 'v anyMessage = ProtoMessage 'v | OtherType string

definition newServerStream ::
  "('mtd, 'typ) methodRecord \<Rightarrow> ('mtd, 'typ, 'fld) routeTarget \<Rightarrow> headers \<Rightarrow> response \<Rightarrow> request \<Rightarrow>
   ('mtd, 'typ, 'fld, 'c, 'w) serverStream"
where
  "newServerStream m target info rsp request =
     \<lparr>ssMethod = m, ssTarget = target, ssInfo = info, ssRequest = request, ssResponse = rsp,
      requestCompressor = None, responseCompressor = None, compressWriter = None, ssBody = None,
      ssDone = False, ssSent = False, headersSet = False\<rparr>"

definition committed :: "('mtd, 'typ, 'fld, 'c, 'w) serverStream \<Rightarrow> bool" where
  "committed s = headersSet s"

definition clientStreaming :: "StreamType \<Rightarrow> bool" where
  "clientStreaming st \<longleftrightarrow> st = StreamTypeClient \<or> st = StreamTypeBidi"

definition serverStreaming :: "StreamType \<Rightarrow> bool" where
  "serverStreaming st \<longleftrightarrow> st = StreamTypeServer \<or> st = StreamTypeBidi"

section \<open>Receiving\<close>

definition decodeError ::
  "('mtd, 'typ, 'msg, 'fld, 'f, 'v, 'c, 'w) serverEnv \<Rightarrow> goError \<Rightarrow> goError"
where
  "decodeError E err =
     (if errorsIs err MaxBytesError
      then Conn (newError CodeResourceExhausted (''request body exceeds '' @ decimal (maxReadBytes E) @ '' bytes''))
      else
        (case asType err of
           Some connectErr \<Rightarrow> Conn connectErr
         | None \<Rightarrow> Conn (wrapError (connText (texts E)) CodeInvalidArgument ''decode request'' err)))"

definition hasBody :: "request \<Rightarrow> bool \<times> request" where
  "hasBody request =
     (if rqContentLength request \<ge> 0 then (rqContentLength request > 0, request)
      else
        (let (probe, _, body) = readFull 1 (rqBody request)
         in (probe \<noteq> [], request\<lparr>rqBody := body\<rparr>)))"

definition openBody ::
  "('mtd, 'typ, 'msg, 'fld, 'f, 'v, 'c, 'w) serverEnv \<Rightarrow> ('mtd, 'typ, 'fld, 'c, 'w) serverStream \<Rightarrow>
   goError option \<times> ('mtd, 'typ, 'fld, 'c, 'w) serverStream"
where
  "openBody E s =
     (if requestBodyFields (ssTarget s) = None then
        (let (has, request) = hasBody (ssRequest s); s = s\<lparr>ssRequest := request\<rparr> in
         if has then (Some (Conn (newError CodeInvalidArgument ''request should have no body'')), s)
         else (None, s\<lparr>ssBody := Some \<lparr>rdData = [], rdErr = EOF\<rparr>\<rparr>))
      else
        (case (case requestCompressor s of
                 None \<Rightarrow> Inr (rqBody (ssRequest s))
               | Some c \<Rightarrow> Decompress E c (rqBody (ssRequest s))) of
           Inl err \<Rightarrow>
             (Some (Conn (withCause err (newError CodeInvalidArgument
                (''decompress request: '' @ errorText (connText (texts E)) err)))), s)
         | Inr body \<Rightarrow>
             (let body = (if maxReadBytes E > 0 then maxBytesReader (nat (maxReadBytes E)) body else body)
              in (None, s\<lparr>ssBody := Some body\<rparr>))))"

definition decodeURL ::
  "('mtd, 'typ, 'msg, 'fld, 'f, 'v, 'c, 'w) serverEnv \<Rightarrow> ('mtd, 'typ, 'fld, 'c, 'w) serverStream \<Rightarrow>
   'v \<Rightarrow> (goError option \<times> 'v) option"
where
  "decodeURL E s msg =
     (case decodeRequestURL (texts E) (reflect E) (lib E) (Descriptor E) (ssRequest s) (ssTarget s)
             (discardUnknownQueryParams E) msg of
        None \<Rightarrow> None
      | Some (Some err, msg) \<Rightarrow> Some (Some (decodeError E err), msg)
      | Some (None, msg) \<Rightarrow> Some (None, msg))"

text \<open>The two halves of \<open>Receive\<close> once the body is open: one message, or one chunk.\<close>

definition receiveUnary ::
  "('mtd, 'typ, 'msg, 'fld, 'f, 'v, 'c, 'w) serverEnv \<Rightarrow> reader \<Rightarrow> 'v \<Rightarrow>
   ('mtd, 'typ, 'fld, 'c, 'w) serverStream \<Rightarrow>
   (goError option \<times> 'v \<times> ('mtd, 'typ, 'fld, 'c, 'w) serverStream) option"
where
  "receiveUnary E body msg s =
     (let s = s\<lparr>ssDone := True\<rparr>;
          (err, msg) =
            (case requestBodyFields (ssTarget s) of
               None \<Rightarrow> (None, msg)
             | Some fs \<Rightarrow>
                 decodeBody (texts E) (reflect E) (lib E) (Descriptor E) body
                   (header_get (rqHeader (ssRequest s)) ''Content-Type'') fs (codec E) msg) in
      case err of
        Some err \<Rightarrow> Some (Some (decodeError E err), msg, s)
      | None \<Rightarrow> map_option (\<lambda>(err, msg). (err, msg, s)) (decodeURL E s msg))"

definition receiveStream ::
  "('mtd, 'typ, 'msg, 'fld, 'f, 'v, 'c, 'w) serverEnv \<Rightarrow> bool \<Rightarrow> reader \<Rightarrow> 'v \<Rightarrow>
   ('mtd, 'typ, 'fld, 'c, 'w) serverStream \<Rightarrow>
   (goError option \<times> 'v \<times> ('mtd, 'typ, 'fld, 'c, 'w) serverStream) option"
where
  "receiveStream E first body msg s =
     (let (r, body) = readChunk body;
          s = s\<lparr>ssBody := Some body\<rparr>;
          eof = (case r of Inl err \<Rightarrow> errorsIs err EOF | Inr data \<Rightarrow> False);
          s = (if eof then s\<lparr>ssDone := True\<rparr> else s);
          data = (case r of Inl err \<Rightarrow> [] | Inr data \<Rightarrow> data) in
      if eof \<and> \<not> first then Some (Some EOF, msg, s)
      else
        (case (if eof then None else case r of Inl err \<Rightarrow> Some err | Inr data \<Rightarrow> None) of
           Some err \<Rightarrow> Some (Some (decodeError E err), msg, s)
         | None \<Rightarrow>
             (case setBodyHTTPBody (texts E) (reflect E) (lib E) (Descriptor E)
                     (case requestBodyFields (ssTarget s) of None \<Rightarrow> [] | Some fs \<Rightarrow> fs) msg
                     (header_get (rqHeader (ssRequest s)) ''Content-Type'') data of
                (Some err, msg) \<Rightarrow> Some (Some (decodeError E err), msg, s)
              | (None, msg) \<Rightarrow>
                  if \<not> first then Some (None, msg, s)
                  else map_option (\<lambda>(err, msg). (err, msg, s)) (decodeURL E s msg))))"

definition Receive ::
  "('mtd, 'typ, 'msg, 'fld, 'f, 'v, 'c, 'w) serverEnv \<Rightarrow> 'v anyMessage \<Rightarrow>
   ('mtd, 'typ, 'fld, 'c, 'w) serverStream \<Rightarrow>
   (goError option \<times> 'v anyMessage \<times> ('mtd, 'typ, 'fld, 'c, 'w) serverStream) option"
where
  "Receive E msg s =
     (if ssDone s then Some (Some EOF, msg, s)
      else
        (case msg of
           OtherType ty \<Rightarrow> Some (Some (OtherError (''vanguard: Receive expects proto.Message, got '' @ ty)), msg, s)
         | ProtoMessage pmsg \<Rightarrow>
             (let first = (ssBody s = None);
                  (err, s) = (if first then openBody E s else (None, s)) in
              case err of
                Some err \<Rightarrow> Some (Some err, msg, s)
              | None \<Rightarrow>
                  map_option (\<lambda>(err, pmsg, s). (err, ProtoMessage pmsg, s))
                    (case ssBody s of
                       None \<Rightarrow> None
                     | Some body \<Rightarrow>
                         if \<not> clientStreaming (streamType (spec (ssMethod s)))
                         then receiveUnary E body pmsg s
                         else receiveStream E first body pmsg s))))"

section \<open>Sending\<close>

definition protocolHeaders :: "string list" where
  "protocolHeaders =
     [''Content-Type'', ''Content-Length'', ''Content-Encoding'', ''Trailer'', ''Date'',
      ''Accept-Encoding'', ''Connect-Content-Encoding'', ''Connect-Accept-Encoding'',
      ''Connect-Timeout-Ms'', ''Connect-Protocol-Version'',
      ''Grpc-Encoding'', ''Grpc-Accept-Encoding'', ''Grpc-Timeout'', ''Grpc-Status'',
      ''Grpc-Message'', ''Grpc-Status-Details-Bin'']"

definition setMetadataHeaders :: "headers \<Rightarrow> headers \<Rightarrow> headers" where
  "setMetadataHeaders dst src =
     (\<lambda>key. if List.member protocolHeaders key then dst key
            else (case src key of Some vals \<Rightarrow> Some vals | None \<Rightarrow> dst key))"

definition setHeader :: "string \<Rightarrow> string \<Rightarrow> ('mtd, 'typ, 'fld, 'c, 'w) serverStream \<Rightarrow>
    ('mtd, 'typ, 'fld, 'c, 'w) serverStream" where
  "setHeader k v s =
     s\<lparr>ssResponse := (ssResponse s)\<lparr>rspHeader := header_set k v (rspHeader (ssResponse s))\<rparr>\<rparr>"

definition flushHeaders ::
  "('mtd, 'typ, 'msg, 'fld, 'f, 'v, 'c, 'w) serverEnv \<Rightarrow> bool \<Rightarrow>
   ('mtd, 'typ, 'fld, 'c, 'w) serverStream \<Rightarrow> goError option \<times> ('mtd, 'typ, 'fld, 'c, 'w) serverStream"
where
  "flushHeaders E compress s =
     (if headersSet s then (None, s)
      else
        (let s = s\<lparr>ssResponse := (ssResponse s)\<lparr>rspHeader :=
                     setMetadataHeaders (rspHeader (ssResponse s)) (ssInfo s)\<rparr>\<rparr>;
             s = (if header_get (rspHeader (ssResponse s)) ''Content-Type'' = []
                  then setHeader ''Content-Type''
                         (if isHTTPBodyResponse (reflect E) (ssTarget s)
                               (Output (reflect E) (descriptor (ssMethod s)))
                          then ''application/octet-stream''
                          else ''application/'' @ codecName (codec E)) s
                  else s);
             commit = (\<lambda>s. (None, s\<lparr>ssResponse := writeHeader 200 (ssResponse s), headersSet := True\<rparr>)) in
         case (if compress then responseCompressor s else None) of
           None \<Rightarrow> commit s
         | Some c \<Rightarrow>
             (case Compress E c of
                Inl err \<Rightarrow>
                  (Some (Conn (withCause err (newError CodeInternal
                     (''get compressor: '' @ errorText (connText (texts E)) err)))), s)
              | Inr w \<Rightarrow>
                  commit (setHeader ''Content-Encoding'' (compressorName E c) (s\<lparr>compressWriter := Some w\<rparr>)))))"

definition SendHeaders ::
  "('mtd, 'typ, 'msg, 'fld, 'f, 'v, 'c, 'w) serverEnv \<Rightarrow>
   ('mtd, 'typ, 'fld, 'c, 'w) serverStream \<Rightarrow> goError option \<times> ('mtd, 'typ, 'fld, 'c, 'w) serverStream"
where
  "SendHeaders E s = flushHeaders E (responseCompressor s \<noteq> None) s"

text \<open>Text that a compressor hands down, or that is written directly, reaches the response.\<close>

definition writeResponse ::
  "('mtd, 'typ, 'msg, 'fld, 'f, 'v, 'c, 'w) serverEnv \<Rightarrow> string \<Rightarrow> goError option \<Rightarrow>
   ('mtd, 'typ, 'fld, 'c, 'w) serverStream \<Rightarrow> goError option \<times> ('mtd, 'typ, 'fld, 'c, 'w) serverStream"
where
  "writeResponse E data err s =
     (case responseErr E data (ssResponse s) of
        Some e \<Rightarrow> (Some e, s\<lparr>ssResponse := writeHeader 200 (ssResponse s)\<rparr>)
      | None \<Rightarrow> (err, s\<lparr>ssResponse := writeBody data (ssResponse s)\<rparr>))"

definition throughWriter ::
  "('mtd, 'typ, 'msg, 'fld, 'f, 'v, 'c, 'w) serverEnv \<Rightarrow> string \<times> 'w \<times> goError option \<Rightarrow>
   ('mtd, 'typ, 'fld, 'c, 'w) serverStream \<Rightarrow> goError option \<times> ('mtd, 'typ, 'fld, 'c, 'w) serverStream"
where
  "throughWriter E r s =
     (let (out, w, err) = r; s = s\<lparr>compressWriter := Some w\<rparr>
      in if out = [] then (err, s) else writeResponse E out err s)"

definition streamWrite ::
  "('mtd, 'typ, 'msg, 'fld, 'f, 'v, 'c, 'w) serverEnv \<Rightarrow> string \<Rightarrow>
   ('mtd, 'typ, 'fld, 'c, 'w) serverStream \<Rightarrow> goError option \<times> ('mtd, 'typ, 'fld, 'c, 'w) serverStream"
where
  "streamWrite E data s =
     (case compressWriter s of
        None \<Rightarrow> writeResponse E data None s
      | Some w \<Rightarrow> throughWriter E (writerWrite E w data) s)"

definition flushStream ::
  "('mtd, 'typ, 'msg, 'fld, 'f, 'v, 'c, 'w) serverEnv \<Rightarrow>
   ('mtd, 'typ, 'fld, 'c, 'w) serverStream \<Rightarrow> goError option \<times> ('mtd, 'typ, 'fld, 'c, 'w) serverStream"
where
  "flushStream E s =
     (let (err, s) =
            (case (compressWriter s, writerFlush E) of
               (Some w, Some flush) \<Rightarrow> throughWriter E (flush w) s
             | _ \<Rightarrow> (None, s)) in
      case err of
        Some err \<Rightarrow>
          (Some (Conn (withCause err (newError CodeInternal
             (''flush compressor: '' @ errorText (connText (texts E)) err)))), s)
      | None \<Rightarrow>
          (case flushErr E (ssResponse s) of
             Some err \<Rightarrow> (if errorsIs err ErrNotSupported then None else Some err, s)
           | None \<Rightarrow> (None, s\<lparr>ssResponse := writeHeader 200 (ssResponse s)\<rparr>)))"

definition setContentType ::
  "('mtd, 'typ, 'msg, 'fld, 'f, 'v, 'c, 'w) serverEnv \<Rightarrow> 'fld list \<Rightarrow> 'v \<Rightarrow>
   ('mtd, 'typ, 'fld, 'c, 'w) serverStream \<Rightarrow> ('mtd, 'typ, 'fld, 'c, 'w) serverStream"
where
  "setContentType E fs pmsg s =
     (if headersSet s then s
      else
        (let contentType = bodyContentType (reflect E) (lib E) (Descriptor E) fs pmsg (codec E)
         in setHeader ''Content-Type''
              (if contentType = [] then ''application/octet-stream'' else contentType) s))"

definition sendMessage ::
  "('mtd, 'typ, 'msg, 'fld, 'f, 'v, 'c, 'w) serverEnv \<Rightarrow> bool \<Rightarrow> 'v \<Rightarrow>
   ('mtd, 'typ, 'fld, 'c, 'w) serverStream \<Rightarrow> goError option \<times> ('mtd, 'typ, 'fld, 'c, 'w) serverStream"
where
  "sendMessage E streaming pmsg s =
     (let fs = (case responseBodyFields (ssTarget s) of None \<Rightarrow> [] | Some fs \<Rightarrow> fs) in
      case flushHeaders E (responseCompressor s \<noteq> None) (setContentType E fs pmsg s) of
        (Some err, s) \<Rightarrow> (Some err, s)
      | (None, s) \<Rightarrow>
          (case encodeBody (texts E) (reflect E) (lib E) (Descriptor E) (streamWrite E) fs pmsg (codec E) s of
             (Some err, s) \<Rightarrow>
               (Some (Conn (withCause err (newError CodeInternal
                  (''encode response: '' @ errorText (connText (texts E)) err)))), s)
           | (None, s) \<Rightarrow> if \<not> streaming then (None, s) else flushStream E s))"

definition Send ::
  "('mtd, 'typ, 'msg, 'fld, 'f, 'v, 'c, 'w) serverEnv \<Rightarrow> 'v anyMessage \<Rightarrow>
   ('mtd, 'typ, 'fld, 'c, 'w) serverStream \<Rightarrow> goError option \<times> ('mtd, 'typ, 'fld, 'c, 'w) serverStream"
where
  "Send E msg s =
     (let streaming = serverStreaming (streamType (spec (ssMethod s))) in
      if ssSent s \<and> \<not> streaming
      then (Some (OtherError ''vanguard: Send called more than once on REST unary stream''), s)
      else
        (let s = s\<lparr>ssSent := True\<rparr> in
         case msg of
           OtherType ty \<Rightarrow> (Some (OtherError (''vanguard: Send expects proto.Message, got '' @ ty)), s)
         | ProtoMessage pmsg \<Rightarrow> sendMessage E streaming pmsg s))"

definition close_stream ::
  "('mtd, 'typ, 'msg, 'fld, 'f, 'v, 'c, 'w) serverEnv \<Rightarrow>
   ('mtd, 'typ, 'fld, 'c, 'w) serverStream \<Rightarrow> goError option \<times> ('mtd, 'typ, 'fld, 'c, 'w) serverStream"
where
  "close_stream E s =
     (case flushHeaders E False s of
        (Some err, s) \<Rightarrow> (Some err, s)
      | (None, s) \<Rightarrow>
          (case compressWriter s of
             None \<Rightarrow> (None, s)
           | Some w \<Rightarrow> throughWriter E (writerClose E w) s))"


section \<open>The life of a stream\<close>

text \<open>
  What a handler can do to a stream: the calls of its interface, and setting the response
  metadata of the call.  Each step is labelled with the operation and the error it gave.
\<close>

datatype 'v streamOp =
    OpReceive "'v anyMessage"
  | OpSend "'v anyMessage"
  | OpSendHeaders
  | OpSetMetadata headers

inductive stream_step ::
  "('mtd, 'typ, 'msg, 'fld, 'f, 'v, 'c, 'w) serverEnv \<Rightarrow> ('mtd, 'typ, 'fld, 'c, 'w) serverStream \<Rightarrow>
   'v streamOp \<Rightarrow> goError option \<Rightarrow> ('mtd, 'typ, 'fld, 'c, 'w) serverStream \<Rightarrow> bool"
  for E where
  receive: "Receive E msg s = Some (e, msg', s') \<Longrightarrow> stream_step E s (OpReceive msg) e s'"
| send: "Send E msg s = (e, s') \<Longrightarrow> stream_step E s (OpSend msg) e s'"
| headers: "SendHeaders E s = (e, s') \<Longrightarrow> stream_step E s OpSendHeaders e s'"
| metadata: "stream_step E s (OpSetMetadata h) None (s\<lparr>ssInfo := h\<rparr>)"

inductive stream_run ::
  "('mtd, 'typ, 'msg, 'fld, 'f, 'v, 'c, 'w) serverEnv \<Rightarrow> ('mtd, 'typ, 'fld, 'c, 'w) serverStream \<Rightarrow>
   ('v streamOp \<times> goError option) list \<Rightarrow> ('mtd, 'typ, 'fld, 'c, 'w) serverStream \<Rightarrow> bool"
  for E where
  stop: "stream_run E s [] s"
| step: "stream_step E s op e s1 \<Longrightarrow> stream_run E s1 log s' \<Longrightarrow> stream_run E s ((op, e) # log) s'"

inductive_simps stream_step_receive: "stream_step E s (OpReceive msg) e s'"
inductive_simps stream_step_send: "stream_step E s (OpSend msg) e s'"
inductive_simps stream_step_headers: "stream_step E s OpSendHeaders e s'"
inductive_simps stream_step_metadata: "stream_step E s (OpSetMetadata h) e s'"
inductive_cases stream_stepE: "stream_step E s op e s'"

lemmas stream_step_simps = stream_step_receive stream_step_send stream_step_headers stream_step_metadata

text \<open>
  How a stream evolves: what was committed stays, and as long as nothing is committed nothing
  has reached the response.
\<close>

definition evolves ::
  "('mtd, 'typ, 'fld, 'c, 'w) serverStream \<Rightarrow> ('mtd, 'typ, 'fld, 'c, 'w) serverStream \<Rightarrow> bool"
where
  "evolves s s' \<longleftrightarrow>
     ssMethod s' = ssMethod s \<and> ssTarget s' = ssTarget s \<and>
     (ssSent s \<longrightarrow> ssSent s') \<and> (ssDone s \<longrightarrow> ssDone s') \<and> (headersSet s \<longrightarrow> headersSet s') \<and>
     (headersSet s \<longrightarrow> rspSent (ssResponse s') = rspSent (ssResponse s)) \<and>
     (\<not> headersSet s' \<longrightarrow> rspBody (ssResponse s') = rspBody (ssResponse s) \<and> compressWriter s' = compressWriter s)"

text \<open>The status line is committed exactly when the flag says so, and then it is 200.\<close>

definition head_ok :: "('mtd, 'typ, 'fld, 'c, 'w) serverStream \<Rightarrow> bool" where
  "head_ok s \<longleftrightarrow>
     (if headersSet s then map_option fst (rspSent (ssResponse s)) = Some 200
      else rspSent (ssResponse s) = None)"

lemma evolves_refl [simp]: "evolves s s"
  by (simp add: evolves_def)

lemma evolves_trans: "evolves s s1 \<Longrightarrow> evolves s1 s2 \<Longrightarrow> evolves s s2"
  by (auto simp: evolves_def)

lemma setHeader_simps [simp]:
  "ssMethod (setHeader k v s) = ssMethod s" "ssTarget (setHeader k v s) = ssTarget s"
  "ssSent (setHeader k v s) = ssSent s" "ssDone (setHeader k v s) = ssDone s"
  "headersSet (setHeader k v s) = headersSet s" "compressWriter (setHeader k v s) = compressWriter s"
  "rspSent (ssResponse (setHeader k v s)) = rspSent (ssResponse s)"
  "rspBody (ssResponse (setHeader k v s)) = rspBody (ssResponse s)"
  "responseCompressor (setHeader k v s) = responseCompressor s"
  by (simp_all add: setHeader_def)

lemma writeHeader_simps [simp]:
  "rspBody (writeHeader c r) = rspBody r"
  "rspSent r \<noteq> None \<Longrightarrow> writeHeader c r = r"
  "rspSent r = None \<Longrightarrow> rspSent (writeHeader c r) = Some (c, rspHeader r)"
  by (simp_all add: writeHeader_def)

lemma writeBody_sent: "rspSent r \<noteq> None \<Longrightarrow> rspSent (writeBody d r) = rspSent r"
  by (simp add: writeBody_def Let_def)

lemma flushHeaders_evolves:
  assumes "flushHeaders E c s = (e, s')" and "head_ok s"
  shows "evolves s s' \<and> head_ok s' \<and> (e = None \<longrightarrow> headersSet s') \<and> ssSent s' = ssSent s \<and> ssDone s' = ssDone s"
proof (cases "headersSet s")
  case True
  then show ?thesis using assms by (simp add: flushHeaders_def)
next
  case False
  then show ?thesis
    using assms by (auto simp: flushHeaders_def Let_def evolves_def head_ok_def split: option.splits sum.splits if_splits)
qed

text \<open>A write to a committed stream.\<close>

definition committed_step ::
  "('mtd, 'typ, 'fld, 'c, 'w) serverStream \<Rightarrow> ('mtd, 'typ, 'fld, 'c, 'w) serverStream \<Rightarrow> bool"
where
  "committed_step s s' \<longleftrightarrow>
     evolves s s' \<and> head_ok s' \<and> headersSet s' \<and> ssSent s' = ssSent s \<and> ssDone s' = ssDone s"

lemma committed_step_refl: "headersSet s \<Longrightarrow> head_ok s \<Longrightarrow> committed_step s s"
  by (simp add: committed_step_def)

lemma committed_step_trans: "committed_step s s1 \<Longrightarrow> committed_step s1 s2 \<Longrightarrow> committed_step s s2"
  using evolves_trans by (auto simp: committed_step_def)

lemma head_sent: "headersSet s \<Longrightarrow> head_ok s \<Longrightarrow> rspSent (ssResponse s) \<noteq> None"
  by (auto simp: head_ok_def)

lemma writeResponse_step:
  "writeResponse E d err s = (e, s') \<Longrightarrow> headersSet s \<Longrightarrow> head_ok s \<Longrightarrow> committed_step s s'"
  using head_sent [of s]
  by (auto simp: writeResponse_def committed_step_def evolves_def head_ok_def writeBody_sent split: option.splits)

lemma throughWriter_step:
  assumes "throughWriter E r s = (e, s')" and "headersSet s" and "head_ok s"
  shows "committed_step s s'"
proof -
  obtain out w err where r: "r = (out, w, err)" by (cases r)
  let ?s = "s\<lparr>compressWriter := Some w\<rparr>"
  have s: "committed_step s ?s"
    using assms(2,3) by (simp add: committed_step_def evolves_def head_ok_def)
  show ?thesis
  proof (cases "out = []")
    case True
    then show ?thesis using assms(1) r s by (simp add: throughWriter_def)
  next
    case False
    then have "writeResponse E out err ?s = (e, s')"
      using assms(1) r by (simp add: throughWriter_def)
    then have "committed_step ?s s'"
      using s writeResponse_step unfolding committed_step_def by blast
    then show ?thesis
      by (rule committed_step_trans [OF s])
  qed
qed

lemma streamWrite_step:
  "streamWrite E d s = (e, s') \<Longrightarrow> headersSet s \<Longrightarrow> head_ok s \<Longrightarrow> committed_step s s'"
  by (auto simp: streamWrite_def split: option.splits dest: writeResponse_step throughWriter_step)

lemma flushStream_step:
  assumes "flushStream E s = (e, s')" and "headersSet s" and "head_ok s"
  shows "committed_step s s'"
proof -
  obtain err s1 where w: "(case (compressWriter s, writerFlush E) of
      (Some w, Some flush) \<Rightarrow> throughWriter E (flush w) s | _ \<Rightarrow> (None, s)) = (err, s1)"
    by fastforce
  then have s1: "committed_step s s1"
    using throughWriter_step [of E _ s err s1, OF _ assms(2,3)] committed_step_refl [OF assms(2,3)]
    by (auto split: option.splits)
  then have "rspSent (ssResponse s1) \<noteq> None" "headersSet s1"
    using head_sent by (auto simp: committed_step_def)
  then have "committed_step s1 s'"
    using assms(1) w s1
    by (auto simp: flushStream_def committed_step_def evolves_def head_ok_def split: option.splits)
  then show ?thesis
    using committed_step_trans [OF s1] by simp
qed

text \<open>\<open>encodeBody\<close> changes its sink by at most one write.\<close>

lemma encodeBody_sink:
  "encodeBody T R L D write fs msg cd s = (e, s') \<Longrightarrow> s' = s \<or> (\<exists>d. write d s = (e, s'))"
  by (auto simp: encodeBody_def split: sum.splits if_splits option.splits)

lemma setContentType_evolves:
  "head_ok s \<Longrightarrow> evolves s (setContentType E fs pmsg s) \<and> head_ok (setContentType E fs pmsg s) \<and>
   ssSent (setContentType E fs pmsg s) = ssSent s \<and> ssDone (setContentType E fs pmsg s) = ssDone s"
  by (simp add: setContentType_def evolves_def head_ok_def Let_def)

lemma sendMessage_step:
  assumes "sendMessage E streaming pmsg s = (e, s')" and "head_ok s"
  shows "evolves s s' \<and> head_ok s' \<and> ssSent s' = ssSent s \<and> ssDone s' = ssDone s \<and>
    (e = None \<longrightarrow> headersSet s')"
proof -
  let ?fs = "case responseBodyFields (ssTarget s) of None \<Rightarrow> [] | Some fs \<Rightarrow> fs"
  let ?s1 = "setContentType E ?fs pmsg s"
  obtain e2 s2 where f: "flushHeaders E (responseCompressor s \<noteq> None) ?s1 = (e2, s2)"
    by fastforce
  note s1 = setContentType_evolves [OF assms(2), of E ?fs pmsg]
  note s2 = flushHeaders_evolves [OF f conjunct1 [OF conjunct2 [OF s1]]]
  have start: "evolves s s2" "ssSent s2 = ssSent s" "ssDone s2 = ssDone s"
    using s1 s2 evolves_trans by auto
  show ?thesis
  proof (cases e2)
    case (Some err)
    then have "s' = s2" "e = Some err"
      using assms(1) f by (auto simp: sendMessage_def Let_def)
    then show ?thesis using start s2 by simp
  next
    case None
    then have hs: "headersSet s2" "head_ok s2"
      using s2 by simp_all
    obtain e3 s3 where enc: "encodeBody (texts E) (reflect E) (lib E) (Descriptor E) (streamWrite E) ?fs pmsg
        (codec E) s2 = (e3, s3)"
      by fastforce
    have s3: "committed_step s2 s3"
      using encodeBody_sink [OF enc] streamWrite_step [OF _ hs] committed_step_refl [OF hs] by auto
    have "committed_step s2 s'"
    proof (cases "e3 = None \<and> streaming")
      case True
      then have "flushStream E s3 = (e, s')"
        using assms(1) f None enc by (simp add: sendMessage_def Let_def)
      moreover have "headersSet s3" "head_ok s3"
        using s3 by (simp_all add: committed_step_def)
      ultimately show ?thesis
        using flushStream_step committed_step_trans [OF s3] by blast
    next
      case False
      then have "s' = s3"
        using assms(1) f None enc by (cases e3) (auto simp: sendMessage_def Let_def)
      then show ?thesis using s3 by simp
    qed
    then show ?thesis
      using start evolves_trans [OF start(1)] by (simp add: committed_step_def)
  qed
qed

lemma Send_step:
  assumes "Send E msg s = (e, s')" and "head_ok s"
  shows "evolves s s' \<and> head_ok s' \<and> ssDone s' = ssDone s \<and>
    (e = None \<longrightarrow> headersSet s' \<and> ssSent s') \<and>
    (\<not> serverStreaming (streamType (spec (ssMethod s))) \<longrightarrow> ssSent s \<longrightarrow> e \<noteq> None)"
proof -
  have ev: "evolves s (s\<lparr>ssSent := True\<rparr>)" "head_ok (s\<lparr>ssSent := True\<rparr>)"
    using assms(2) by (simp_all add: evolves_def head_ok_def)
  then show ?thesis
    using assms sendMessage_step [of E _ _ "s\<lparr>ssSent := True\<rparr>" e s'] evolves_trans [OF ev(1)]
    by (auto simp: Send_def Let_def split: anyMessage.splits if_splits)
qed

text \<open>\<open>Receive\<close> touches the receive side only.\<close>

definition recv_frame ::
  "('mtd, 'typ, 'fld, 'c, 'w) serverStream \<Rightarrow> ('mtd, 'typ, 'fld, 'c, 'w) serverStream \<Rightarrow> bool"
where
  "recv_frame s s' \<longleftrightarrow>
     s' = s\<lparr>ssRequest := ssRequest s', ssBody := ssBody s', ssDone := ssDone s'\<rparr> \<and> (ssDone s \<longrightarrow> ssDone s')"

lemma recv_frame_refl: "recv_frame s s"
  by (simp add: recv_frame_def)

lemma recv_frame_evolves:
  assumes "recv_frame s s'"
  shows "evolves s s' \<and> (head_ok s \<longrightarrow> head_ok s') \<and> ssSent s' = ssSent s"
proof -
  obtain q b d where "s' = s\<lparr>ssRequest := q, ssBody := b, ssDone := d\<rparr>" "ssDone s \<longrightarrow> d"
    using assms unfolding recv_frame_def by blast
  then show ?thesis
    by (simp add: evolves_def head_ok_def)
qed

lemma recv_frame_trans:
  assumes "recv_frame s s1" and "recv_frame s1 s2"
  shows "recv_frame s s2"
proof -
  obtain q b d where s1: "s1 = s\<lparr>ssRequest := q, ssBody := b, ssDone := d\<rparr>" "ssDone s \<longrightarrow> d"
    using assms(1) unfolding recv_frame_def by blast
  obtain q' b' d' where "s2 = s1\<lparr>ssRequest := q', ssBody := b', ssDone := d'\<rparr>" "ssDone s1 \<longrightarrow> d'"
    using assms(2) unfolding recv_frame_def by blast
  then show ?thesis
    using s1 by (simp add: recv_frame_def)
qed

lemma openBody_frame: "openBody E s = (e, s') \<Longrightarrow> recv_frame s s' \<and> ssDone s' = ssDone s"
  by (auto simp: openBody_def Let_def recv_frame_def split: prod.splits if_splits sum.splits)

lemma receiveUnary_frame:
  "receiveUnary E body msg s = Some (e, m, s') \<Longrightarrow> recv_frame s s' \<and> ssDone s'"
  by (auto simp: receiveUnary_def Let_def recv_frame_def split: prod.splits option.splits)

lemma receiveStream_frame:
  "receiveStream E first body msg s = Some (e, m, s') \<Longrightarrow> recv_frame s s'"
  by (auto simp: receiveStream_def Let_def recv_frame_def split: prod.splits option.splits sum.splits if_splits)

lemma Receive_cases:
  assumes "Receive E msg s = Some (e, msg', s')"
  obtains (exhausted) "ssDone s" and "e = Some EOF" and "s' = s"
    | (untyped) "\<not> ssDone s" and "e \<noteq> None" and "s' = s"
    | (unopened) "\<not> ssDone s" and "e \<noteq> None" and "openBody E s = (e, s')"
    | (opened) s1 body pmsg m where "\<not> ssDone s" and "recv_frame s s1" and "ssBody s1 = Some body"
        and "msg = ProtoMessage pmsg" and "msg' = ProtoMessage m"
        and "(if ssBody s = None then openBody E s else (None, s)) = (None, s1)"
        and "(if \<not> clientStreaming (streamType (spec (ssMethod s1))) then receiveUnary E body pmsg s1
              else receiveStream E (ssBody s = None) body pmsg s1) = Some (e, m, s')"
proof (cases msg)
  case (OtherType ty)
  show ?thesis
  proof (cases "ssDone s")
    case True
    then have "e = Some EOF" "s' = s"
      using assms by (simp_all add: Receive_def)
    then show ?thesis using exhausted True by blast
  next
    case False
    then have "e \<noteq> None" "s' = s"
      using assms OtherType by (auto simp: Receive_def)
    then show ?thesis using untyped False by blast
  qed
next
  case (ProtoMessage pmsg)
  show ?thesis
  proof (cases "ssDone s")
    case True
    then have "e = Some EOF" "s' = s"
      using assms by (simp_all add: Receive_def)
    then show ?thesis using exhausted True by blast
  next
    case False
    obtain e1 s1 where o: "(if ssBody s = None then openBody E s else (None, s)) = (e1, s1)"
      by fastforce
    show ?thesis
    proof (cases e1)
      case (Some err)
      then have "openBody E s = (e, s')" "e \<noteq> None"
        using assms ProtoMessage False o by (auto simp: Receive_def Let_def split: if_splits)
      then show ?thesis using unopened False by blast
    next
      case None
      then have fr: "recv_frame s s1"
        using o openBody_frame recv_frame_refl by (metis prod.inject)
      obtain body where body: "ssBody s1 = Some body"
        using assms ProtoMessage False o None by (cases "ssBody s1") (auto simp: Receive_def Let_def)
      have "map_option (\<lambda>(err, pmsg, s). (err, ProtoMessage pmsg, s))
          (if \<not> clientStreaming (streamType (spec (ssMethod s1))) then receiveUnary E body pmsg s1
           else receiveStream E (ssBody s = None) body pmsg s1) = Some (e, msg', s')"
        using assms ProtoMessage False o None body by (simp add: Receive_def Let_def)
      then show ?thesis
        using opened [OF False fr body ProtoMessage] o None by (auto simp: map_option_case split: option.splits)
    qed
  qed
qed

lemma Receive_step:
  assumes "Receive E msg s = Some (e, msg', s')"
  shows "evolves s s' \<and> (head_ok s \<longrightarrow> head_ok s') \<and> ssSent s' = ssSent s \<and>
    (ssDone s \<longrightarrow> e = Some EOF \<and> s' = s) \<and>
    (\<not> clientStreaming (streamType (spec (ssMethod s))) \<longrightarrow> e = None \<longrightarrow> ssDone s')"
  using assms
proof (cases rule: Receive_cases)
  case unopened
  then show ?thesis
    using openBody_frame [of E s e s'] recv_frame_evolves by blast
next
  case (opened s1 body pmsg m)
  have "recv_frame s1 s' \<and> (\<not> clientStreaming (streamType (spec (ssMethod s1))) \<longrightarrow> ssDone s')"
    using opened(7) receiveUnary_frame [of E body pmsg s1 e m s']
      receiveStream_frame [of E "ssBody s = None" body pmsg s1 e m s'] by (auto split: if_splits)
  moreover have "ssMethod s1 = ssMethod s"
    using recv_frame_evolves [OF opened(2)] by (simp add: evolves_def)
  ultimately show ?thesis
    using recv_frame_evolves [OF recv_frame_trans [OF opened(2)]] opened(1) by simp
qed simp_all

lemma step_evolves: "stream_step E s op e s' \<Longrightarrow> head_ok s \<Longrightarrow> evolves s s' \<and> head_ok s'"
proof (induction rule: stream_step.induct)
  case (receive msg s e msg' s')
  then show ?case using Receive_step by blast
next
  case (send msg s e s')
  then show ?case using Send_step by blast
next
  case (headers s e s')
  then show ?case
    using flushHeaders_evolves [of E "responseCompressor s \<noteq> None" s e s'] by (simp add: SendHeaders_def)
qed (simp add: evolves_def head_ok_def)

lemma stream_run_step: "stream_run E s ((op, e) # log) s' \<Longrightarrow> \<exists>s1. stream_step E s op e s1 \<and> stream_run E s1 log s'"
  by (auto elim: stream_run.cases)

lemma stream_run_stop: "stream_run E s [] s' \<Longrightarrow> s' = s"
  by (auto elim: stream_run.cases)

interpretation server: framed_run "stream_step E" "stream_run E" "\<lambda>s s'. head_ok s \<longrightarrow> evolves s s' \<and> head_ok s'"
  for E :: "('mtd, 'typ, 'msg, 'fld, 'f, 'v, 'c, 'w) serverEnv"
  by unfold_locales (auto dest: stream_run_stop stream_run_step step_evolves intro: evolves_refl evolves_trans)

lemma run_evolves: "stream_run E s log s' \<Longrightarrow> head_ok s \<Longrightarrow> evolves s s' \<and> head_ok s'"
  using server.run_frame by blast

section \<open>How often a call sends and receives\<close>

definition ok_sends :: "('v streamOp \<times> goError option) list \<Rightarrow> nat" where
  "ok_sends log = length (filter (\<lambda>(op, e). (case op of OpSend _ \<Rightarrow> e = None | _ \<Rightarrow> False)) log)"

definition ok_receives :: "('v streamOp \<times> goError option) list \<Rightarrow> nat" where
  "ok_receives log = length (filter (\<lambda>(op, e). (case op of OpReceive _ \<Rightarrow> e = None | _ \<Rightarrow> False)) log)"

definition is_send :: "'v streamOp \<times> goError option \<Rightarrow> bool" where
  "is_send = (\<lambda>(op, e). case op of OpSend _ \<Rightarrow> e = None | _ \<Rightarrow> False)"

definition is_receive :: "'v streamOp \<times> goError option \<Rightarrow> bool" where
  "is_receive = (\<lambda>(op, e). case op of OpReceive _ \<Rightarrow> e = None | _ \<Rightarrow> False)"

interpretation sends: spending_run "stream_step E" "stream_run E"
    "\<lambda>s. head_ok s \<and> \<not> serverStreaming (streamType (spec (ssMethod s)))" ssSent is_send
  for E :: "('mtd, 'typ, 'msg, 'fld, 'f, 'v, 'c, 'w) serverEnv"
proof
  fix s s1 :: "('mtd, 'typ, 'fld, 'c, 'w) serverStream" and op e
  assume s: "stream_step E s op e s1" "head_ok s \<and> \<not> serverStreaming (streamType (spec (ssMethod s)))"
  then have ev: "evolves s s1" "head_ok s1"
    using step_evolves by blast+
  then show "head_ok s1 \<and> \<not> serverStreaming (streamType (spec (ssMethod s1)))" and "ssSent s \<Longrightarrow> ssSent s1"
    using s(2) by (simp_all add: evolves_def)
  show "\<not> ssSent s \<and> ssSent s1" if "is_send (op, e)"
    using s that Send_step [of E _ s None s1] by (auto simp: is_send_def stream_step_simps split: streamOp.splits)
qed

interpretation receives: spending_run "stream_step E" "stream_run E"
    "\<lambda>s. head_ok s \<and> \<not> clientStreaming (streamType (spec (ssMethod s)))" ssDone is_receive
  for E :: "('mtd, 'typ, 'msg, 'fld, 'f, 'v, 'c, 'w) serverEnv"
proof
  fix s s1 :: "('mtd, 'typ, 'fld, 'c, 'w) serverStream" and op e
  assume s: "stream_step E s op e s1" "head_ok s \<and> \<not> clientStreaming (streamType (spec (ssMethod s)))"
  then have ev: "evolves s s1" "head_ok s1"
    using step_evolves by blast+
  then show "head_ok s1 \<and> \<not> clientStreaming (streamType (spec (ssMethod s1)))" and "ssDone s \<Longrightarrow> ssDone s1"
    using s(2) by (simp_all add: evolves_def)
  show "\<not> ssDone s \<and> ssDone s1" if "is_receive (op, e)"
    using s that Receive_step [of E _ s None _ s1] by (auto simp: is_receive_def stream_step_simps split: streamOp.splits)
qed

lemma run_sends:
  "stream_run E s log s' \<Longrightarrow> head_ok s \<Longrightarrow> \<not> serverStreaming (streamType (spec (ssMethod s))) \<Longrightarrow>
   ok_sends log \<le> (if ssSent s then 0 else 1)"
  using sends.succeeds_once [of E s log s'] by (simp add: ok_sends_def is_send_def)

lemma run_receives:
  "stream_run E s log s' \<Longrightarrow> head_ok s \<Longrightarrow> \<not> clientStreaming (streamType (spec (ssMethod s))) \<Longrightarrow>
   ok_receives log \<le> (if ssDone s then 0 else 1)"
  using receives.succeeds_once [of E s log s'] by (simp add: ok_receives_def is_receive_def)

section \<open>A whole upload\<close>

text \<open>A handler that receives until an error, each time into the message \<open>m0\<close>.\<close>

primrec receiveLoop ::
  "nat \<Rightarrow> ('mtd, 'typ, 'msg, 'fld, 'f, 'v, 'c, 'w) serverEnv \<Rightarrow> 'v \<Rightarrow>
   ('mtd, 'typ, 'fld, 'c, 'w) serverStream \<Rightarrow> 'v list \<times> goError option"
where
  "receiveLoop 0 E m0 s = ([], None)"
| "receiveLoop (Suc n) E m0 s =
     (case Receive E (ProtoMessage m0) s of
        Some (None, ProtoMessage m, s) \<Rightarrow> (let (ms, e) = receiveLoop n E m0 s in (m # ms, e))
      | Some (e, _, s) \<Rightarrow> ([], e)
      | None \<Rightarrow> ([], Some (OtherError ''panic'')))"

definition bodyData :: "('mtd, 'typ, 'msg, 'fld, 'f, 'v, 'c, 'w) serverEnv \<Rightarrow> 'fld list \<Rightarrow> 'v \<Rightarrow> string" where
  "bodyData E fs m =
     getNamed (reflect E) (lib E) (Descriptor E) (foldl (childMessage (lib E)) m fs) ''data''"

definition bodyType :: "('mtd, 'typ, 'msg, 'fld, 'f, 'v, 'c, 'w) serverEnv \<Rightarrow> 'fld list \<Rightarrow> 'v \<Rightarrow> string" where
  "bodyType E fs m =
     getNamed (reflect E) (lib E) (Descriptor E) (foldl (childMessage (lib E)) m fs) ''content_type''"

text \<open>
  What the request and the message of an upload need: a body field that is a
  \<open>google.api.HttpBody\<close>, and a URL without a query whose variables are values of scalar fields
  outside of the body field.
\<close>

definition urlValue ::
  "('mtd, 'typ, 'msg, 'fld, 'f, 'v, 'c, 'w) serverEnv \<Rightarrow> 'v \<Rightarrow> ('mtd, 'typ, 'fld, 'c, 'w) serverStream \<Rightarrow>
   'fld routeTargetVar \<Rightarrow> ('f, 'v) pvalue \<Rightarrow> bool"
where
  "urlValue E m0 s x v \<longleftrightarrow>
     (case trimVerb (ssTarget s) (rqEscapedPath (ssRequest s)) of
        None \<Rightarrow> False
      | Some path \<Rightarrow> settable (reflect E) (lib E) path m0 x v)"

definition plain_url ::
  "('mtd, 'typ, 'msg, 'fld, 'f, 'v, 'c, 'w) serverEnv \<Rightarrow> 'fld list \<Rightarrow> 'v \<Rightarrow>
   ('mtd, 'typ, 'fld, 'c, 'w) serverStream \<Rightarrow> bool"
where
  "plain_url E fs m0 s \<longleftrightarrow>
     trimVerb (ssTarget s) (rqEscapedPath (ssRequest s)) \<noteq> None \<and> rqRawQuery (ssRequest s) = [] \<and>
     distinct (map (\<lambda>x. hd (flds x)) (vars (ssTarget s))) \<and>
     (\<forall>x \<in> set (vars (ssTarget s)). (\<exists>v. urlValue E m0 s x v) \<and> fs \<noteq> [] \<and> hd (flds x) \<noteq> hd fs)"

definition plain_upload ::
  "('mtd, 'typ, 'msg, 'fld, 'f, 'v, 'c, 'w) serverEnv \<Rightarrow> 'fld list \<Rightarrow> 'v \<Rightarrow>
   ('mtd, 'typ, 'fld, 'c, 'w) serverStream \<Rightarrow> bool"
where
  "plain_upload E fs m0 s \<longleftrightarrow>
     clientStreaming (streamType (spec (ssMethod s))) \<and> requestBodyFields (ssTarget s) = Some fs \<and>
     path_messages (reflect E) (lib E) (Descriptor E) m0 fs \<and>
     isHTTPBodyPath (reflect E) fs (Descriptor E m0) \<and> plain_url E fs m0 s"

text \<open>A message that carries the values of the URL.\<close>

definition url_set ::
  "('mtd, 'typ, 'msg, 'fld, 'f, 'v, 'c, 'w) serverEnv \<Rightarrow> 'v \<Rightarrow> ('mtd, 'typ, 'fld, 'c, 'w) serverStream \<Rightarrow> 'v \<Rightarrow> bool"
where
  "url_set E m0 s m \<longleftrightarrow>
     (\<forall>x \<in> set (vars (ssTarget s)). \<forall>v. urlValue E m0 s x v \<longrightarrow> leafValue (lib E) m (flds x) = Some v)"

lemma plain_url_none:
  "vars (ssTarget s) = [] \<Longrightarrow> trimVerb (ssTarget s) (rqEscapedPath (ssRequest s)) \<noteq> None \<Longrightarrow>
   rqRawQuery (ssRequest s) = [] \<Longrightarrow> plain_url E fs m0 s"
  by (simp add: plain_url_def)

lemma urlValue_frame:
  "ssTarget s' = ssTarget s \<Longrightarrow> ssRequest s' = ssRequest s \<Longrightarrow> urlValue E m0 s' = urlValue E m0 s"
  by (simp add: urlValue_def fun_eq_iff)

lemma plain_url_frame:
  "ssTarget s' = ssTarget s \<Longrightarrow> ssRequest s' = ssRequest s \<Longrightarrow> plain_url E fs m0 s' = plain_url E fs m0 s"
  by (simp add: plain_url_def urlValue_frame [of s' s])

lemma plain_url_body [simp]:
  "plain_url E fs m0 (s\<lparr>ssBody := b\<rparr>) = plain_url E fs m0 s"
  "plain_url E fs m0 (s\<lparr>ssDone := d\<rparr>) = plain_url E fs m0 s"
  by (rule plain_url_frame; simp)+

lemma foldl_child_head:
  "fs \<noteq> [] \<Longrightarrow> mget L m (hd fs) = VMessage c \<Longrightarrow> mget L m' (hd fs) = VMessage c \<Longrightarrow>
   foldl (childMessage L) m' fs = foldl (childMessage L) m fs"
  by (cases fs) (simp_all add: childMessage_def)

lemma decodeURL_plain:
  assumes laws: "lawful_messages (lib E)" and url: "plain_url E fs m0 s"
    and m: "fs \<noteq> [] \<Longrightarrow> (\<exists>c. mget (lib E) m (hd fs) = VMessage c) \<and>
      (\<forall>g. g \<noteq> hd fs \<longrightarrow> mget (lib E) m g = mget (lib E) m0 g)"
  obtains m' where "decodeURL E s m = Some (None, m')"
    and "foldl (childMessage (lib E)) m' fs = foldl (childMessage (lib E)) m fs" and "url_set E m0 s m'"
proof -
  let ?vs = "vars (ssTarget s)"
  obtain path where path: "trimVerb (ssTarget s) (rqEscapedPath (ssRequest s)) = Some path"
    using url by (auto simp: plain_url_def)
  have "\<forall>x \<in> set ?vs. \<exists>v. settable (reflect E) (lib E) path m0 x v"
    using url path by (auto simp: plain_url_def urlValue_def)
  then obtain val where val: "\<forall>x \<in> set ?vs. settable (reflect E) (lib E) path m0 x (val x)"
    by (rule bchoice [THEN exE])
  have heads: "fs \<noteq> [] \<and> hd (flds x) \<noteq> hd fs" if "x \<in> set ?vs" for x
    using url that by (simp add: plain_url_def)
  have "settable (reflect E) (lib E) path m x (val x)" if x: "x \<in> set ?vs" for x
    using bspec [OF val x] settable_cong [of "lib E" m x m0 "reflect E" path "val x"] m heads [OF x] by simp
  then obtain m' where m': "decodeVars (texts E) (reflect E) (lib E) path (rev ?vs) m = Some (None, m')"
      "\<forall>x \<in> set (rev ?vs). leafValue (lib E) m' (flds x) = Some (val x)"
      "\<forall>g. g \<notin> (\<lambda>x. hd (flds x)) ` set (rev ?vs) \<longrightarrow> mget (lib E) m' g = mget (lib E) m g"
    using decodeVars_sets [OF laws, of "rev ?vs" "reflect E" path m val "texts E"] url
    by (auto simp: plain_url_def simp flip: rev_map)
  have "queryValues [] = []"
    by code_simp
  then have d: "decodeURL E s m = Some (None, m')"
    using path m'(1) url by (simp add: decodeURL_def decodeRequestURL_def plain_url_def)
  have f: "foldl (childMessage (lib E)) m' fs = foldl (childMessage (lib E)) m fs"
  proof (cases "?vs = []")
    case True
    then show ?thesis
      using m'(1) by simp
  next
    case False
    then have "fs \<noteq> []"
      using heads by (cases ?vs) auto
    moreover have "hd fs \<notin> (\<lambda>x. hd (flds x)) ` set (rev ?vs)"
      using heads by (metis (no_types, lifting) imageE set_rev)
    ultimately show ?thesis
      using m'(3) m foldl_child_head by metis
  qed
  have "url_set E m0 s m'"
    using m'(2) val settable_unique path by (fastforce simp: url_set_def urlValue_def)
  then show thesis
    by (rule that [OF d f])
qed

lemma setBody_data:
  assumes "lawful_bodies (reflect E) (lib E) (Descriptor E)" and "plain_upload E fs m0 s"
  obtains m where "setBodyHTTPBody (texts E) (reflect E) (lib E) (Descriptor E) fs m0 ct data = (None, m)"
    and "bodyData E fs m = data" and "bodyType E fs m = ct"
    and "fs \<noteq> [] \<Longrightarrow> (\<exists>c. mget (lib E) m (hd fs) = VMessage c) \<and>
      (\<forall>g. g \<noteq> hd fs \<longrightarrow> mget (lib E) m g = mget (lib E) m0 g)"
proof -
  let ?R = "reflect E" and ?L = "lib E" and ?D = "Descriptor E"
  have path: "path_messages ?R ?L ?D m0 fs" "isHTTPBodyPath ?R fs (?D m0)"
    using assms(2) by (simp_all add: plain_upload_def)
  let ?host = "foldl (childMessage ?L) m0 fs"
  let ?m = "putMessage ?L m0 fs (setHTTPBody ?R ?L ?D ?host ct data)"
  have "setBodyHTTPBody (texts E) ?R ?L ?D fs m0 ct data = (None, ?m)"
    by (simp add: setBodyHTTPBody_def hostPath_def walk_messages [OF path(1)])
  moreover have "foldl (childMessage ?L) ?m fs = setHTTPBody ?R ?L ?D ?host ct data"
    using assms(1) by (intro foldl_putMessage) (simp add: lawful_bodies_def)
  moreover have "(\<exists>c. mget ?L ?m (hd fs) = VMessage c) \<and> (\<forall>g. g \<noteq> hd fs \<longrightarrow> mget ?L ?m g = mget ?L m0 g)"
    if "fs \<noteq> []"
    using assms(1) that by (cases fs) (simp_all add: lawful_bodies_def lawful_messages_def)
  ultimately show thesis
    using that setHTTPBody_get [OF assms(1) host_is_body [OF path], of ct data]
    by (simp add: bodyData_def bodyType_def)
qed

text \<open>The first message of an upload has the body data and the values of the URL.\<close>

lemma setBody_url:
  assumes "lawful_bodies (reflect E) (lib E) (Descriptor E)" and "plain_upload E fs m0 s"
    and "ssTarget s' = ssTarget s" and "ssRequest s' = ssRequest s"
  obtains m m' where "setBodyHTTPBody (texts E) (reflect E) (lib E) (Descriptor E) fs m0 ct data = (None, m)"
    and "decodeURL E s' m = Some (None, m')"
    and "bodyData E fs m = data" and "bodyType E fs m = ct"
    and "bodyData E fs m' = data" and "bodyType E fs m' = ct" and "url_set E m0 s m'"
proof -
  obtain m where m: "setBodyHTTPBody (texts E) (reflect E) (lib E) (Descriptor E) fs m0 ct data = (None, m)"
      "bodyData E fs m = data" "bodyType E fs m = ct"
      "fs \<noteq> [] \<Longrightarrow> (\<exists>c. mget (lib E) m (hd fs) = VMessage c) \<and>
        (\<forall>g. g \<noteq> hd fs \<longrightarrow> mget (lib E) m g = mget (lib E) m0 g)"
    by (rule setBody_data [OF assms(1,2)]) (rule that)
  have laws: "lawful_messages (lib E)" "plain_url E fs m0 s'"
    using assms by (simp_all add: lawful_bodies_def plain_upload_def plain_url_frame [of s' s])
  obtain m' where "decodeURL E s' m = Some (None, m')"
      "foldl (childMessage (lib E)) m' fs = foldl (childMessage (lib E)) m fs" "url_set E m0 s' m'"
    by (rule decodeURL_plain [OF laws m(4)])
  then show thesis
    using m(1-3) assms(3) urlValue_frame [OF assms(3,4), of E m0]
    by (intro that) (simp_all add: bodyData_def bodyType_def url_set_def)
qed

text \<open>One call of \<open>Receive\<close> on an open upload.\<close>

lemma Receive_upload:
  assumes "lawful_bodies (reflect E) (lib E) (Descriptor E)" and "plain_upload E fs m0 s"
    and "\<not> ssDone s" and "(if ssBody s = None then openBody E s else (None, s)) = (None, s1)"
    and "ssBody s1 = Some b" and "rdErr b = EOF"
  obtains (chunk) m s2 d where "Receive E (ProtoMessage m0) s = Some (None, ProtoMessage m, s2)"
      and "readChunk b = (Inr d, b\<lparr>rdData := drop bodyChunkSize (rdData b)\<rparr>)"
      and "bodyData E fs m = d" and "bodyType E fs m = header_get (rqHeader (ssRequest s)) ''Content-Type''"
      and "s2 = s1\<lparr>ssBody := Some (b\<lparr>rdData := drop bodyChunkSize (rdData b)\<rparr>)\<rparr>"
      and "ssBody s = None \<longrightarrow> url_set E m0 s m"
    | (empty) m s2 where "rdData b = []" and "ssBody s = None"
      and "Receive E (ProtoMessage m0) s = Some (None, ProtoMessage m, s2)"
      and "bodyData E fs m = []" and "bodyType E fs m = header_get (rqHeader (ssRequest s)) ''Content-Type''"
      and "ssDone s2" and "url_set E m0 s m"
    | (ended) s2 where "rdData b = []" and "ssBody s \<noteq> None"
      and "Receive E (ProtoMessage m0) s = Some (Some EOF, ProtoMessage m0, s2)"
proof -
  let ?first = "ssBody s = None"
  have fr: "ssMethod s1 = ssMethod s \<and> ssTarget s1 = ssTarget s"
    using assms(4) openBody_frame [of E s None s1] recv_frame_evolves [of s s1]
    by (auto simp: evolves_def split: if_splits)
  have rq: "ssRequest s1 = ssRequest s"
    using assms(2,4) by (auto simp: openBody_def plain_upload_def Let_def split: if_splits sum.splits)
  have p1: "plain_upload E fs m0 (s1\<lparr>ssBody := x, ssDone := y\<rparr>)" "plain_upload E fs m0 (s1\<lparr>ssBody := x\<rparr>)" for x y
    using assms(2) fr rq plain_url_frame [of s1 s E fs m0] by (simp_all add: plain_upload_def)
  have tgt: "requestBodyFields (ssTarget s) = Some fs" and cs: "clientStreaming (streamType (spec (ssMethod s)))"
    using assms(2) by (simp_all add: plain_upload_def)
  have recv: "Receive E (ProtoMessage m0) s =
      map_option (\<lambda>(err, pmsg, s). (err, ProtoMessage pmsg, s)) (receiveStream E ?first b m0 s1)"
    using assms(3-5) fr cs by (simp add: Receive_def Let_def)
  let ?ct = "header_get (rqHeader (ssRequest s)) ''Content-Type''"
  show thesis
  proof (cases "rdData b = []")
    case False
    have rc: "\<exists>d. readChunk b = (Inr d, b\<lparr>rdData := drop bodyChunkSize (rdData b)\<rparr>)"
      using readChunk_full [of b] readChunk_short [of b] False assms(6)
      by (cases "bodyChunkSize \<le> length (rdData b)") auto
    then obtain d where d: "readChunk b = (Inr d, b\<lparr>rdData := drop bodyChunkSize (rdData b)\<rparr>)"
      by blast
    let ?s2 = "s1\<lparr>ssBody := Some (b\<lparr>rdData := drop bodyChunkSize (rdData b)\<rparr>)\<rparr>"
    obtain m m' where m: "setBodyHTTPBody (texts E) (reflect E) (lib E) (Descriptor E) fs m0 ?ct d = (None, m)"
      "decodeURL E ?s2 m = Some (None, m')" "bodyData E fs m = d" "bodyType E fs m = ?ct"
      "bodyData E fs m' = d" "bodyType E fs m' = ?ct" "url_set E m0 s m'"
      by (rule setBody_url [OF assms(1,2), where s' = ?s2]) (use fr rq in simp_all)
    let ?m = "if ?first then m' else m"
    have "receiveStream E ?first b m0 s1 = Some (None, ?m, ?s2)"
      using d m(1,2) fr rq tgt by (simp add: receiveStream_def Let_def)
    then have "Receive E (ProtoMessage m0) s = Some (None, ProtoMessage ?m, ?s2)"
      using recv by simp
    then show thesis
      by (rule chunk [OF _ d _ _ refl]) (use m in simp_all)
  next
    case True
    then have d: "readChunk b = (Inl EOF, b\<lparr>rdData := []\<rparr>)"
      using readChunk_short [of b] assms(6) bodyChunkSize_pos by simp
    show thesis
    proof (cases ?first)
      case first: True
      let ?s2 = "s1\<lparr>ssBody := Some (b\<lparr>rdData := []\<rparr>), ssDone := True\<rparr>"
      obtain m m' where m: "setBodyHTTPBody (texts E) (reflect E) (lib E) (Descriptor E) fs m0 ?ct [] = (None, m)"
        "decodeURL E ?s2 m = Some (None, m')" "bodyData E fs m' = []" "bodyType E fs m' = ?ct" "url_set E m0 s m'"
        by (rule setBody_url [OF assms(1,2), where s' = ?s2]) (use fr rq in simp_all)
      have "receiveStream E ?first b m0 s1 = Some (None, m', ?s2)"
        using d m(1,2) fr rq tgt first by (simp add: receiveStream_def Let_def)
      then have "Receive E (ProtoMessage m0) s = Some (None, ProtoMessage m', ?s2)"
        using recv by simp
      then show thesis
        by (rule empty [OF True first _ m(3,4) _ m(5)]) simp
    next
      case later: False
      have "receiveStream E ?first b m0 s1 =
          Some (Some EOF, m0, s1\<lparr>ssBody := Some (b\<lparr>rdData := []\<rparr>), ssDone := True\<rparr>)"
        using d later by (simp add: receiveStream_def Let_def)
      then have "Receive E (ProtoMessage m0) s =
          Some (Some EOF, ProtoMessage m0, s1\<lparr>ssBody := Some (b\<lparr>rdData := []\<rparr>), ssDone := True\<rparr>)"
        using recv by simp
      then show thesis
        using ended [OF True] later by blast
    qed
  qed
qed

text \<open>The number of chunks a text has.\<close>

definition chunk_count :: "string \<Rightarrow> nat" where
  "chunk_count d = (length d + bodyChunkSize - 1) div bodyChunkSize"

lemma chunk_count_drop: "d \<noteq> [] \<Longrightarrow> Suc (chunk_count (drop bodyChunkSize d)) = chunk_count d"
proof (cases "bodyChunkSize \<le> length d")
  case True
  have "length d + bodyChunkSize - 1 = (length d - 1) + bodyChunkSize"
    using True bodyChunkSize_pos by simp
  moreover have "((length d - 1) + bodyChunkSize) div bodyChunkSize = Suc ((length d - 1) div bodyChunkSize)"
    using bodyChunkSize_pos by (subst div_add_self2) simp_all
  moreover have "length (drop bodyChunkSize d) + bodyChunkSize - 1 = length d - 1"
    using True by simp
  ultimately show ?thesis
    unfolding chunk_count_def by simp
next
  case False
  assume "d \<noteq> []"
  then have "(length d + bodyChunkSize - 1) div bodyChunkSize = 1"
    using False by (intro div_nat_eqI) (cases d; simp)+
  then show ?thesis
    using False bodyChunkSize_pos by (simp add: chunk_count_def)
qed

lemma chunk_count_le: "chunk_count d \<le> length d div bodyChunkSize + 1"
proof -
  have "chunk_count d \<le> (length d + bodyChunkSize) div bodyChunkSize"
    unfolding chunk_count_def by (intro div_le_mono) simp
  moreover have "(length d + bodyChunkSize) div bodyChunkSize = length d div bodyChunkSize + 1"
    using bodyChunkSize_pos by (subst div_add_self2) simp_all
  ultimately show ?thesis by simp
qed

lemma receiveLoop_open:
  assumes "lawful_bodies (reflect E) (lib E) (Descriptor E)"
  shows "plain_upload E fs m0 s \<Longrightarrow> \<not> ssDone s \<Longrightarrow> ssBody s = Some b \<Longrightarrow> rdErr b = EOF \<Longrightarrow>
    chunk_count (rdData b) < n \<Longrightarrow>
    \<exists>ms. receiveLoop n E m0 s = (ms, Some EOF) \<and> concat (map (bodyData E fs) ms) = rdData b \<and>
      list_all (\<lambda>m. bodyType E fs m = header_get (rqHeader (ssRequest s)) ''Content-Type'') ms"
proof (induction n arbitrary: s b)
  case (Suc n)
  have opened: "(if ssBody s = None then openBody E s else (None, s)) = (None, s)"
    using Suc.prems(3) by simp
  show ?case
  proof (cases rule: Receive_upload [OF assms Suc.prems(1,2) opened Suc.prems(3,4), case_names chunk empty ended])
    case (chunk m s2 d)
    let ?b = "b\<lparr>rdData := drop bodyChunkSize (rdData b)\<rparr>"
    have d: "d @ rdData ?b = rdData b" "rdData b \<noteq> []"
      using chunk(2) readChunk_full [of b] readChunk_short [of b] Suc.prems(4) bodyChunkSize_pos
      by (cases "bodyChunkSize \<le> length (rdData b)"; auto split: if_splits)+
    have "plain_upload E fs m0 s2" "\<not> ssDone s2" "ssBody s2 = Some ?b" "ssRequest s2 = ssRequest s"
      using chunk(5) Suc.prems(1,2) by (simp_all add: plain_upload_def)
    moreover have "chunk_count (rdData ?b) < n"
      using chunk_count_drop [OF d(2)] Suc.prems(5) by simp
    ultimately obtain ms where "receiveLoop n E m0 s2 = (ms, Some EOF)"
      "concat (map (bodyData E fs) ms) = rdData ?b"
      "list_all (\<lambda>m. bodyType E fs m = header_get (rqHeader (ssRequest s)) ''Content-Type'') ms"
      using Suc.IH [of s2 ?b] Suc.prems(4) by auto
    then show ?thesis
      using chunk(1,3,4) d(1) by auto
  next
    case (ended s2)
    then show ?thesis by simp
  qed (use Suc.prems(3) in simp)
qed simp

lemma receiveLoop_done: "ssDone s \<Longrightarrow> 0 < n \<Longrightarrow> receiveLoop n E m0 s = ([], Some EOF)"
  by (cases n) (simp_all add: Receive_def)

lemma upload_lemma:
  assumes laws: "lawful_bodies (reflect E) (lib E) (Descriptor E)" and plain: "plain_upload E fs m0 s"
    and fresh: "\<not> ssDone s" "ssBody s = None" "requestCompressor s = None"
    and eof: "rdErr (rqBody (ssRequest s)) = EOF"
    and limit: "0 < maxReadBytes E \<longrightarrow> int (length (rdData (rqBody (ssRequest s)))) \<le> maxReadBytes E"
    and n: "length (rdData (rqBody (ssRequest s))) div bodyChunkSize + 2 \<le> n"
  shows "\<exists>ms. receiveLoop n E m0 s = (ms, Some EOF) \<and>
    concat (map (bodyData E fs) ms) = rdData (rqBody (ssRequest s)) \<and> ms \<noteq> [] \<and>
    list_all (\<lambda>m. bodyType E fs m = header_get (rqHeader (ssRequest s)) ''Content-Type'') ms \<and>
    url_set E m0 s (hd ms)"
proof -
  let ?b = "rqBody (ssRequest s)"
  obtain k where k: "n = Suc k" "0 < k"
    using n by (cases n) auto
  have "maxBytesReader (nat (maxReadBytes E)) ?b = ?b" if "0 < maxReadBytes E"
    using limit that by (auto simp: maxBytesReader_def)
  then have o: "openBody E s = (None, s\<lparr>ssBody := Some ?b\<rparr>)"
    using plain fresh(3) by (simp add: openBody_def plain_upload_def Let_def)
  then have o': "(if ssBody s = None then openBody E s else (None, s)) = (None, s\<lparr>ssBody := Some ?b\<rparr>)"
    using fresh(2) by simp
  have b: "ssBody (s\<lparr>ssBody := Some ?b\<rparr>) = Some ?b"
    by simp
  show ?thesis
  proof (cases rule: Receive_upload [OF laws plain fresh(1) o' b eof, case_names chunk empty ended])
    case (chunk m s2 d)
    let ?c = "?b\<lparr>rdData := drop bodyChunkSize (rdData ?b)\<rparr>"
    have d: "d @ rdData ?c = rdData ?b" "rdData ?b \<noteq> []"
      using chunk(2) readChunk_full [of ?b] readChunk_short [of ?b] eof bodyChunkSize_pos
      by (cases "bodyChunkSize \<le> length (rdData ?b)"; auto split: if_splits)+
    have "plain_upload E fs m0 s2" "\<not> ssDone s2" "ssBody s2 = Some ?c" "ssRequest s2 = ssRequest s"
      using chunk(5) plain fresh(1) by (simp_all add: plain_upload_def)
    moreover have "chunk_count (rdData ?c) < k"
      using chunk_count_drop [OF d(2)] chunk_count_le [of "rdData ?b"] n k(1) by simp
    ultimately obtain ms where "receiveLoop k E m0 s2 = (ms, Some EOF)"
      "concat (map (bodyData E fs) ms) = rdData ?c"
      "list_all (\<lambda>m. bodyType E fs m = header_get (rqHeader (ssRequest s)) ''Content-Type'') ms"
      using receiveLoop_open [OF laws, of fs m0 s2 ?c k] eof by auto
    then show ?thesis
      using chunk(1,3,4,6) d(1) k(1) fresh(2) by auto
  next
    case (empty m s2)
    then show ?thesis
      using receiveLoop_done [OF empty(6) k(2), of E m0] k(1) by auto
  qed (use fresh(2) in simp_all)
qed

section \<open>A sample upload\<close>

definition uploadEnv :: "(string, unit, string, string, unit, typedMsg, unit, unit) serverEnv" where
  "uploadEnv =
     \<lparr>reflect = uploadReflect, lib = uploadLib, Descriptor = typeName, texts = plainTexts, codec = plainCodec,
      maxReadBytes = 4194304, discardUnknownQueryParams = False, compressorName = (\<lambda>c. ''gzip''),
      Decompress = (\<lambda>c r. Inr r), Compress = (\<lambda>c. Inr ()), writerWrite = (\<lambda>w s. (s, w, None)),
      writerFlush = None, writerClose = (\<lambda>w. ([], w, None)), responseErr = (\<lambda>s r. None),
      flushErr = (\<lambda>r. None)\<rparr>"

definition upload_target :: "StreamType \<Rightarrow> (string, unit, string) routeTarget" where
  "upload_target st =
     \<lparr>target_method = sample_method ''Upload'' st, httpMethod = ''POST'', template = ''/v1/upload'',
      pattern = ''POST /v1/upload'', requestBodyFieldPath = ''file'', requestBodyFields = Some [''file''],
      responseBodyFieldPath = [], responseBodyFields = None, vars = [], unsupported = None\<rparr>"

definition upload_request :: request where
  "upload_request =
     \<lparr>rqMethod = ''POST'', rqRemoteAddr = [], rqPath = ''/v1/upload'', rqEscapedPath = ''/v1/upload'',
      rqRawQuery = [], rqHeader = [''Content-Type'' \<mapsto> [''image/png'']], rqContentLength = 4,
      rqBody = \<lparr>rdData = ''a%0b'', rdErr = EOF\<rparr>, rqPattern = []\<rparr>"

definition emptyResponse :: response where
  "emptyResponse = \<lparr>rspHeader = (\<lambda>k. None), rspSent = None, rspBody = []\<rparr>"

definition upload_stream :: "StreamType \<Rightarrow> (string, unit, string, unit, unit) serverStream" where
  "upload_stream st =
     newServerStream (sample_method ''Upload'' st) (upload_target st) (\<lambda>k. None) emptyResponse upload_request"

section \<open>Properties\<close>

definition fresh_stream :: "('mtd, 'typ, 'fld, 'c, 'w) serverStream \<Rightarrow> bool" where
  "fresh_stream s \<longleftrightarrow>
     \<not> headersSet s \<and> \<not> ssSent s \<and> \<not> ssDone s \<and> rspSent (ssResponse s) = None"

lemma upload_fresh: "fresh_stream (upload_stream st)"
  by (simp add: fresh_stream_def upload_stream_def newServerStream_def emptyResponse_def)

text \<open>C13: The status line is sent once and the code knows it: whatever calls a handler makes on a
  fresh stream, in any order and with any errors, the stream says it is committed exactly
  when a status was sent, that status is 200, nothing was written to the response before,
  and no later call changes the status or headers that were sent.\<close>

theorem commit_invariant:
  assumes "fresh_stream s" and "stream_run E s log s'" and "stream_run E s' log2 s2"
  shows "committed s' = (rspSent (ssResponse s') \<noteq> None) \<and>
    (if committed s' then map_option fst (rspSent (ssResponse s')) = Some 200 \<and>
        rspSent (ssResponse s2) = rspSent (ssResponse s')
     else rspBody (ssResponse s') = rspBody (ssResponse s))"
proof -
  have "head_ok s"
    using assms(1) by (simp add: fresh_stream_def head_ok_def)
  then have s': "evolves s s'" "head_ok s'"
    using run_evolves [OF assms(2)] by simp_all
  moreover have "evolves s' s2"
    using run_evolves [OF assms(3) s'(2)] by simp
  ultimately show ?thesis
    by (auto simp: committed_def head_ok_def evolves_def)
qed

theorem commit_invariant_witness:
  "committed (snd (Send uploadEnv (ProtoMessage uploadMsg) (upload_stream StreamTypeUnary))) =
   (rspSent (ssResponse (snd (Send uploadEnv (ProtoMessage uploadMsg) (upload_stream StreamTypeUnary)))) \<noteq> None)"
proof -
  obtain e s' where s: "Send uploadEnv (ProtoMessage uploadMsg) (upload_stream StreamTypeUnary) = (e, s')"
    by fastforce
  have "stream_run uploadEnv (upload_stream StreamTypeUnary) [(OpSend (ProtoMessage uploadMsg), e)] s'"
    using s by (auto intro: stream_run.intros stream_step.intros)
  from commit_invariant [OF upload_fresh this stream_run.stop] show ?thesis
    using s by simp
qed

text \<open>C15: A unary call has one request and one response: whatever calls a handler makes on a fresh
  stream, at most one Send succeeds when the response is not streamed, and at most one
  Receive succeeds when the request is not streamed.\<close>

theorem unary_once:
  assumes "fresh_stream s" and "stream_run E s log s'"
  shows "(serverStreaming (streamType (spec (ssMethod s))) \<or> ok_sends log \<le> 1) \<and>
    (clientStreaming (streamType (spec (ssMethod s))) \<or> ok_receives log \<le> 1)"
proof -
  have "head_ok s" "\<not> ssSent s" "\<not> ssDone s"
    using assms(1) by (simp_all add: fresh_stream_def head_ok_def)
  then show ?thesis
    using run_sends [OF assms(2)] run_receives [OF assms(2)] by auto
qed

theorem unary_once_witness:
  "let (e, s) = Send uploadEnv (ProtoMessage uploadMsg) (upload_stream StreamTypeUnary);
       (e2, s2) = Send uploadEnv (ProtoMessage uploadMsg) s
   in ok_sends [(OpSend (ProtoMessage uploadMsg), e), (OpSend (ProtoMessage uploadMsg), e2)] \<le> 1"
proof -
  obtain e s where s: "Send uploadEnv (ProtoMessage uploadMsg) (upload_stream StreamTypeUnary) = (e, s)"
    by fastforce
  obtain e2 s2 where s2: "Send uploadEnv (ProtoMessage uploadMsg) s = (e2, s2)"
    by fastforce
  have "stream_run uploadEnv (upload_stream StreamTypeUnary)
      [(OpSend (ProtoMessage uploadMsg), e), (OpSend (ProtoMessage uploadMsg), e2)] s2"
    using s s2 by (auto intro: stream_run.intros stream_step.intros)
  from unary_once [OF upload_fresh this] show ?thesis
    using s s2 by (simp add: upload_stream_def newServerStream_def sample_method_def serverStreaming_def)
qed


text \<open>An upload whose file name is part of the path.\<close>

definition named_target :: "(string, unit, string) routeTarget" where
  "named_target = (upload_target StreamTypeClient)
     \<lparr>template := ''/v1/**:upload'', vars := [\<lparr>fieldPath = ''name'', vstart = 1, vend = -1, flds = [''name'']\<rparr>]\<rparr>"

definition named_stream :: "(string, unit, string, unit, unit) serverStream" where
  "named_stream =
     newServerStream (sample_method ''Upload'' StreamTypeClient) named_target (\<lambda>k. None) emptyResponse
       (upload_request\<lparr>rqEscapedPath := ''/v1/a/b%20c:upload''\<rparr>)"

lemma named_value: "urlValue uploadEnv uploadMsg named_stream (hd (vars named_target)) (VString ''a/b c'')"
proof -
  have "trimVerb named_target ''/v1/a/b%20c:upload'' = Some ''/v1/a/b%20c''"
    and "capture (hd (vars named_target)) ''/v1/a/b%20c'' = Some (Inr ''a/b c'')"
    by code_simp+
  then show ?thesis
    by (simp add: urlValue_def named_stream_def newServerStream_def settable_def named_target_def unmarshalScalar_def
        uploadEnv_def uploadReflect_def sample_def)
qed

lemma named_upload: "plain_upload uploadEnv [''file''] uploadMsg named_stream"
proof -
  obtain x where x: "vars named_target = [x]" "flds x = [''name'']"
    by (simp add: named_target_def)
  have stream: "ssTarget named_stream = named_target" "rqRawQuery (ssRequest named_stream) = []"
    "clientStreaming (streamType (spec (ssMethod named_stream)))" "requestBodyFields named_target = Some [''file'']"
    by (simp_all add: named_stream_def newServerStream_def upload_request_def sample_method_def clientStreaming_def
      named_target_def upload_target_def)
  have env: "reflect uploadEnv = uploadReflect" "lib uploadEnv = uploadLib" "Descriptor uploadEnv = typeName"
    by (simp_all add: uploadEnv_def)
  have val: "urlValue uploadEnv uploadMsg named_stream x (VString ''a/b c'')"
    using named_value by (simp add: x)
  then have "trimVerb named_target (rqEscapedPath (ssRequest named_stream)) \<noteq> None"
    by (auto simp: urlValue_def stream split: option.splits)
  then show ?thesis
    using upload_path val stream(3) unfolding plain_upload_def plain_url_def env stream(1,2,4) x by (auto simp: x)
qed


end
