(* ===== verification/TypeResolver.thy ===== *)
theory TypeResolver
  imports FieldPaths Errors
begin

text \<open>
  Type resolution: \<open>type_resolver.go\<close>.  A \<open>TypeResolver\<close> is the record of its four lookups; the
  global registries and \<open>dynamicpb.NewTypes\<close> are arguments.  A registry of files maps a path to
  a file; \<open>RegisterFile\<close> adds a file unless it conflicts, which the argument \<open>conflict\<close>
  decides.  \<open>addFileRecursive\<close> follows imports with a bound on the depth of its recursion;
  \<open>None\<close> is running out of it, and a bound above the number of paths that are not yet
  registered is enough.
\<close>

section \<open>Resolvers\<close>

record ('typ, 'ext) typeResolver =
  FindMessageByName :: "string \<Rightarrow> goError + 'typ"
  FindMessageByURL :: "string \<Rightarrow> goError + 'typ"
  FindExtensionByName :: "string \<Rightarrow> goError + 'ext"
  FindExtensionByNumber :: "string \<Rightarrow> int \<Rightarrow> goError + 'ext"

definition NotFound :: goError where
  "NotFound = OtherError ''proto: not found''"

text \<open>The loop the four methods share: the first resolver that finds it, else the last error.\<close>

fun firstFound :: "('r \<Rightarrow> goError + 'a) \<Rightarrow> 'r list \<Rightarrow> goError option \<Rightarrow> goError + 'a" where
  "firstFound lookup [] lastErr = (case lastErr of None \<Rightarrow> Inl NotFound | Some err \<Rightarrow> Inl err)"
| "firstFound lookup (res # f) lastErr =
     (case lookup res of
        Inr typ \<Rightarrow> Inr typ
      | Inl err \<Rightarrow> firstFound lookup f (Some err))"

definition fallbackFindMessageByName :: "('typ, 'ext) typeResolver list \<Rightarrow> string \<Rightarrow> goError + 'typ" where
  "fallbackFindMessageByName f msgName = firstFound (\<lambda>res. FindMessageByName res msgName) f None"

definition fallbackFindMessageByURL :: "('typ, 'ext) typeResolver list \<Rightarrow> string \<Rightarrow> goError + 'typ" where
  "fallbackFindMessageByURL f url = firstFound (\<lambda>res. FindMessageByURL res url) f None"

definition fallbackFindExtensionByName :: "('typ, 'ext) typeResolver list \<Rightarrow> string \<Rightarrow> goError + 'ext" where
  "fallbackFindExtensionByName f field = firstFound (\<lambda>res. FindExtensionByName res field) f None"

definition fallbackFindExtensionByNumber ::
  "('typ, 'ext) typeResolver list \<Rightarrow> string \<Rightarrow> int \<Rightarrow> goError + 'ext" where
  "fallbackFindExtensionByNumber f msgName field =
     firstFound (\<lambda>res. FindExtensionByNumber res msgName field) f None"

definition fallbackResolver :: "('typ, 'ext) typeResolver list \<Rightarrow> ('typ, 'ext) typeResolver" where
  "fallbackResolver f =
     \<lparr>FindMessageByName = fallbackFindMessageByName f, FindMessageByURL = fallbackFindMessageByURL f,
      FindExtensionByName = fallbackFindExtensionByName f,
      FindExtensionByNumber = fallbackFindExtensionByNumber f\<rparr>"

section \<open>Files\<close>

record 'file filelib =
  Path :: "'file \<Rightarrow> string"
  Imports :: "'file \<Rightarrow> 'file list"
  conflict :: "'file \<Rightarrow> (string \<Rightarrow> 'file option) \<Rightarrow> goError option"

type_synonym 'file registry = "string \<Rightarrow> 'file option"

definition registerFile :: "'file filelib \<Rightarrow> 'file \<Rightarrow> 'file registry \<Rightarrow> goError + 'file registry" where
  "registerFile P file files =
     (case conflict P file files of
        Some err \<Rightarrow> Inl err
      | None \<Rightarrow> Inr (files(Path P file \<mapsto> file)))"

fun addImports ::
  "('file \<Rightarrow> 'file registry \<Rightarrow> (goError + 'file registry) option) \<Rightarrow> 'file list \<Rightarrow> 'file registry \<Rightarrow>
   (goError + 'file registry) option"
where
  "addImports add [] files = Some (Inr files)"
| "addImports add (depFile # imports) files =
     (case add depFile files of
        None \<Rightarrow> None
      | Some (Inl err) \<Rightarrow> Some (Inl err)
      | Some (Inr files) \<Rightarrow> addImports add imports files)"

primrec addFileRecursive ::
  "nat \<Rightarrow> 'file filelib \<Rightarrow> 'file \<Rightarrow> 'file registry \<Rightarrow> (goError + 'file registry) option"
where
  "addFileRecursive 0 P file files = None"
| "addFileRecursive (Suc n) P file files =
     (if files (Path P file) \<noteq> None then Some (Inr files)
      else
        (case registerFile P file files of
           Inl err \<Rightarrow> Some (Inl err)
         | Inr files \<Rightarrow> addImports (addFileRecursive n P) (Imports P file) files))"

section \<open>The resolver of a service\<close>

record ('svc, 'mtd, 'file, 'typ, 'ext) registries =
  ParentFile :: "'svc \<Rightarrow> 'file option"
  Methods :: "'svc \<Rightarrow> 'mtd list"
  GlobalFiles :: "'file registry"
  GlobalTypes :: "('typ, 'ext) typeResolver"
  dynamicTypes :: "'file registry \<Rightarrow> ('typ, 'ext) typeResolver"

fun typesFound ::
  "('mtd, 'msg, 'fld) reflect \<Rightarrow> ('typ, 'ext) typeResolver \<Rightarrow> 'mtd list \<Rightarrow> bool"
where
  "typesFound R globalTypes [] = True"
| "typesFound R globalTypes (methodDesc # ms) =
     (case FindMessageByName globalTypes (FullName R (Input R methodDesc)) of
        Inl err \<Rightarrow> False
      | Inr _ \<Rightarrow>
          (case FindMessageByName globalTypes (FullName R (Output R methodDesc)) of
             Inl err \<Rightarrow> False
           | Inr _ \<Rightarrow> typesFound R globalTypes ms))"

definition canUseGlobalTypes ::
  "('mtd, 'msg, 'fld) reflect \<Rightarrow> 'file filelib \<Rightarrow> ('svc, 'mtd, 'file, 'typ, 'ext) registries \<Rightarrow>
   'svc \<Rightarrow> bool"
where
  "canUseGlobalTypes R P G svcDesc =
     (case ParentFile G svcDesc of
        None \<Rightarrow> False
      | Some file \<Rightarrow>
          if GlobalFiles G (Path P file) \<noteq> Some file then False
          else typesFound R (GlobalTypes G) (Methods G svcDesc))"

definition resolverForFile ::
  "nat \<Rightarrow> 'file filelib \<Rightarrow> ('svc, 'mtd, 'file, 'typ, 'ext) registries \<Rightarrow> 'file option \<Rightarrow>
   ('typ, 'ext) typeResolver option"
where
  "resolverForFile n P G file =
     (case file of
        None \<Rightarrow> Some (GlobalTypes G)
      | Some file \<Rightarrow>
          (case addFileRecursive n P file (\<lambda>_. None) of
             None \<Rightarrow> None
           | Some (Inl err) \<Rightarrow> Some (GlobalTypes G)
           | Some (Inr files) \<Rightarrow> Some (fallbackResolver [dynamicTypes G files, GlobalTypes G])))"

definition resolverForService ::
  "nat \<Rightarrow> ('mtd, 'msg, 'fld) reflect \<Rightarrow> 'file filelib \<Rightarrow> ('svc, 'mtd, 'file, 'typ, 'ext) registries \<Rightarrow>
   'svc \<Rightarrow> ('typ, 'ext) typeResolver option"
where
  "resolverForService n R P G service =
     (if canUseGlobalTypes R P G service then Some (GlobalTypes G)
      else resolverForFile n P G (ParentFile G service))"

section \<open>Registering a file registers its imports\<close>

text \<open>The files that the import graph below \<open>us\<close> has, and those not registered yet.\<close>

definition closed_files :: "'file filelib \<Rightarrow> 'file set \<Rightarrow> bool" where
  "closed_files P U \<longleftrightarrow> finite U \<and> (\<forall>f \<in> U. set (Imports P f) \<subseteq> U)"

definition unregistered :: "'file filelib \<Rightarrow> 'file set \<Rightarrow> 'file registry \<Rightarrow> nat" where
  "unregistered P U files = card (Path P ` U - dom files)"

text \<open>What a call adds: registered files stay, the file is registered, and the imports of every
  file that was added are registered.\<close>

definition added :: "'file filelib \<Rightarrow> 'file registry \<Rightarrow> 'file registry \<Rightarrow> bool" where
  "added P files files' \<longleftrightarrow>
     dom files \<subseteq> dom files' \<and>
     (\<forall>p f. files' p = Some f \<longrightarrow> files p = Some f \<or> (\<forall>i \<in> set (Imports P f). Path P i \<in> dom files'))"

lemma added_refl: "added P files files"
  by (simp add: added_def)

lemma added_trans: "added P f1 f2 \<Longrightarrow> added P f2 f3 \<Longrightarrow> added P f1 f3"
  unfolding added_def by (metis (no_types, lifting) subset_trans subsetD)

lemma registerFile_Inr:
  "registerFile P file files = Inr files' \<Longrightarrow> files' = files(Path P file \<mapsto> file)"
  by (auto simp: registerFile_def split: option.splits)

lemma unregistered_mono:
  "finite U \<Longrightarrow> dom files \<subseteq> dom files' \<Longrightarrow> unregistered P U files' \<le> unregistered P U files"
  unfolding unregistered_def by (intro card_mono) auto

lemma unregistered_less:
  assumes "finite U" and "file \<in> U" and "files (Path P file) = None"
  shows "unregistered P U (files(Path P file \<mapsto> file)) < unregistered P U files"
  unfolding unregistered_def using assms by (intro psubset_card_mono) auto

lemma addImports_result:
  assumes "\<And>f files. f \<in> set deps \<Longrightarrow> dom files0 \<subseteq> dom files \<Longrightarrow>
      \<exists>r. add f files = Some r \<and> (\<forall>files'. r = Inr files' \<longrightarrow> added P files files' \<and> Path P f \<in> dom files')"
    and "dom files0 \<subseteq> dom files"
  shows "\<exists>r. addImports add deps files = Some r \<and>
    (\<forall>files'. r = Inr files' \<longrightarrow> added P files files' \<and> Path P ` set deps \<subseteq> dom files')"
  using assms
proof (induction deps arbitrary: "files")
  case (Cons f deps)
  obtain r where r: "add f files = Some r"
    "\<forall>files'. r = Inr files' \<longrightarrow> added P files files' \<and> Path P f \<in> dom files'"
    using Cons.prems by (metis list.set_intros(1))
  show ?case
  proof (cases r)
    case (Inl e)
    then show ?thesis using r by simp
  next
    case (Inr files1)
    then have f1: "added P files files1" "Path P f \<in> dom files1"
      using r(2) by simp_all
    then have "dom files0 \<subseteq> dom files1"
      using Cons.prems(2) by (auto simp: added_def)
    then obtain r' where r': "addImports add deps files1 = Some r'"
      "\<forall>files'. r' = Inr files' \<longrightarrow> added P files1 files' \<and> Path P ` set deps \<subseteq> dom files'"
      using Cons.IH [of files1] Cons.prems(1) by (metis list.set_intros(2))
    have "added P files files' \<and> Path P ` set (f # deps) \<subseteq> dom files'" if "r' = Inr files'" for files'
    proof -
      have a: "added P files1 files'" "Path P ` set deps \<subseteq> dom files'"
        using r'(2) that by simp_all
      then have "Path P f \<in> dom files'"
        using f1(2) unfolding added_def by blast
      then show ?thesis
        using added_trans [OF f1(1) a(1)] a(2) by simp
    qed
    then show ?thesis
      using r(1) Inr r'(1) by simp
  qed
qed (simp add: added_refl)

lemma addFileRecursive_result:
  assumes "closed_files P U"
  shows "file \<in> U \<Longrightarrow> unregistered P U files < n \<Longrightarrow>
    \<exists>r. addFileRecursive n P file files = Some r \<and>
      (\<forall>files'. r = Inr files' \<longrightarrow> added P files files' \<and> Path P file \<in> dom files')"
proof (induction n arbitrary: "file" "files")
  case (Suc n)
  have fin: "finite U" and imp: "set (Imports P file) \<subseteq> U"
    using assms Suc.prems(1) by (simp_all add: closed_files_def)
  show ?case
  proof (cases "files (Path P file) = None")
    case False
    then show ?thesis by (auto simp: added_refl)
  next
    case True
    show ?thesis
    proof (cases "registerFile P file files")
      case (Inl e)
      then show ?thesis using True by simp
    next
      case (Inr files1)
      then have f1: "files1 = files(Path P file \<mapsto> file)"
        by (rule registerFile_Inr)
      have less: "unregistered P U files1 < n"
        using unregistered_less [of U "file" "files" P, OF fin Suc.prems(1) True] Suc.prems(2) f1 by simp
      have "\<exists>r. addFileRecursive n P f fs = Some r \<and>
          (\<forall>files'. r = Inr files' \<longrightarrow> added P fs files' \<and> Path P f \<in> dom files')"
        if "f \<in> set (Imports P file)" "dom files1 \<subseteq> dom fs" for f fs
        using Suc.IH [of f fs] imp that unregistered_mono [OF fin that(2), of P] less by auto
      then obtain r where r: "addImports (addFileRecursive n P) (Imports P file) files1 = Some r"
        "\<forall>files'. r = Inr files' \<longrightarrow> added P files1 files' \<and> Path P ` set (Imports P file) \<subseteq> dom files'"
        using addImports_result [of "Imports P file" files1 "addFileRecursive n P" P files1] by blast
      have "added P files files' \<and> Path P file \<in> dom files'" if "r = Inr files'" for files'
      proof -
        have a: "added P files1 files'" and i: "Path P ` set (Imports P file) \<subseteq> dom files'"
          using r(2) that by simp_all
        have "files p = Some f \<or> (\<forall>i \<in> set (Imports P f). Path P i \<in> dom files')"
          if "files' p = Some f" for p f
          using a i that unfolding added_def f1 by (metis (no_types, lifting) fun_upd_apply image_subset_iff option.inject)
        then show ?thesis
          using a f1 by (auto simp: added_def)
      qed
      then show ?thesis
        using True Inr r(1) by simp
    qed
  qed
qed simp

section \<open>Properties\<close>


definition cyclic_files :: "nat filelib" where
  "cyclic_files =
     \<lparr>Path = (\<lambda>f. if f = 0 then ''a.proto'' else ''b.proto''), Imports = (\<lambda>f. [1 - f]), conflict = (\<lambda>f fs. None)\<rparr>"


text \<open>A resolver with fallbacks answers as the first of its resolvers that knows the name: the
  lookup succeeds exactly when one of them does, with the first success, and otherwise
  gives the error of the last one, or not found when there is none.\<close>

theorem fallback_first:
  "fallbackFindMessageByName f n =
     (case find (\<lambda>res. \<not> isl (FindMessageByName res n)) f of
        Some res \<Rightarrow> FindMessageByName res n
      | None \<Rightarrow> if f = [] then Inl NotFound else FindMessageByName (last f) n)"
proof -
  let ?lookup = "\<lambda>res. FindMessageByName res n"
  have "firstFound ?lookup f e =
      (case find (\<lambda>res. \<not> isl (?lookup res)) f of
         Some res \<Rightarrow> ?lookup res
       | None \<Rightarrow> if f = [] then (case e of None \<Rightarrow> Inl NotFound | Some err \<Rightarrow> Inl err) else ?lookup (last f))"
    for e
    by (induction f arbitrary: e) (auto split: sum.splits option.splits)
  from this [of None] show ?thesis
    by (simp add: fallbackFindMessageByName_def)
qed

end
