(* ===== verification/Methods.thy ===== *)
theory Methods
  imports ClientPath TypeResolver "HOL-Library.Multiset"
begin

text \<open>
  From registered procedures to routes: \<open>method.go\<close>, \<open>getHTTPRuleExtension\<close> of \<open>httprule.go\<close>,
  and \<open>transport.resolveMethod\<close> of \<open>vanguard.go\<close>.  Go ranges over a map of methods in an
  order it does not fix; the argument \<open>order\<close> of \<open>resolveMethods\<close> permutes the list of entries.
  The field \<open>httpRule\<close> of a method is kept in a map from procedures to targets.
\<close>

section \<open>Rules\<close>

record ruleSpec = httpRule +
  AdditionalBindings :: "httpRule list"

text \<open>
  The value of the extension: an \<open>annotations.HttpRule\<close>, a message of the same descriptor,
  which \<open>proto.Merge\<close> copies, or another message, of which the serialization is used.
\<close>

datatype extValue =
    IsHttpRule ruleSpec
  | SameDescriptor ruleSpec
  | Serialized "goError + string"

definition getHTTPRuleExtension ::
  "('mtd \<Rightarrow> extValue option) \<Rightarrow> (string \<Rightarrow> goError + ruleSpec) \<Rightarrow> 'mtd \<Rightarrow> ruleSpec option"
where
  "getHTTPRuleExtension extension unmarshal desc =
     (case extension desc of
        None \<Rightarrow> None
      | Some (IsHttpRule rule) \<Rightarrow> Some rule
      | Some (SameDescriptor rule) \<Rightarrow> Some rule
      | Some (Serialized (Inl err)) \<Rightarrow> None
      | Some (Serialized (Inr serialized)) \<Rightarrow>
          (case unmarshal serialized of Inl err \<Rightarrow> None | Inr rule \<Rightarrow> Some rule))"

definition procedureFromSelector :: "string \<Rightarrow> string option" where
  "procedureFromSelector selector =
     (case last_index_byte CHR ''.'' selector of
        None \<Rightarrow> None
      | Some lst \<Rightarrow>
          if lst = 0 \<or> lst = length selector - 1 then None
          else Some (''/'' @ take lst selector @ ''/'' @ drop (lst + 1) selector))"

section \<open>Methods\<close>

record ('svc, 'mtd, 'msg, 'fld, 'file, 'typ, 'ext) methodEnv =
  meReflect :: "('mtd, 'msg, 'fld) reflect"
  meFiles :: "'file filelib"
  meRegistries :: "('svc, 'mtd, 'file, 'typ, 'ext) registries"
  meParent :: "'mtd \<Rightarrow> 'svc option"
  meDynamic :: "'msg \<Rightarrow> 'typ"
  meDepth :: nat
  meExtension :: "'mtd \<Rightarrow> extValue option"
  meUnmarshal :: "string \<Rightarrow> goError + ruleSpec"

definition messageType ::
  "('svc, 'mtd, 'msg, 'fld, 'file, 'typ, 'ext) methodEnv \<Rightarrow> ('typ, 'ext) typeResolver \<Rightarrow> 'msg \<Rightarrow> 'typ"
where
  "messageType M resolver desc =
     (case FindMessageByName resolver (FullName (meReflect M) desc) of
        Inr mt \<Rightarrow> mt
      | Inl err \<Rightarrow> meDynamic M desc)"

text \<open>\<open>meDepth\<close> bounds the depth of imports; see \<open>add_file_terminates\<close>.\<close>

definition methodFromSpec ::
  "('svc, 'mtd, 'msg, 'fld, 'file, 'typ, 'ext) methodEnv \<Rightarrow> 'mtd spec \<Rightarrow> ('typ, 'ext) typeResolver option \<Rightarrow>
   ('mtd, 'typ) methodRecord option"
where
  "methodFromSpec M sp resolver =
     (case Schema sp of
        None \<Rightarrow> None
      | Some desc \<Rightarrow>
          (let globalTypes = GlobalTypes (meRegistries M);
               resolver =
                 (case resolver of
                    Some res \<Rightarrow> res
                  | None \<Rightarrow>
                      (case meParent M desc of
                         None \<Rightarrow> globalTypes
                       | Some svc \<Rightarrow>
                           (case resolverForService (meDepth M) (meReflect M) (meFiles M) (meRegistries M) svc of
                              Some res \<Rightarrow> res
                            | None \<Rightarrow> globalTypes))) in
           Some \<lparr>spec = sp, descriptor = desc,
                 requestT = messageType M resolver (Input (meReflect M) desc),
                 responseT = messageType M resolver (Output (meReflect M) desc)\<rparr>))"

section \<open>Resolving the methods of a server\<close>

datatype ('mtd, 'typ, 'fld) methodsError =
    AttachRule string "('mtd, 'typ, 'fld) routeError"
  | AttachUnsupported string streamError
  | NoSelector
  | BadSelector string
  | UnmatchedSelector string

record ('mtd, 'typ, 'fld) methodTable =
  mtMethods :: "(string \<times> ('mtd, 'typ) methodRecord) list"
  mtRules :: "string \<Rightarrow> ('mtd, 'typ, 'fld) routeTarget option"
  mtRoutes :: "('mtd, 'typ, 'fld) routeTarget routeTrie"

text \<open>The map from procedures to methods: a later spec replaces an earlier one.\<close>

fun collectMethods ::
  "('svc, 'mtd, 'msg, 'fld, 'file, 'typ, 'ext) methodEnv \<Rightarrow> ('typ, 'ext) typeResolver option \<Rightarrow>
   'mtd spec list \<Rightarrow> (string \<times> ('mtd, 'typ) methodRecord) list \<Rightarrow> (string \<times> ('mtd, 'typ) methodRecord) list"
where
  "collectMethods M resolver [] ms = ms"
| "collectMethods M resolver (sp # specs) ms =
     (case methodFromSpec M sp resolver of
        None \<Rightarrow> collectMethods M resolver specs ms
      | Some m \<Rightarrow> collectMethods M resolver specs (AList.update (Procedure (spec m)) m ms))"

text \<open>
  The additional bindings of a rule; those given through \<open>WithRules\<close> must be supported.
\<close>

fun addBindings ::
  "('mtd, 'msg, 'fld) reflect \<Rightarrow> bool \<Rightarrow> string \<Rightarrow> ('mtd, 'typ) methodRecord \<Rightarrow> httpRule list \<Rightarrow>
   ('mtd, 'typ, 'fld) routeTarget routeTrie \<Rightarrow>
   ('mtd, 'typ, 'fld) methodsError + ('mtd, 'typ, 'fld) routeTarget routeTrie"
where
  "addBindings R strict name m [] tr = Inr tr"
| "addBindings R strict name m (extra # extras) tr =
     (case addRoute R m extra tr of
        (Inl err, _) \<Rightarrow> Inl (AttachRule name err)
      | (Inr target, tr) \<Rightarrow>
          (case (if strict then unsupported target else None) of
             Some err \<Rightarrow> Inl (AttachUnsupported name err)
           | None \<Rightarrow> addBindings R strict name m extras tr))"

fun embeddedRules ::
  "('svc, 'mtd, 'msg, 'fld, 'file, 'typ, 'ext) methodEnv \<Rightarrow> (string \<times> ('mtd, 'typ) methodRecord) list \<Rightarrow>
   ('mtd, 'typ, 'fld) methodTable \<Rightarrow>
   ('mtd, 'typ, 'fld) methodsError + ('mtd, 'typ, 'fld) methodTable"
where
  "embeddedRules M [] tab = Inr tab"
| "embeddedRules M ((procedure, m) # ms) tab =
     (case getHTTPRuleExtension (meExtension M) (meUnmarshal M) (descriptor m) of
        None \<Rightarrow> embeddedRules M ms tab
      | Some rule \<Rightarrow>
          (case addRoute (meReflect M) m rule (mtRoutes tab) of
             (Inl err, _) \<Rightarrow> Inl (AttachRule (Procedure (spec m)) err)
           | (Inr target, tr) \<Rightarrow>
               (case addBindings (meReflect M) False (Procedure (spec m)) m (AdditionalBindings rule) tr of
                  Inl err \<Rightarrow> Inl err
                | Inr tr \<Rightarrow>
                    embeddedRules M ms
                      (tab\<lparr>mtRules := (mtRules tab)(procedure \<mapsto> target), mtRoutes := tr\<rparr>))))"

fun externalRules ::
  "('mtd, 'msg, 'fld) reflect \<Rightarrow> ruleSpec list \<Rightarrow> ('mtd, 'typ, 'fld) methodTable \<Rightarrow>
   ('mtd, 'typ, 'fld) methodsError + ('mtd, 'typ, 'fld) methodTable"
where
  "externalRules R [] tab = Inr tab"
| "externalRules R (rule # rules) tab =
     (let selector = Selector rule in
      if selector = [] then Inl NoSelector
      else
        (case procedureFromSelector selector of
           None \<Rightarrow> Inl (BadSelector selector)
         | Some procedure \<Rightarrow>
             (case map_of (mtMethods tab) procedure of
                None \<Rightarrow> Inl (UnmatchedSelector selector)
              | Some m \<Rightarrow>
                  (case addRoute R m rule (mtRoutes tab) of
                     (Inl err, _) \<Rightarrow> Inl (AttachRule selector err)
                   | (Inr target, tr) \<Rightarrow>
                       (case unsupported target of
                          Some err \<Rightarrow> Inl (AttachUnsupported selector err)
                        | None \<Rightarrow>
                            (let rs = (if mtRules tab procedure = None
                                       then (mtRules tab)(procedure \<mapsto> target) else mtRules tab) in
                             case addBindings R True selector m (AdditionalBindings rule) tr of
                               Inl err \<Rightarrow> Inl err
                             | Inr tr \<Rightarrow>
                                 externalRules R rules (tab\<lparr>mtRules := rs, mtRoutes := tr\<rparr>)))))))"

definition resolveMethods ::
  "('svc, 'mtd, 'msg, 'fld, 'file, 'typ, 'ext) methodEnv \<Rightarrow>
   ((string \<times> ('mtd, 'typ) methodRecord) list \<Rightarrow> (string \<times> ('mtd, 'typ) methodRecord) list) \<Rightarrow>
   ('typ, 'ext) typeResolver option \<Rightarrow> ruleSpec list \<Rightarrow> 'mtd spec list \<Rightarrow>
   ('mtd, 'typ, 'fld) methodsError + ('mtd, 'typ, 'fld) methodTable"
where
  "resolveMethods M order resolver rules specs =
     (let methodsByProcedure = collectMethods M resolver specs [];
          tab = \<lparr>mtMethods = methodsByProcedure, mtRules = (\<lambda>p. None), mtRoutes = emptyTrie\<rparr> in
      case embeddedRules M (order methodsByProcedure) tab of
        Inl err \<Rightarrow> Inl err
      | Inr tab \<Rightarrow> externalRules (meReflect M) rules tab)"

section \<open>Resolving a method of a transport\<close>

type_synonym ('mtd, 'typ, 'fld) methodCache =
  "string \<Rightarrow> (('mtd, 'typ) methodRecord \<times> ('mtd, 'typ, 'fld) routeTarget) option"

datatype ('mtd, 'typ, 'fld) resolveError =
    SchemaNotDescriptor string
  | NoRule string
  | AttachFailed string "('mtd, 'typ, 'fld) routeError"
  | NotSupported string streamError

fun findExternal :: "string \<Rightarrow> ruleSpec list \<Rightarrow> ruleSpec option" where
  "findExternal procedure [] = None"
| "findExternal procedure (rule # rules) =
     (if procedureFromSelector (Selector rule) = Some procedure then Some rule
      else findExternal procedure rules)"

definition resolveMethod ::
  "('svc, 'mtd, 'msg, 'fld, 'file, 'typ, 'ext) methodEnv \<Rightarrow> ('typ, 'ext) typeResolver option \<Rightarrow>
   ruleSpec list \<Rightarrow> ('mtd, 'typ, 'fld) methodCache \<Rightarrow> 'mtd spec \<Rightarrow>
   (('mtd, 'typ, 'fld) resolveError + ('mtd, 'typ) methodRecord \<times> ('mtd, 'typ, 'fld) routeTarget) \<times>
   ('mtd, 'typ, 'fld) methodCache"
where
  "resolveMethod M resolver rules cache sp =
     (case cache (Procedure sp) of
        Some cached \<Rightarrow> (Inr cached, cache)
      | None \<Rightarrow>
          (case methodFromSpec M sp resolver of
             None \<Rightarrow> (Inl (SchemaNotDescriptor (Procedure sp)), cache)
           | Some m \<Rightarrow>
               (case (case getHTTPRuleExtension (meExtension M) (meUnmarshal M) (descriptor m) of
                        Some rule \<Rightarrow> Some rule
                      | None \<Rightarrow> findExternal (Procedure sp) rules) of
                  None \<Rightarrow> (Inl (NoRule (Procedure sp)), cache)
                | Some rule \<Rightarrow>
                    (case fst (addRoute (meReflect M) m rule emptyTrie) of
                       Inl err \<Rightarrow> (Inl (AttachFailed (Procedure sp) err), cache)
                     | Inr target \<Rightarrow>
                         (case unsupported target of
                            Some err \<Rightarrow> (Inl (NotSupported (Procedure sp) err), cache)
                          | None \<Rightarrow> (Inr (m, target), cache(Procedure sp \<mapsto> (m, target))))))))"


section \<open>The target of a rule does not depend on the table\<close>

definition rule_target ::
  "('mtd, 'msg, 'fld) reflect \<Rightarrow> ('mtd, 'typ) methodRecord \<Rightarrow> 'z httpRule_scheme \<Rightarrow>
   ('mtd, 'typ, 'fld) routeError + ('mtd, 'typ, 'fld) routeTarget"
where
  "rule_target R m rule = fst (addRoute R m rule emptyTrie)"

definition target_key :: "('mtd, 'typ, 'fld) routeTarget \<Rightarrow> string list \<times> string \<times> string" where
  "target_key target = key_of (httpMethod target) (template target)"

lemma insert_emptyTrie:
  fixes target :: "('mtd, 'typ, 'fld) routeTarget"
  shows "fst (insert hm target emptyTrie) = None"
proof -
  have "route (emptyTrie :: ('mtd, 'typ, 'fld) routeTarget routeTrie) (key_of hm (template target)) = None"
    by (rule trie.look_empty)
  from trie.ins_free [OF this, of target] show ?thesis
    by (simp add: insert_trie case_prod_unfold)
qed

lemma makeTarget_method: "makeTarget R m hm rb rsb tmpl vs = Inr target \<Longrightarrow> httpMethod target = hm"
  by (auto elim: makeTarget_cases)

lemma addRoute_target:
  "addRoute R m rule t =
     (case rule_target R m rule of
        Inl e \<Rightarrow> (Inl e, t)
      | Inr target \<Rightarrow>
          (case insert (httpMethod target) target t of
             (Some e, t') \<Rightarrow> (Inl (AlreadyExists e), t')
           | (None, t') \<Rightarrow> (Inr target, t')))"
proof (cases "patternOf (Pattern rule)")
  case None
  then show ?thesis by (simp add: rule_target_def addRoute_def)
next
  case (Some hmt)
  obtain hm tmpl where pat: "patternOf (Pattern rule) = Some (hm, tmpl)"
    using Some by (cases hmt) simp
  show ?thesis
  proof (cases "hm = [] \<or> tmpl = []")
    case True
    then show ?thesis using pat by (auto simp: rule_target_def addRoute_def)
  next
    case nonempty: False
    show ?thesis
    proof (cases "parsePathTemplate tmpl")
      case (Inl e)
      then show ?thesis using pat nonempty by (auto simp: rule_target_def addRoute_def)
    next
      case (Inr ov)
      obtain out vs where parse: "parsePathTemplate tmpl = Inr (out, vs)"
        using Inr by (cases ov) simp
      show ?thesis
      proof (cases "makeTarget R m hm (Body rule) (ResponseBody rule) out vs")
        case (Inl e)
        then show ?thesis using pat nonempty parse by (auto simp: rule_target_def addRoute_def)
      next
        case (Inr target)
        let ?target = "target\<lparr>pattern := hm @ CHR '' '' # tmpl\<rparr>"
        have red: "addRoute R m rule u =
            (case insert hm ?target u of
               (Some e, t') \<Rightarrow> (Inl (AlreadyExists e), t') | (None, t') \<Rightarrow> (Inr ?target, t'))" for u
          using pat nonempty parse Inr by (simp add: addRoute_def Let_def)
        have "rule_target R m rule = Inr ?target"
          using insert_emptyTrie [of hm ?target] by (auto simp: rule_target_def red split: prod.splits option.splits)
        then show ?thesis
          using red [of t] makeTarget_method [OF Inr] by simp
      qed
    qed
  qed
qed

lemma addRoute_key:
  "addRoute R m rule t =
     (case rule_target R m rule of
        Inl e \<Rightarrow> (Inl e, t)
      | Inr target \<Rightarrow>
          (case trie_insert (target_key target) target t of
             (Some e, t') \<Rightarrow>
               (Inl (AlreadyExists \<lparr>existing = e, pathPattern = template target, err_method = httpMethod target\<rparr>), t')
           | (None, t') \<Rightarrow> (Inr target, t')))"
  unfolding addRoute_target
  by (auto simp: insert_trie target_key_def split: sum.splits prod.splits option.splits)

lemma addRoute_truncate: "addRoute R m (httpRule.truncate rule) t = addRoute R m rule t"
proof -
  have eq: "Pattern (httpRule.truncate rule) = Pattern rule" "Body (httpRule.truncate rule) = Body rule"
    "ResponseBody (httpRule.truncate rule) = ResponseBody rule"
    by (simp_all add: httpRule.truncate_def)
  show ?thesis
    unfolding addRoute_def eq by (rule refl)
qed

lemma addRoute_Inr:
  assumes "addRoute R m rule t = (Inr target, t')"
  shows "rule_target R m rule = Inr target" and "route t (target_key target) = None"
    and "route t' = (route t)(target_key target \<mapsto> target)"
    and "reachable_table R t \<Longrightarrow> reachable_table R t'"
proof -
  obtain x where x: "rule_target R m rule = Inr x"
    using assms by (auto simp: addRoute_key split: sum.splits)
  then have ins: "trie_insert (target_key x) x t = (None, t')" and "x = target"
    using assms by (auto simp: addRoute_key split: prod.splits option.splits)
  then show "rule_target R m rule = Inr target" "route t (target_key target) = None"
    "route t' = (route t)(target_key target \<mapsto> target)"
    using x trie.ins_result [of "target_key x" x t] trie.ins_free [of t "target_key x" x] by simp_all
  show "reachable_table R t'" if "reachable_table R t"
    using reachable_table.add [OF that, of m "httpRule.truncate rule"] assms by (simp add: addRoute_truncate)
qed

lemma addRoute_ok_iff:
  "(\<exists>target t'. addRoute R m rule t = (Inr target, t')) \<longleftrightarrow>
     (\<exists>target. rule_target R m rule = Inr target \<and> route t (target_key target) = None)"
proof
  assume "\<exists>target t'. addRoute R m rule t = (Inr target, t')"
  then show "\<exists>target. rule_target R m rule = Inr target \<and> route t (target_key target) = None"
    using addRoute_Inr by blast
next
  assume "\<exists>target. rule_target R m rule = Inr target \<and> route t (target_key target) = None"
  then obtain target where "rule_target R m rule = Inr target" "route t (target_key target) = None"
    by blast
  then show "\<exists>target t'. addRoute R m rule t = (Inr target, t')"
    using trie.ins_free [of t "target_key target" target]
    by (cases "trie_insert (target_key target) target t") (simp add: addRoute_key)
qed

section \<open>What resolving a server's methods gives\<close>

text \<open>The table grows: it stays reachable and keeps its routes.\<close>

definition grows ::
  "('mtd, 'msg, 'fld) reflect \<Rightarrow> ('mtd, 'typ, 'fld) routeTarget routeTrie \<Rightarrow>
   ('mtd, 'typ, 'fld) routeTarget routeTrie \<Rightarrow> bool"
where
  "grows R t t' \<longleftrightarrow>
     (reachable_table R t \<longrightarrow> reachable_table R t') \<and>
     (\<forall>k x. route t k = Some x \<longrightarrow> route t' k = Some x)"

lemma grows_refl: "grows R t t"
  and grows_trans: "grows R t1 t2 \<Longrightarrow> grows R t2 t3 \<Longrightarrow> grows R t1 t3"
  by (auto simp: grows_def)

lemma grows_route: "grows R t t' \<Longrightarrow> route t k = Some x \<Longrightarrow> route t' k = Some x"
  unfolding grows_def by blast

lemma addRoute_grows:
  assumes "addRoute R m rule t = (Inr target, t')"
  shows "grows R t t' \<and> route t' (target_key target) = Some target"
  using addRoute_Inr [OF assms] by (auto simp: grows_def)

lemma addBindings_grows: "addBindings R strict name m extras t = Inr t' \<Longrightarrow> grows R t t'"
proof (induction extras arbitrary: t)
  case (Cons extra extras)
  from Cons.prems obtain target t1 where "addRoute R m extra t = (Inr target, t1)"
    "addBindings R strict name m extras t1 = Inr t'"
    by (auto split: prod.splits sum.splits option.splits)
  then show ?case
    using Cons.IH addRoute_grows grows_trans by blast
qed (simp add: grows_refl)

text \<open>Every primary target is stored, and the listed methods are those of the table.\<close>

definition good_rules :: "('mtd, 'msg, 'fld) reflect \<Rightarrow> ('mtd, 'typ, 'fld) methodTable \<Rightarrow> bool" where
  "good_rules R tab \<longleftrightarrow>
     reachable_table R (mtRoutes tab) \<and>
     (\<forall>p target. mtRules tab p = Some target \<longrightarrow> route (mtRoutes tab) (target_key target) = Some target)"

lemma good_rules_upd:
  assumes "good_rules R tab" and "grows R (mtRoutes tab) t"
    and "\<forall>q x. rs q = Some x \<longrightarrow> mtRules tab q = Some x \<or> route t (target_key x) = Some x"
  shows "good_rules R (tab\<lparr>mtRules := rs, mtRoutes := t\<rparr>)"
proof -
  have "route t (target_key x) = Some x" if "rs q = Some x" for q x
    using assms that unfolding good_rules_def grows_def by blast
  moreover have "reachable_table R t"
    using assms unfolding good_rules_def grows_def by blast
  ultimately show ?thesis
    by (simp add: good_rules_def)
qed

lemma embeddedRules_good:
  "embeddedRules M ms tab = Inr tab' \<Longrightarrow> good_rules (meReflect M) tab \<Longrightarrow>
   good_rules (meReflect M) tab' \<and> mtMethods tab' = mtMethods tab \<and>
   grows (meReflect M) (mtRoutes tab) (mtRoutes tab')"
proof (induction ms arbitrary: tab)
  case (Cons pm ms)
  obtain p m where pm: "pm = (p, m)" by fastforce
  show ?case
  proof (cases "getHTTPRuleExtension (meExtension M) (meUnmarshal M) (descriptor m)")
    case None
    then show ?thesis using Cons pm by simp
  next
    case (Some rule)
    with Cons.prems(1) pm obtain target t1 t2 where
      a: "addRoute (meReflect M) m rule (mtRoutes tab) = (Inr target, t1)"
      and b: "addBindings (meReflect M) False (Procedure (spec m)) m (AdditionalBindings rule) t1 = Inr t2"
      and e: "embeddedRules M ms (tab\<lparr>mtRules := (mtRules tab)(p \<mapsto> target), mtRoutes := t2\<rparr>) = Inr tab'"
      by (auto split: prod.splits sum.splits)
    have g: "grows (meReflect M) (mtRoutes tab) t2" "route t2 (target_key target) = Some target"
      using addRoute_grows [OF a] addBindings_grows [OF b] grows_trans grows_route by blast+
    then have "good_rules (meReflect M) (tab\<lparr>mtRules := (mtRules tab)(p \<mapsto> target), mtRoutes := t2\<rparr>)"
      using Cons.prems(2) by (intro good_rules_upd) auto
    then show ?thesis
      using Cons.IH [OF e] g(1) grows_trans by auto
  qed
qed (simp add: grows_refl)

lemma externalRules_good:
  "externalRules R rules tab = Inr tab' \<Longrightarrow> good_rules R tab \<Longrightarrow>
   good_rules R tab' \<and> grows R (mtRoutes tab) (mtRoutes tab')"
proof (induction rules arbitrary: tab)
  case (Cons rule rules)
  obtain procedure m where sel: "Selector rule \<noteq> []" "procedureFromSelector (Selector rule) = Some procedure"
      "map_of (mtMethods tab) procedure = Some m"
    using Cons.prems(1) by (auto simp: Let_def split: if_split_asm option.split_asm)
  obtain target t1 where a: "addRoute R m rule (mtRoutes tab) = (Inr target, t1)" and "unsupported target = None"
    using Cons.prems(1) sel by (auto simp: Let_def split: prod.split_asm sum.split_asm option.split_asm)
  define rs where rs: "rs = (if mtRules tab procedure = None then (mtRules tab)(procedure \<mapsto> target) else mtRules tab)"
  obtain t2 where b: "addBindings R True (Selector rule) m (AdditionalBindings rule) t1 = Inr t2"
    and e: "externalRules R rules (tab\<lparr>mtRules := rs, mtRoutes := t2\<rparr>) = Inr tab'"
    using Cons.prems(1) sel a \<open>unsupported target = None\<close>
    by (cases "addBindings R True (Selector rule) m (AdditionalBindings rule) t1") (simp_all add: rs Let_def)
  have g: "grows R (mtRoutes tab) t2" "route t2 (target_key target) = Some target"
    using addRoute_grows [OF a] addBindings_grows [OF b] grows_trans grows_route by blast+
  have "good_rules R (tab\<lparr>mtRules := rs, mtRoutes := t2\<rparr>)"
    using Cons.prems(2) g rs by (intro good_rules_upd) (auto split: if_splits)
  then show ?case
    using Cons.IH [OF e] g(1) grows_trans by auto
qed (simp add: grows_refl)

lemma resolveMethods_good:
  assumes "resolveMethods M order resolver rules specs = Inr tab"
  shows "good_rules (meReflect M) tab"
proof -
  let ?tab = "\<lparr>mtMethods = collectMethods M resolver specs [], mtRules = (\<lambda>p. None), mtRoutes = emptyTrie\<rparr>"
  obtain tab1 where e: "embeddedRules M (order (collectMethods M resolver specs [])) ?tab = Inr tab1"
    and x: "externalRules (meReflect M) rules tab1 = Inr tab"
    using assms by (auto simp: resolveMethods_def Let_def split: sum.splits)
  have "good_rules (meReflect M) ?tab"
    by (simp add: good_rules_def reachable_table.start)
  then show ?thesis
    using embeddedRules_good [OF e] externalRules_good [OF x] by blast
qed


section \<open>The order of the methods does not matter\<close>

text \<open>Adding rules one after another, up to the first error.\<close>

fun addAll ::
  "('mtd, 'msg, 'fld) reflect \<Rightarrow> (('mtd, 'typ) methodRecord \<times> httpRule) list \<Rightarrow>
   ('mtd, 'typ, 'fld) routeTarget routeTrie \<Rightarrow> ('mtd, 'typ, 'fld) routeTarget routeTrie option"
where
  "addAll R [] t = Some t"
| "addAll R ((m, rule) # mrs) t =
     (case addRoute R m rule t of
        (Inl e, _) \<Rightarrow> None
      | (Inr target, t) \<Rightarrow> addAll R mrs t)"

definition rule_of :: "('mtd, 'msg, 'fld) reflect \<Rightarrow> ('mtd, 'typ) methodRecord \<times> httpRule \<Rightarrow>
    ('mtd, 'typ, 'fld) routeTarget option" where
  "rule_of R mr = (case rule_target R (fst mr) (snd mr) of Inl e \<Rightarrow> None | Inr target \<Rightarrow> Some target)"

text \<open>All rules can be added exactly when each has a target, and the keys are new and distinct.\<close>

definition addable ::
  "('mtd, 'msg, 'fld) reflect \<Rightarrow> (('mtd, 'typ) methodRecord \<times> httpRule) list \<Rightarrow>
   ('mtd, 'typ, 'fld) routeTarget routeTrie \<Rightarrow> bool"
where
  "addable R mrs t \<longleftrightarrow>
     (\<forall>mr \<in> set mrs. rule_of R mr \<noteq> None \<and> route t (target_key (the (rule_of R mr))) = None) \<and>
     distinct (map (\<lambda>mr. target_key (the (rule_of R mr))) mrs)"

lemma addRoute_rule_of:
  "addRoute R m rule t = (Inr target, t') \<Longrightarrow> rule_of R (m, rule) = Some target"
  using addRoute_Inr(1) [of R m rule t target t'] by (simp add: rule_of_def)

lemma fresh_upd:
  "(\<forall>x \<in> A. P x \<and> (f(k \<mapsto> v)) (g x) = None) \<longleftrightarrow> (\<forall>x \<in> A. P x \<and> f (g x) = None) \<and> k \<notin> g ` A"
  by (auto split: if_splits)

lemma addAll_iff: "addAll R mrs t \<noteq> None \<longleftrightarrow> addable R mrs t"
proof (induction mrs arbitrary: t)
  case (Cons mr mrs)
  obtain m rule where mr: "mr = (m, rule)" by fastforce
  show ?case
  proof (cases "\<exists>target t'. addRoute R m rule t = (Inr target, t')")
    case True
    then obtain target t' where a: "addRoute R m rule t = (Inr target, t')" by blast
    note r = addRoute_rule_of [OF a] addRoute_Inr(2,3) [OF a]
    have "(\<forall>x \<in> set mrs. rule_of R x \<noteq> None \<and> route t' (target_key (the (rule_of R x))) = None) \<longleftrightarrow>
        (\<forall>x \<in> set mrs. rule_of R x \<noteq> None \<and> route t (target_key (the (rule_of R x))) = None) \<and>
        target_key target \<notin> (\<lambda>x. target_key (the (rule_of R x))) ` set mrs"
      unfolding r(3) by (rule fresh_upd)
    then have "addable R (mr # mrs) t \<longleftrightarrow> addable R mrs t'"
      unfolding addable_def list.set list.map distinct.simps using r(1,2) by (auto simp: mr)
    then show ?thesis
      using Cons.IH [of t'] a mr by simp
  next
    case False
    then have "rule_of R mr = None \<or> route t (target_key (the (rule_of R mr))) \<noteq> None"
      using addRoute_ok_iff [of R m rule t] by (auto simp: rule_of_def mr split: sum.splits)
    then have "\<not> addable R (mr # mrs) t"
      by (auto simp: addable_def)
    moreover have "addAll R (mr # mrs) t = None"
      using False mr by (cases "addRoute R m rule t"; cases "fst (addRoute R m rule t)") auto
    ultimately show ?thesis by simp
  qed
qed (simp add: addable_def)

lemma addAll_route:
  "addAll R mrs t = Some t' \<Longrightarrow>
   route t' k =
     (case find (\<lambda>mr. target_key (the (rule_of R mr)) = k) mrs of
        Some mr \<Rightarrow> rule_of R mr
      | None \<Rightarrow> route t k)"
proof (induction mrs arbitrary: t)
  case (Cons mr mrs)
  obtain m rule where mr: "mr = (m, rule)" by fastforce
  have ok: "addable R (mr # mrs) t"
    using Cons.prems addAll_iff by (metis option.distinct(1))
  from Cons.prems mr obtain target t1 where a: "addRoute R m rule t = (Inr target, t1)"
    and rest: "addAll R mrs t1 = Some t'"
    by (auto split: prod.splits sum.splits)
  note r = addRoute_rule_of [OF a] addRoute_Inr(2,3) [OF a]
  show ?case
  proof (cases "target_key target = k")
    case True
    have "find (\<lambda>mr. target_key (the (rule_of R mr)) = k) mrs = None"
      using ok r(1) True unfolding addable_def find_None_iff mr by (simp add: image_iff) metis
    then show ?thesis
      using Cons.IH [OF rest] r True by (simp add: mr)
  next
    case False
    then show ?thesis
      using Cons.IH [OF rest] r by (simp add: mr split: option.split)
  qed
qed simp

lemma find_SomeD: "find P xs = Some x \<Longrightarrow> x \<in> set xs \<and> P x"
  by (induction xs) (auto split: if_splits)

lemma find_unique:
  assumes "mset xs = mset ys" and "distinct (map f xs)"
  shows "find (\<lambda>x. f x = k) xs = find (\<lambda>x. f x = k) ys"
proof -
  have "x = y" if "x \<in> set xs" "y \<in> set ys" "f x = k" "f y = k" for x y
    using that assms mset_eq_setD [OF assms(1)] by (auto simp: distinct_map inj_on_def)
  moreover have "find (\<lambda>x. f x = k) xs = None \<longleftrightarrow> find (\<lambda>x. f x = k) ys = None"
    using mset_eq_setD [OF assms(1)] by (simp add: find_None_iff)
  ultimately show ?thesis
    by (cases "find (\<lambda>x. f x = k) xs"; cases "find (\<lambda>x. f x = k) ys") (auto dest!: find_SomeD)
qed

lemma addAll_perm:
  assumes "mset mrs = mset mrs'"
  shows "(addAll R mrs t = None) = (addAll R mrs' t = None) \<and>
    (\<forall>t1 t2. addAll R mrs t = Some t1 \<longrightarrow> addAll R mrs' t = Some t2 \<longrightarrow> route t1 = route t2)"
proof -
  let ?f = "\<lambda>mr. target_key (the (rule_of R mr))"
  have "mset (map ?f mrs) = mset (map ?f mrs')"
    using assms by simp
  then have "distinct (map ?f mrs) = distinct (map ?f mrs')"
    by (rule mset_eq_imp_distinct_iff)
  then have "addable R mrs t = addable R mrs' t"
    using mset_eq_setD [OF assms] by (simp add: addable_def)
  moreover have "route t1 = route t2" if "addAll R mrs t = Some t1" "addAll R mrs' t = Some t2" for t1 t2
  proof
    fix k
    have "distinct (map ?f mrs)"
      using that(1) addAll_iff [of R mrs t] by (simp add: addable_def)
    then show "route t1 k = route t2 k"
      using addAll_route [OF that(1), of k] addAll_route [OF that(2), of k] find_unique [OF assms, of ?f k] by simp
  qed
  ultimately show ?thesis
    using addAll_iff [of R mrs t] addAll_iff [of R mrs' t] by auto
qed

text \<open>The rules that the first loop of \<open>resolveMethods\<close> adds, in its order.\<close>

definition embedded_list ::
  "('svc, 'mtd, 'msg, 'fld, 'file, 'typ, 'ext) methodEnv \<Rightarrow> (string \<times> ('mtd, 'typ) methodRecord) list \<Rightarrow>
   (('mtd, 'typ) methodRecord \<times> httpRule) list"
where
  "embedded_list M ms =
     concat (map (\<lambda>(p, m).
       case getHTTPRuleExtension (meExtension M) (meUnmarshal M) (descriptor m) of
         None \<Rightarrow> []
       | Some rule \<Rightarrow> map (Pair m) (httpRule.truncate rule # AdditionalBindings rule)) ms)"

lemma addAll_append:
  "addAll R (xs @ ys) t = (case addAll R xs t of None \<Rightarrow> None | Some t \<Rightarrow> addAll R ys t)"
proof (induction xs arbitrary: t)
  case (Cons x xs)
  then show ?case
    by (cases x) (simp split: prod.split sum.split)
qed simp

lemma addBindings_addAll:
  "(case addBindings R False name m extras t of Inl e \<Rightarrow> None | Inr t \<Rightarrow> Some t) = addAll R (map (Pair m) extras) t"
  by (induction extras arbitrary: t) (auto split: prod.split sum.split)

lemma embeddedRules_addAll:
  "map_option mtRoutes (case embeddedRules M ms tab of Inl e \<Rightarrow> None | Inr tab \<Rightarrow> Some tab) =
   addAll (meReflect M) (embedded_list M ms) (mtRoutes tab)"
proof (induction ms arbitrary: tab)
  case (Cons pm ms)
  obtain p m where pm: "pm = (p, m)" by fastforce
  let ?R = "meReflect M"
  show ?case
  proof (cases "getHTTPRuleExtension (meExtension M) (meUnmarshal M) (descriptor m)")
    case None
    then show ?thesis using Cons pm by (simp add: embedded_list_def)
  next
    case (Some rule)
    have l: "embedded_list M (pm # ms) =
        (m, httpRule.truncate rule) # map (Pair m) (AdditionalBindings rule) @ embedded_list M ms"
      using Some pm by (simp add: embedded_list_def)
    obtain r t1 where a: "addRoute ?R m rule (mtRoutes tab) = (r, t1)" by fastforce
    show ?thesis
    proof (cases r)
      case (Inl e)
      then show ?thesis using Some pm a l by (simp add: addRoute_truncate)
    next
      case (Inr target)
      note b = addBindings_addAll [of ?R "Procedure (spec m)" m "AdditionalBindings rule" t1]
      show ?thesis
      proof (cases "addBindings ?R False (Procedure (spec m)) m (AdditionalBindings rule) t1")
        case (Inl e)
        then show ?thesis using Some pm a l Inr b by (simp add: addRoute_truncate addAll_append split: option.split)
      next
        case ok: (Inr t2)
        then have "addAll ?R (map (Pair m) (AdditionalBindings rule)) t1 = Some t2"
          using b by simp
        then show ?thesis
          using Some pm a l Inr ok Cons.IH [of "tab\<lparr>mtRules := (mtRules tab)(p \<mapsto> target), mtRoutes := t2\<rparr>"]
          by (simp add: addRoute_truncate addAll_append)
      qed
    qed
  qed
qed (simp add: embedded_list_def)

text \<open>Tables with the same routes accept the same rules.\<close>

lemma addRoute_cong:
  assumes "route t = route u"
  shows "(\<exists>e e' t' u'. addRoute R m rule t = (Inl e, t') \<and> addRoute R m rule u = (Inl e', u')) \<or>
    (\<exists>target t' u'. addRoute R m rule t = (Inr target, t') \<and> addRoute R m rule u = (Inr target, u') \<and>
       route t' = route u')"
proof (cases "\<exists>target t'. addRoute R m rule t = (Inr target, t')")
  case True
  then obtain target t' where a: "addRoute R m rule t = (Inr target, t')" by blast
  then have "\<exists>target u'. addRoute R m rule u = (Inr target, u')"
    using addRoute_ok_iff [of R m rule t] addRoute_ok_iff [of R m rule u] assms by metis
  then obtain target' u' where b: "addRoute R m rule u = (Inr target', u')" by blast
  have "target' = target"
    using addRoute_Inr(1) [OF a] addRoute_Inr(1) [OF b] by simp
  then show ?thesis
    using a b addRoute_Inr(3) [OF a] addRoute_Inr(3) [OF b] assms by simp
next
  case False
  then have "\<not> (\<exists>target u'. addRoute R m rule u = (Inr target, u'))"
    using addRoute_ok_iff [of R m rule t] addRoute_ok_iff [of R m rule u] assms by metis
  then show ?thesis
    using False by (metis sum.exhaust surj_pair)
qed

definition same_routes ::
  "'e + ('mtd, 'typ, 'fld) routeTarget routeTrie \<Rightarrow> 'e + ('mtd, 'typ, 'fld) routeTarget routeTrie \<Rightarrow> bool"
where
  "same_routes a b \<longleftrightarrow>
     (case (a, b) of
        (Inl e, Inl e') \<Rightarrow> True
      | (Inr t, Inr u) \<Rightarrow> route t = route u
      | _ \<Rightarrow> False)"

lemma addBindings_cong:
  "route t = route u \<Longrightarrow>
   same_routes (addBindings R strict name m extras t) (addBindings R strict name m extras u)"
proof (induction extras arbitrary: t u)
  case (Cons extra extras)
  from addRoute_cong [OF Cons.prems, of R m extra] show ?case
    using Cons.IH by (elim disjE exE conjE) (auto simp: same_routes_def split: option.splits)
qed (simp add: same_routes_def)

lemma externalRules_cong:
  "route (mtRoutes a) = route (mtRoutes b) \<Longrightarrow> mtMethods a = mtMethods b \<Longrightarrow>
   same_routes (map_sum id mtRoutes (externalRules R rules a)) (map_sum id mtRoutes (externalRules R rules b))"
proof (induction rules arbitrary: a b)
  case (Cons rule rules)
  show ?case
  proof (cases "Selector rule = [] \<or> procedureFromSelector (Selector rule) = None \<or>
      map_of (mtMethods b) (the (procedureFromSelector (Selector rule))) = None")
    case True
    then show ?thesis
      using Cons.prems(2) by (auto simp: same_routes_def Let_def split: option.split)
  next
    case False
    then obtain p m where sel: "Selector rule \<noteq> []" "procedureFromSelector (Selector rule) = Some p"
        "map_of (mtMethods b) p = Some m"
      by auto
    from addRoute_cong [OF Cons.prems(1), of R m rule] show ?thesis
    proof (elim disjE exE conjE)
      fix target t u
      assume add: "addRoute R m rule (mtRoutes a) = (Inr target, t)"
        "addRoute R m rule (mtRoutes b) = (Inr target, u)" and "route t = route u"
      then have same: "same_routes (addBindings R True (Selector rule) m (AdditionalBindings rule) t)
          (addBindings R True (Selector rule) m (AdditionalBindings rule) u)"
        by (intro addBindings_cong)
      then show ?thesis
        using sel add Cons.prems(2) Cons.IH
        by (cases "unsupported target"; cases "addBindings R True (Selector rule) m (AdditionalBindings rule) t";
            cases "addBindings R True (Selector rule) m (AdditionalBindings rule) u")
          (simp_all add: same_routes_def Let_def)
    qed (use sel Cons.prems(2) in \<open>simp add: same_routes_def Let_def\<close>)
  qed
qed (simp add: same_routes_def)

lemma mset_concat_map: "mset (concat (map f xs)) = sum_mset (image_mset (\<lambda>x. mset (f x)) (mset xs))"
  by (induction xs) simp_all

lemma embedded_list_perm: "mset ms = mset ms' \<Longrightarrow> mset (embedded_list M ms) = mset (embedded_list M ms')"
  unfolding embedded_list_def mset_concat_map by simp

lemma embeddedRules_methods: "embeddedRules M ms tab = Inr tab' \<Longrightarrow> mtMethods tab' = mtMethods tab"
proof (induction ms arbitrary: tab)
  case (Cons pm ms)
  then show ?case
    by (cases pm) (fastforce split: option.splits prod.splits sum.splits)
qed simp

lemma resolveMethods_order:
  assumes "mset (order1 (collectMethods M resolver specs [])) = mset (order2 (collectMethods M resolver specs []))"
  shows "same_routes (map_sum id mtRoutes (resolveMethods M order1 resolver rules specs))
    (map_sum id mtRoutes (resolveMethods M order2 resolver rules specs))"
proof -
  let ?ms = "collectMethods M resolver specs []"
  let ?tab = "\<lparr>mtMethods = ?ms, mtRules = (\<lambda>p. None), mtRoutes = emptyTrie\<rparr>"
  note p = addAll_perm [OF embedded_list_perm [OF assms, of M], of "meReflect M" emptyTrie]
  note e1 = embeddedRules_addAll [of M "order1 ?ms" ?tab]
  note e2 = embeddedRules_addAll [of M "order2 ?ms" ?tab]
  show ?thesis
  proof (cases "embeddedRules M (order1 ?ms) ?tab")
    case (Inl e)
    then have "addAll (meReflect M) (embedded_list M (order2 ?ms)) emptyTrie = None"
      using e1 p by simp
    then obtain e' where "embeddedRules M (order2 ?ms) ?tab = Inl e'"
      using e2 by (cases "embeddedRules M (order2 ?ms) ?tab") simp_all
    then show ?thesis
      using Inl by (simp add: resolveMethods_def Let_def same_routes_def)
  next
    case (Inr tab1)
    then have one: "addAll (meReflect M) (embedded_list M (order1 ?ms)) emptyTrie = Some (mtRoutes tab1)"
      using e1 by simp
    then obtain tab2 where tab2: "embeddedRules M (order2 ?ms) ?tab = Inr tab2"
      using e2 p by (cases "embeddedRules M (order2 ?ms) ?tab") simp_all
    then have "route (mtRoutes tab1) = route (mtRoutes tab2)"
      using p one e2 by simp
    moreover have "mtMethods tab1 = mtMethods tab2"
      using embeddedRules_methods [OF Inr] embeddedRules_methods [OF tab2] by simp
    ultimately show ?thesis
      using externalRules_cong [of tab1 tab2] Inr tab2 by (simp add: resolveMethods_def Let_def)
  qed
qed

section \<open>A client finds the server's route\<close>

definition stores ::
  "('mtd, 'msg, 'fld) reflect \<Rightarrow> ('mtd, 'typ, 'fld) routeTarget routeTrie \<Rightarrow> ('mtd, 'typ) methodRecord \<Rightarrow>
   'z httpRule_scheme \<Rightarrow> bool"
where
  "stores R t m rule \<longleftrightarrow>
     (\<exists>target. rule_target R m rule = Inr target \<and> route t (target_key target) = Some target)"

lemma addRoute_stores: "addRoute R m rule t = (Inr target, t') \<Longrightarrow> stores R t' m rule"
  using addRoute_Inr [of R m rule t target t'] by (simp add: stores_def)

lemma stores_grows: "stores R t m rule \<Longrightarrow> grows R t t' \<Longrightarrow> stores R t' m rule"
  unfolding stores_def grows_def by blast

lemma embeddedRules_grows: "embeddedRules M ms tab = Inr tab' \<Longrightarrow> grows (meReflect M) (mtRoutes tab) (mtRoutes tab')"
proof (induction ms arbitrary: tab)
  case (Cons pm ms)
  obtain p m where pm: "pm = (p, m)" by fastforce
  show ?case
  proof (cases "getHTTPRuleExtension (meExtension M) (meUnmarshal M) (descriptor m)")
    case (Some rule)
    obtain target t1 t2 where a: "addRoute (meReflect M) m rule (mtRoutes tab) = (Inr target, t1)"
      and b: "addBindings (meReflect M) False (Procedure (spec m)) m (AdditionalBindings rule) t1 = Inr t2"
      and e: "embeddedRules M ms (tab\<lparr>mtRules := (mtRules tab)(p \<mapsto> target), mtRoutes := t2\<rparr>) = Inr tab'"
      using Cons.prems pm Some by (auto split: prod.split_asm sum.split_asm)
    show ?thesis
      using Cons.IH [OF e] addRoute_grows [OF a] addBindings_grows [OF b] by simp (metis grows_trans)
  qed (use Cons pm in simp)
qed (simp add: grows_refl)

lemma embeddedRules_stores:
  "embeddedRules M ms tab = Inr tab' \<Longrightarrow> (p, m) \<in> set ms \<Longrightarrow>
   getHTTPRuleExtension (meExtension M) (meUnmarshal M) (descriptor m) = Some rule \<Longrightarrow>
   stores (meReflect M) (mtRoutes tab') m rule"
proof (induction ms arbitrary: tab)
  case (Cons pm ms)
  obtain p' m' where pm: "pm = (p', m')" by fastforce
  show ?case
  proof (cases "(p, m) = pm")
    case True
    obtain target t1 t2 where a: "addRoute (meReflect M) m rule (mtRoutes tab) = (Inr target, t1)"
      and b: "addBindings (meReflect M) False (Procedure (spec m)) m (AdditionalBindings rule) t1 = Inr t2"
      and e: "embeddedRules M ms (tab\<lparr>mtRules := (mtRules tab)(p \<mapsto> target), mtRoutes := t2\<rparr>) = Inr tab'"
      using Cons.prems(1,3) True by (auto split: prod.split_asm sum.split_asm)
    show ?thesis
      using addRoute_stores [OF a] addBindings_grows [OF b] embeddedRules_grows [OF e] by simp (metis stores_grows)
  next
    case False
    then have "(p, m) \<in> set ms" using Cons.prems(2) by simp
    then show ?thesis
      using Cons.prems(1,3) Cons.IH pm by (auto split: option.split_asm prod.split_asm sum.split_asm)
  qed
qed simp

lemma externalRules_step:
  assumes "externalRules R (rule # rules) tab = Inr tab'"
  obtains p m t1 t2 rs where "procedureFromSelector (Selector rule) = Some p" "map_of (mtMethods tab) p = Some m"
    "stores R t1 m rule" "grows R (mtRoutes tab) t1" "grows R t1 t2"
    "externalRules R rules (tab\<lparr>mtRules := rs, mtRoutes := t2\<rparr>) = Inr tab'"
proof -
  obtain p m where sel: "Selector rule \<noteq> []" "procedureFromSelector (Selector rule) = Some p"
      "map_of (mtMethods tab) p = Some m"
    using assms by (auto simp: Let_def split: if_split_asm option.split_asm)
  obtain target t1 where a: "addRoute R m rule (mtRoutes tab) = (Inr target, t1)" and "unsupported target = None"
    using assms sel by (auto simp: Let_def split: prod.split_asm sum.split_asm option.split_asm)
  define rs where rs: "rs = (if mtRules tab p = None then (mtRules tab)(p \<mapsto> target) else mtRules tab)"
  obtain t2 where "addBindings R True (Selector rule) m (AdditionalBindings rule) t1 = Inr t2"
    and "externalRules R rules (tab\<lparr>mtRules := rs, mtRoutes := t2\<rparr>) = Inr tab'"
    using assms sel a \<open>unsupported target = None\<close>
    by (cases "addBindings R True (Selector rule) m (AdditionalBindings rule) t1") (simp_all add: rs Let_def)
  then show thesis
    using that sel addRoute_stores [OF a] addRoute_grows [OF a] addBindings_grows by blast
qed

lemma externalRules_grows: "externalRules R rules tab = Inr tab' \<Longrightarrow> grows R (mtRoutes tab) (mtRoutes tab')"
proof (induction rules arbitrary: tab)
  case (Cons rule rules)
  from Cons.prems show ?case
  proof (rule externalRules_step)
    fix t1 t2 rs
    assume "grows R (mtRoutes tab) t1" "grows R t1 t2"
      and e: "externalRules R rules (tab\<lparr>mtRules := rs, mtRoutes := t2\<rparr>) = Inr tab'"
    then show ?thesis
      using Cons.IH [OF e] by simp (metis grows_trans)
  qed
qed (simp add: grows_refl)

lemma externalRules_stores:
  "externalRules R rules tab = Inr tab' \<Longrightarrow> rule \<in> set rules \<Longrightarrow>
   procedureFromSelector (Selector rule) = Some p \<Longrightarrow> map_of (mtMethods tab) p = Some m \<Longrightarrow>
   stores R (mtRoutes tab') m rule"
proof (induction rules arbitrary: tab)
  case (Cons x xs)
  from Cons.prems(1) show ?case
  proof (rule externalRules_step)
    fix p' m' t1 t2 rs
    assume first: "procedureFromSelector (Selector x) = Some p'" "map_of (mtMethods tab) p' = Some m'"
        "stores R t1 m' x" "grows R t1 t2"
      and e: "externalRules R xs (tab\<lparr>mtRules := rs, mtRoutes := t2\<rparr>) = Inr tab'"
    show ?thesis
    proof (cases "x = rule")
      case True
      then have "stores R t1 m rule" using first Cons.prems(3,4) by simp
      then show ?thesis
        using first(4) externalRules_grows [OF e] by simp (metis stores_grows)
    next
      case False
      then show ?thesis
        using Cons.IH [OF e] Cons.prems(2-4) by simp
    qed
  qed
qed simp

lemma findExternal_Some:
  "findExternal p rules = Some rule \<Longrightarrow> rule \<in> set rules \<and> procedureFromSelector (Selector rule) = Some p"
  by (induction rules) (auto split: if_split_asm)

lemma methodFromSpec_spec: "methodFromSpec M sp resolver = Some m \<Longrightarrow> spec m = sp"
  by (auto simp: methodFromSpec_def Let_def split: option.splits)

lemma collectMethods_other:
  "\<forall>sp \<in> set specs. Procedure sp \<noteq> p \<Longrightarrow> map_of (collectMethods M resolver specs ms) p = map_of ms p"
  by (induction specs arbitrary: ms) (auto simp: update_conv' dest!: methodFromSpec_spec split: option.split)

lemma collectMethods_Some:
  "distinct (map Procedure specs) \<Longrightarrow> sp \<in> set specs \<Longrightarrow> methodFromSpec M sp resolver = Some m \<Longrightarrow>
   map_of (collectMethods M resolver specs ms) (Procedure sp) = Some m"
proof (induction specs arbitrary: ms)
  case (Cons x xs)
  show ?case
  proof (cases "x = sp")
    case True
    then have "\<forall>y \<in> set xs. Procedure y \<noteq> Procedure sp"
      using Cons.prems(1) by (metis distinct.simps(2) image_eqI list.map(2) list.set_map)
    then show ?thesis
      using Cons.prems(3) True methodFromSpec_spec [OF Cons.prems(3)]
      by (simp add: collectMethods_other update_conv')
  next
    case False
    then show ?thesis
      using Cons by (simp split: option.split)
  qed
qed simp

lemma resolveMethod_fresh:
  assumes "resolveMethod M resolver rules cache sp = (Inr (m, target), cache')" and "cache (Procedure sp) = None"
  obtains rule where "methodFromSpec M sp resolver = Some m"
    "(case getHTTPRuleExtension (meExtension M) (meUnmarshal M) (descriptor m) of
        Some rule \<Rightarrow> Some rule | None \<Rightarrow> findExternal (Procedure sp) rules) = Some rule"
    "rule_target (meReflect M) m rule = Inr target"
proof -
  obtain m' where m': "methodFromSpec M sp resolver = Some m'"
    using assms by (auto simp: resolveMethod_def split: option.splits)
  obtain rule where rule: "(case getHTTPRuleExtension (meExtension M) (meUnmarshal M) (descriptor m') of
        Some rule \<Rightarrow> Some rule | None \<Rightarrow> findExternal (Procedure sp) rules) = Some rule"
    using assms m' by (auto simp: resolveMethod_def split: option.split_asm)
  have "m' = m \<and> rule_target (meReflect M) m rule = Inr target"
    using assms unfolding resolveMethod_def m' rule rule_target_def
    by (auto simp: m' rule split: sum.split_asm option.split_asm)
  then show thesis
    using that m' rule by blast
qed

lemma resolveMethods_stores:
  assumes "resolveMethods M order resolver rules specs = Inr tab"
    and "set (order (collectMethods M resolver specs [])) = set (collectMethods M resolver specs [])"
    and "map_of (collectMethods M resolver specs []) p = Some m"
    and "(case getHTTPRuleExtension (meExtension M) (meUnmarshal M) (descriptor m) of
        Some rule \<Rightarrow> Some rule | None \<Rightarrow> findExternal p rules) = Some rule"
  shows "stores (meReflect M) (mtRoutes tab) m rule"
proof -
  let ?ms = "collectMethods M resolver specs []"
  let ?tab = "\<lparr>mtMethods = ?ms, mtRules = (\<lambda>p. None), mtRoutes = emptyTrie\<rparr>"
  obtain tab1 where e: "embeddedRules M (order ?ms) ?tab = Inr tab1"
    and x: "externalRules (meReflect M) rules tab1 = Inr tab"
    using assms(1) by (auto simp: resolveMethods_def Let_def split: sum.splits)
  show ?thesis
  proof (cases "getHTTPRuleExtension (meExtension M) (meUnmarshal M) (descriptor m)")
    case None
    then have "rule \<in> set rules" "procedureFromSelector (Selector rule) = Some p"
      using assms(4) findExternal_Some by auto
    moreover have "map_of (mtMethods tab1) p = Some m"
      using embeddedRules_methods [OF e] assms(3) by simp
    ultimately show ?thesis
      using externalRules_stores [OF x] by blast
  next
    case (Some r)
    have "(p, m) \<in> set (order ?ms)"
      using map_of_SomeD [OF assms(3)] assms(2) by simp
    from embeddedRules_stores [OF e this Some] show ?thesis
      using externalRules_grows [OF x] Some assms(4) by simp (metis stores_grows)
  qed
qed

lemma registered_target:
  assumes "resolveMethods M order resolver rules specs = Inr tab"
    and "set (order (collectMethods M resolver specs [])) = set (collectMethods M resolver specs [])"
    and "distinct (map Procedure specs)" and "sp \<in> set specs"
    and "resolveMethod M resolver rules cache sp = (Inr (m, target), cache')"
    and "cache (Procedure sp) = None"
  shows "reachable_table (meReflect M) (mtRoutes tab) \<and> route (mtRoutes tab) (target_key target) = Some target"
proof -
  obtain rule where rule: "methodFromSpec M sp resolver = Some m"
    "(case getHTTPRuleExtension (meExtension M) (meUnmarshal M) (descriptor m) of
        Some rule \<Rightarrow> Some rule | None \<Rightarrow> findExternal (Procedure sp) rules) = Some rule"
    "rule_target (meReflect M) m rule = Inr target"
    using resolveMethod_fresh [OF assms(5,6)] by blast
  have "stores (meReflect M) (mtRoutes tab) m rule"
    using resolveMethods_stores [OF assms(1,2) collectMethods_Some [OF assms(3,4) rule(1)] rule(2)] .
  then show ?thesis
    using rule(3) resolveMethods_good [OF assms(1)] by (simp add: stores_def good_rules_def)
qed

section \<open>A sample server\<close>

text \<open>Two methods: \<open>GetBook\<close> with an annotation, \<open>Upload\<close> with a rule given through \<open>WithRules\<close>.\<close>

definition sample_rule_spec :: "string \<Rightarrow> rulePattern \<Rightarrow> string \<Rightarrow> ruleSpec" where
  "sample_rule_spec sel p b =
     \<lparr>Selector = sel, Pattern = p, Body = b, ResponseBody = [], AdditionalBindings = []\<rparr>"

definition sample_types :: "(unit, unit) typeResolver" where
  "sample_types =
     \<lparr>FindMessageByName = (\<lambda>n. Inr ()), FindMessageByURL = (\<lambda>n. Inr ()),
      FindExtensionByName = (\<lambda>n. Inl NotFound), FindExtensionByNumber = (\<lambda>n k. Inl NotFound)\<rparr>"

definition sample_env :: "(unit, string, string, string, nat, unit, unit) methodEnv" where
  "sample_env =
     \<lparr>meReflect = sample, meFiles = cyclic_files,
      meRegistries = \<lparr>ParentFile = (\<lambda>s. None), Methods = (\<lambda>s. []), GlobalFiles = (\<lambda>p. None),
        GlobalTypes = sample_types, dynamicTypes = (\<lambda>fs. sample_types)\<rparr>,
      meParent = (\<lambda>m. None), meDynamic = (\<lambda>m. ()), meDepth = 3,
      meExtension = (\<lambda>m. if m = ''GetBook''
        then Some (IsHttpRule (sample_rule_spec [] (HttpRule_Get ''/v1/{shelf.id}/{name=books/**}:read'') []))
        else None),
      meUnmarshal = (\<lambda>s. Inl NotFound)\<rparr>"

definition sample_specs :: "string spec list" where
  "sample_specs =
     [spec (sample_method ''GetBook'' StreamTypeUnary), spec (sample_method ''Upload'' StreamTypeUnary)]"

definition upload_rules :: "ruleSpec list" where
  "upload_rules = [sample_rule_spec ''library.Library.Upload'' (HttpRule_Post ''/v1/{name}'') ''file'']"

lemma sample_mounted: "\<not> isl (resolveMethods sample_env rev None upload_rules sample_specs)"
  by code_simp

lemma sample_resolved:
  "fst (resolveMethod sample_env None upload_rules (\<lambda>p. None) (spec (sample_method ''GetBook'' StreamTypeUnary))) =
     Inr (sample_method ''GetBook'' StreamTypeUnary, books_target)"
  by code_simp

section \<open>Properties\<close>

text \<open>A client and a server configured alike agree: when a server mounts a set of methods with
  distinct procedures, and a transport with the same rules and resolver resolves one of them
  (from its annotation or else the first matching external rule), then the server stores the
  very target the client uses, in a table that was built by adding rules, and every path the
  client builds from it for any message is routed by the server.\<close>

theorem client_reaches_server:
  assumes "resolveMethods M order resolver rules specs = Inr tab"
    and "set (order (collectMethods M resolver specs [])) = set (collectMethods M resolver specs [])"
    and "distinct (map Procedure specs)" and "sp \<in> set specs"
    and "resolveMethod M resolver rules cache sp = (Inr (m, target), cache')"
    and "cache (Procedure sp) = None"
  shows "reachable_table (meReflect M) (mtRoutes tab) \<and>
    route (mtRoutes tab) (target_key target) = Some target \<and>
    (httpEncodePathValues fuel (meReflect M) L rng msg target = Some (Inr (path, query)) \<longrightarrow>
     \<not> noMatch (match (mtRoutes tab) path hm))"
proof -
  note reg = registered_target [OF assms]
  obtain p v hm' where "target_key target = (p, v, hm')"
    by (metis surj_pair)
  then show ?thesis
    using reg client_path_noMatch [OF reachable_good [OF conjunct1 [OF reg]]] by metis
qed

theorem client_reaches_server_witness:
  "case resolveMethods sample_env rev None upload_rules sample_specs of
     Inl err \<Rightarrow> False
   | Inr tab \<Rightarrow> \<not> noMatch (match (mtRoutes tab) ''/v1/s%2F1/books/a%25/b:read'' ''GET'')"
proof -
  obtain tab where tab: "resolveMethods sample_env rev None upload_rules sample_specs = Inr tab"
    using sample_mounted by (cases "resolveMethods sample_env rev None upload_rules sample_specs") simp_all
  obtain cache' where r: "resolveMethod sample_env None upload_rules (\<lambda>p. None)
      (spec (sample_method ''GetBook'' StreamTypeUnary)) =
      (Inr (sample_method ''GetBook'' StreamTypeUnary, books_target), cache')"
    using sample_resolved by (metis fst_conv surj_pair)
  have "distinct (map Procedure sample_specs)" "spec (sample_method ''GetBook'' StreamTypeUnary) \<in> set sample_specs"
    by (simp_all add: sample_specs_def sample_method_def)
  from client_reaches_server [OF tab _ this r refl, of 2 sampleLib bookRange "bookMsg ''s/1'' ''books/a%/b''"]
  show ?thesis
    using books_encoded tab by (simp add: sample_env_def)
qed

text \<open>C40: Go ranges over the registered methods in an unspecified order, and it does not matter:
  for any two orders, mounting either fails for both or succeeds for both, with tables
  that hold the same routes.\<close>

theorem mount_order_irrelevant:
  assumes "mset (order1 (collectMethods M resolver specs [])) = mset (order2 (collectMethods M resolver specs []))"
  shows "case (resolveMethods M order1 resolver rules specs, resolveMethods M order2 resolver rules specs) of
      (Inr tab1, Inr tab2) \<Rightarrow> route (mtRoutes tab1) = route (mtRoutes tab2)
    | (Inl e1, Inl e2) \<Rightarrow> True
    | _ \<Rightarrow> False"
  using resolveMethods_order [where ?order1.0 = order1 and ?order2.0 = order2 and rules = rules, OF assms]
  by (auto simp: same_routes_def split: sum.splits)

theorem mount_order_irrelevant_witness:
  "case (resolveMethods sample_env rev None upload_rules sample_specs,
      resolveMethods sample_env (\<lambda>ms. ms) None upload_rules sample_specs) of
      (Inr tab1, Inr tab2) \<Rightarrow> route (mtRoutes tab1) = route (mtRoutes tab2)
    | (Inl e1, Inl e2) \<Rightarrow> True
    | _ \<Rightarrow> False"
  by (rule mount_order_irrelevant) simp

text \<open>A transport resolves each procedure once: a success is cached and every later call gives
  the same method and target, a failure leaves the cache as it was.\<close>

theorem resolve_cached:
  "case resolveMethod M resolver rules cache sp of
     (Inr mt, cache') \<Rightarrow> cache' (Procedure sp) = Some mt \<and> resolveMethod M resolver rules cache' sp = (Inr mt, cache')
   | (Inl err, cache') \<Rightarrow> cache' = cache"
proof (cases "resolveMethod M resolver rules cache sp")
  case (Pair r cache')
  show ?thesis
  proof (cases r)
    case (Inl e)
    then show ?thesis
      using Pair by (auto simp: resolveMethod_def split: option.splits sum.splits)
  next
    case (Inr mt)
    have "cache' (Procedure sp) = Some mt"
      using Pair Inr by (auto simp: resolveMethod_def split: option.splits sum.splits)
    then show ?thesis
      using Pair Inr by (simp add: resolveMethod_def)
  qed
qed

end
