(* ===== verification/ServeHTTP.thy ===== *)
theory ServeHTTP
  imports ServerStream Methods
begin

text \<open>
  Options, \<open>Mount\<close> and the HTTP handler: \<open>vanguard.go\<close> up to \<open>ServeHTTP\<close>.  The options are a
  record, each \<open>With\<close> function an update of it.  \<open>serveHTTP\<close> gives the response, or the response
  at the moment it is aborted (\<open>panic(http.ErrAbortHandler)\<close>), or the panic of a handler.
  \<open>connect.Server.Call\<close> is the field \<open>hCall\<close>: it runs the handler of a procedure on the stream
  and gives the handler's error and the stream as the handler left it.
\<close>

section \<open>Options\<close>

record ('res, 'cd, 'c) options =
  newCodec :: "('res option \<Rightarrow> 'cd) option"
  resolver :: "'res option"
  optRules :: "ruleSpec list"
  optMaxReadBytes :: int
  optDiscardUnknown :: bool
  optCompressors :: "'c list"
  sendCompression :: string

definition defaultOptions :: "'c \<Rightarrow> ('res, 'cd, 'c) options" where
  "defaultOptions gzip =
     \<lparr>newCodec = None, resolver = None, optRules = [], optMaxReadBytes = 4 * 1024 * 1024,
      optDiscardUnknown = False, optCompressors = [gzip], sendCompression = []\<rparr>"

text \<open>\<open>jsonCodec\<close> is \<open>NewJSONCodec\<close>.\<close>

definition effectiveCodec :: "('res option \<Rightarrow> 'cd) \<Rightarrow> ('res, 'cd, 'c) options \<Rightarrow> 'cd" where
  "effectiveCodec jsonCodec opts =
     (let factory = (case newCodec opts of None \<Rightarrow> jsonCodec | Some f \<Rightarrow> f)
      in factory (resolver opts))"

definition WithCodec :: "('res option \<Rightarrow> 'cd) option \<Rightarrow> ('res, 'cd, 'c) options \<Rightarrow> ('res, 'cd, 'c) options" where
  "WithCodec f opts = opts\<lparr>newCodec := f\<rparr>"

definition WithTypeResolver :: "'res option \<Rightarrow> ('res, 'cd, 'c) options \<Rightarrow> ('res, 'cd, 'c) options" where
  "WithTypeResolver r opts = opts\<lparr>resolver := r\<rparr>"

definition WithRules :: "ruleSpec list \<Rightarrow> ('res, 'cd, 'c) options \<Rightarrow> ('res, 'cd, 'c) options" where
  "WithRules rs opts = opts\<lparr>optRules := optRules opts @ rs\<rparr>"

definition WithMaxReadBytes :: "int \<Rightarrow> ('res, 'cd, 'c) options \<Rightarrow> ('res, 'cd, 'c) options" where
  "WithMaxReadBytes n opts = opts\<lparr>optMaxReadBytes := n\<rparr>"

definition WithCompressors :: "'c list \<Rightarrow> ('res, 'cd, 'c) options \<Rightarrow> ('res, 'cd, 'c) options" where
  "WithCompressors cs opts = opts\<lparr>optCompressors := cs\<rparr>"

definition WithSendCompression :: "string \<Rightarrow> ('res, 'cd, 'c) options \<Rightarrow> ('res, 'cd, 'c) options" where
  "WithSendCompression name opts = opts\<lparr>sendCompression := name\<rparr>"

definition WithDiscardUnknownQueryParams :: "bool \<Rightarrow> ('res, 'cd, 'c) options \<Rightarrow> ('res, 'cd, 'c) options" where
  "WithDiscardUnknownQueryParams discard opts = opts\<lparr>optDiscardUnknown := discard\<rparr>"

section \<open>The handler\<close>

record 'mtd callInfo =
  Spec :: "'mtd spec"
  PeerAddr :: string
  Protocol :: string
  Codec :: string
  RequestEncoding :: string
  ResponseEncoding :: string
  RequestHeader :: headers

record ('mtd, 'typ, 'msg, 'fld, 'f, 'v, 'c, 'w) restHandler =
  hEnv :: "('mtd, 'typ, 'msg, 'fld, 'f, 'v, 'c, 'w) serverEnv"
  hTime :: "'f timelib"
  hTimeoutText :: "string \<Rightarrow> string"
  hStreamText :: "streamError \<Rightarrow> string"
  hCompressors :: "'c compressors"
  hMethods :: "(string \<times> ('mtd, 'typ) methodRecord) list"
  hRoutes :: "('mtd, 'typ, 'fld) routeTarget routeTrie"
  hCall :: "string \<Rightarrow> 'mtd callInfo \<Rightarrow> int option \<Rightarrow> ('mtd, 'typ, 'fld, 'c, 'w) serverStream \<Rightarrow>
    (goError option \<times> ('mtd, 'typ, 'fld, 'c, 'w) serverStream) option"

datatype outcome = Answered response | Aborted response | Panicked

definition writeError ::
  "('mtd, 'typ, 'msg, 'fld, 'f, 'v, 'c, 'w) restHandler \<Rightarrow> response \<Rightarrow> goError \<Rightarrow> response"
where
  "writeError H w err =
     (let E = hEnv H in httpWriteError (connText (texts E)) (codecName (codec E)) (marshalStatus (codec E)) w err)"

definition writeStatus ::
  "('mtd, 'typ, 'msg, 'fld, 'f, 'v, 'c, 'w) restHandler \<Rightarrow> response \<Rightarrow> nat \<Rightarrow> connectError \<Rightarrow> response"
where
  "writeStatus H w st cerr =
     (let E = hEnv H in httpWriteStatus (codecName (codec E)) (marshalStatus (codec E)) w st cerr)"

text \<open>The part of \<open>ServeHTTP\<close> for a request without a route, and the call with what follows it.\<close>

definition noRoute ::
  "('mtd, 'typ, 'msg, 'fld, 'f, 'v, 'c, 'w) restHandler \<Rightarrow> request \<Rightarrow> response \<Rightarrow> string list \<Rightarrow> response"
where
  "noRoute H request w allowed =
     (if allowed \<noteq> [] then
        (let w = w\<lparr>rspHeader := header_set ''Allow'' (join_with '', '' (sort allowed)) (rspHeader w)\<rparr>
         in writeStatus H w 405
              (newError CodeUnimplemented (''HTTP method '' @ rqMethod request @ '' not allowed'')))
      else writeError H w (Conn (newError CodeNotFound (''no REST route for '' @ rqPath request))))"

definition finishCall ::
  "('mtd, 'typ, 'msg, 'fld, 'f, 'v, 'c, 'w) restHandler \<Rightarrow> ('mtd, 'typ) methodRecord \<Rightarrow>
   goError option \<Rightarrow> ('mtd, 'typ, 'fld, 'c, 'w) serverStream \<Rightarrow> outcome"
where
  "finishCall H m err stream =
     (let err =
        (if err = None \<and> \<not> ssSent stream \<and> \<not> serverStreaming (streamType (spec m))
         then Some (Conn (newError CodeInternal ''handler sent no response message'')) else err) in
      case err of
        None \<Rightarrow> Answered (ssResponse (snd (close_stream (hEnv H) stream)))
      | Some err \<Rightarrow>
          if committed stream then Aborted (ssResponse stream)
          else
            (let w = (ssResponse stream)\<lparr>rspHeader :=
                       setMetadataHeaders (rspHeader (ssResponse stream)) (ssInfo stream)\<rparr>
             in Answered (writeError H w err)))"

definition startStream ::
  "('mtd, 'typ, 'fld) routeTarget \<Rightarrow> request \<Rightarrow> response \<Rightarrow> 'c option \<Rightarrow> 'c option \<Rightarrow>
   ('mtd, 'typ, 'fld, 'c, 'w) serverStream"
where
  "startStream target request w requestC responseC =
     (newServerStream (target_method target) target (\<lambda>k. None) w request)
       \<lparr>requestCompressor := requestC, responseCompressor := responseC\<rparr>"

definition startInfo ::
  "('mtd, 'typ, 'msg, 'fld, 'f, 'v, 'c, 'w) restHandler \<Rightarrow> ('mtd, 'typ) methodRecord \<Rightarrow> request \<Rightarrow>
   'c option \<Rightarrow> 'c option \<Rightarrow> 'mtd callInfo"
where
  "startInfo H m request requestC responseC =
     \<lparr>Spec = spec m, PeerAddr = rqRemoteAddr request, Protocol = ''rest'', Codec = codecName (codec (hEnv H)),
      RequestEncoding = encodingName (compressorName (hEnv H)) requestC,
      ResponseEncoding = encodingName (compressorName (hEnv H)) responseC,
      RequestHeader = rqHeader request\<rparr>"

definition requestTimeout ::
  "('mtd, 'typ, 'msg, 'fld, 'f, 'v, 'c, 'w) restHandler \<Rightarrow> request \<Rightarrow> string + int option"
where
  "requestTimeout H request =
     (let timeoutStr = header_get (rqHeader request) ''X-Server-Timeout'' in
      if timeoutStr = [] then Inr None
      else
        (case restDecodeTimeout (hTime H) timeoutStr of
           Inl err \<Rightarrow> Inl err
         | Inr timeout \<Rightarrow> Inr (Some timeout)))"

definition serveHTTP ::
  "('mtd, 'typ, 'msg, 'fld, 'f, 'v, 'c, 'w) restHandler \<Rightarrow> request \<Rightarrow> response \<Rightarrow> outcome"
where
  "serveHTTP H request w =
     (case match (hRoutes H) (rqEscapedPath request) (rqMethod request) of
        (None, methods) \<Rightarrow>
          Answered (noRoute H request w (case methods of None \<Rightarrow> [] | Some ms \<Rightarrow> remdups (map fst ms)))
      | (Some target, methods) \<Rightarrow>
          (case unsupported target of
             Some err \<Rightarrow> Answered (writeStatus H w 415 (newError CodeUnimplemented (hStreamText H err)))
           | None \<Rightarrow>
               (let request = request\<lparr>rqPattern := pattern target\<rparr>; m = target_method target in
                case negotiate (hCompressors H) (header_get (rqHeader request) ''Content-Encoding'')
                       (header_get (rqHeader request) ''Accept-Encoding'') of
                  Inl err \<Rightarrow>
                    Answered (writeError H
                      (w\<lparr>rspHeader := header_set ''Accept-Encoding'' (names (hCompressors H)) (rspHeader w)\<rparr>)
                      (Conn err))
                | Inr (requestC, responseC) \<Rightarrow>
                    (case requestTimeout H request of
                       Inl err \<Rightarrow>
                         Answered (writeError H w (Conn (newError CodeInvalidArgument (hTimeoutText H err))))
                     | Inr timeout \<Rightarrow>
                         (case hCall H (Procedure (spec m)) (startInfo H m request requestC responseC) timeout
                                 (startStream target request w requestC responseC) of
                            None \<Rightarrow> Panicked
                          | Some (err, stream) \<Rightarrow> finishCall H m err stream)))))"

text \<open>\<open>Mount\<close>: \<open>H\<close> has the parts the options do not give; the handler is installed at \<open>/\<close>.\<close>

definition Mount ::
  "('svc, 'mtd, 'msg, 'fld, 'file, 'typ, 'ext) methodEnv \<Rightarrow>
   ((string \<times> ('mtd, 'typ) methodRecord) list \<Rightarrow> (string \<times> ('mtd, 'typ) methodRecord) list) \<Rightarrow>
   (('typ, 'ext) typeResolver option \<Rightarrow> ('fld, 'v) restCodec) \<Rightarrow> 'c \<Rightarrow>
   ('mtd, 'typ, 'msg, 'fld, 'f, 'v, 'c, 'w) restHandler \<Rightarrow> 'mtd spec list \<Rightarrow>
   ((('typ, 'ext) typeResolver, ('fld, 'v) restCodec, 'c) options \<Rightarrow>
    (('typ, 'ext) typeResolver, ('fld, 'v) restCodec, 'c) options) list \<Rightarrow>
   ('mtd, 'typ, 'fld) methodsError + ('mtd, 'typ, 'msg, 'fld, 'f, 'v, 'c, 'w) restHandler"
where
  "Mount M order jsonCodec gzip H specs opts =
     (let cfg = foldl (\<lambda>cfg opt. opt cfg) (defaultOptions gzip) opts in
      case resolveMethods M order (resolver cfg) (optRules cfg) specs of
        Inl err \<Rightarrow> Inl err
      | Inr tab \<Rightarrow>
          Inr (H\<lparr>hEnv := (hEnv H)\<lparr>codec := effectiveCodec jsonCodec cfg, maxReadBytes := optMaxReadBytes cfg,
                      discardUnknownQueryParams := optDiscardUnknown cfg\<rparr>,
                  hCompressors := newCompressors (compressorName (hEnv H)) (optCompressors cfg),
                  hMethods := mtMethods tab, hRoutes := mtRoutes tab\<rparr>))"

section \<open>What a handler may do\<close>

text \<open>
  \<open>Server.Call\<close> hands the stream to the handler and its interceptors, which use it through its
  interface: what they do is a run of stream operations.
\<close>

definition handler_runs :: "('mtd, 'typ, 'msg, 'fld, 'f, 'v, 'c, 'w) restHandler \<Rightarrow> bool" where
  "handler_runs H \<longleftrightarrow>
     (\<forall>procedure info t s e s'. hCall H procedure info t s = Some (e, s') \<longrightarrow> (\<exists>log. stream_run (hEnv H) s log s'))"

definition fresh_response :: "response \<Rightarrow> bool" where
  "fresh_response w \<longleftrightarrow> rspSent w = None \<and> rspBody w = []"

definition is_status ::
  "('mtd, 'typ, 'msg, 'fld, 'f, 'v, 'c, 'w) restHandler \<Rightarrow> nat \<Rightarrow> connectError \<Rightarrow> response \<Rightarrow> bool"
where
  "is_status H st cerr r \<longleftrightarrow>
     (\<exists>h. rspSent r = Some (st, h) \<and> header_get h ''Content-Type'' = ''application/'' @ codecName (codec (hEnv H)) \<and>
       header_get h ''Content-Encoding'' = ''identity'') \<and>
     rspBody r = marshalStatus (codec (hEnv H)) (grpcStatusFromError cerr)"

lemma fresh_header [simp]: "fresh_response (w\<lparr>rspHeader := h\<rparr>) = fresh_response w"
  by (simp add: fresh_response_def)

lemma writeStatus_is: "fresh_response w \<Longrightarrow> is_status H st cerr (writeStatus H w st cerr)"
  by (simp add: fresh_response_def is_status_def writeStatus_def httpWriteStatus_def Let_def writeBody_def
      writeHeader_def header_get_def header_set_def)

lemma writeError_is:
  "fresh_response w \<Longrightarrow>
   is_status H (httpStatusCodeFromRPC (code (asConnectError (connText (texts (hEnv H))) err)))
     (asConnectError (connText (texts (hEnv H))) err) (writeError H w err)"
  using writeStatus_is [of w H] by (simp add: writeError_def httpWriteError_def writeStatus_def Let_def)

lemma close_sends: "head_ok s \<Longrightarrow> map_option fst (rspSent (ssResponse (snd (close_stream E s)))) = Some 200"
proof -
  assume ok: "head_ok s"
  obtain e s1 where f: "flushHeaders E False s = (e, s1)" by fastforce
  then have "e = None" by (auto simp: flushHeaders_def Let_def split: if_splits)
  then have s1: "headersSet s1" "head_ok s1"
    using flushHeaders_evolves [OF f ok] by simp_all
  show ?thesis
  proof (cases "compressWriter s1")
    case None
    then show ?thesis
      using f s1 \<open>e = None\<close> by (simp add: close_stream_def head_ok_def)
  next
    case (Some w)
    obtain e2 s2 where t: "throughWriter E (writerClose E w) s1 = (e2, s2)" by fastforce
    have "headersSet s2 \<and> head_ok s2"
      using throughWriter_step [OF t s1] by (simp add: committed_step_def)
    then show ?thesis
      using f Some t \<open>e = None\<close> by (simp add: close_stream_def head_ok_def)
  qed
qed

text \<open>The stream a handler leaves behind.\<close>

lemma handler_leaves:
  assumes "handler_runs H" and "fresh_response w"
    and "hCall H procedure info t (startStream target request w requestC responseC) = Some (e, s)"
  shows "head_ok s" and "\<not> headersSet s \<Longrightarrow> fresh_response (ssResponse s)"
    and "ssMethod s = target_method target"
proof -
  obtain log where run: "stream_run (hEnv H) (startStream target request w requestC responseC) log s"
    using assms(1,3) unfolding handler_runs_def by blast
  have "head_ok (startStream target request w requestC responseC)"
    using assms(2) by (simp add: startStream_def newServerStream_def head_ok_def fresh_response_def)
  note ev = run_evolves [OF run this]
  then show "head_ok s" by simp
  show "fresh_response (ssResponse s)" if "\<not> headersSet s"
    using ev that assms(2)
    by (simp add: evolves_def head_ok_def fresh_response_def startStream_def newServerStream_def)
  show "ssMethod s = target_method target"
    using ev by (simp add: evolves_def startStream_def newServerStream_def)
qed

lemma finishCall_cases:
  assumes "head_ok s" and "\<not> headersSet s \<Longrightarrow> fresh_response (ssResponse s)"
  obtains (answered) r where "finishCall H m err s = Answered r" and "map_option fst (rspSent r) = Some 200"
      and "err = None"
    | (failed) r e where "finishCall H m err s = Answered r" and "\<not> headersSet s"
      and "is_status H (httpStatusCodeFromRPC (code (asConnectError (connText (texts (hEnv H))) e)))
             (asConnectError (connText (texts (hEnv H))) e) r"
    | (aborted) r where "finishCall H m err s = Aborted r" and "map_option fst (rspSent r) = Some 200" and "headersSet s"
proof -
  define err' where "err' = (if err = None \<and> \<not> ssSent s \<and> \<not> serverStreaming (streamType (spec m))
      then Some (Conn (newError CodeInternal ''handler sent no response message'')) else err)"
  show thesis
  proof (cases err')
    case None
    then have "err = None"
      by (simp add: err'_def split: if_split_asm)
    moreover have "finishCall H m err s = Answered (ssResponse (snd (close_stream (hEnv H) s)))"
      using None by (simp add: finishCall_def err'_def [symmetric] Let_def)
    ultimately show ?thesis
      using answered close_sends [OF assms(1)] by blast
  next
    case (Some e)
    show ?thesis
    proof (cases "headersSet s")
      case True
      then show ?thesis
        using aborted Some assms(1) by (simp add: finishCall_def err'_def [symmetric] Let_def committed_def head_ok_def)
    next
      case False
      have "finishCall H m err s = Answered (writeError H ((ssResponse s)\<lparr>rspHeader :=
          setMetadataHeaders (rspHeader (ssResponse s)) (ssInfo s)\<rparr>) e)"
        using False Some by (simp add: finishCall_def err'_def [symmetric] Let_def committed_def)
      then show ?thesis
        by (rule failed [OF _ False writeError_is]) (use assms(2) False in simp)
    qed
  qed
qed

section \<open>Receiving on a routed stream does not panic\<close>

definition same_url :: "request \<Rightarrow> request \<Rightarrow> bool" where
  "same_url q q' \<longleftrightarrow> rqEscapedPath q' = rqEscapedPath q \<and> rqMethod q' = rqMethod q"

lemma flushHeaders_request: "ssRequest (snd (flushHeaders E c s)) = ssRequest s"
  by (simp add: flushHeaders_def Let_def setHeader_def split: option.split sum.split)

lemma throughWriter_request: "throughWriter E r s = (e, s') \<Longrightarrow> ssRequest s' = ssRequest s"
  by (auto simp: throughWriter_def writeResponse_def Let_def split: prod.splits option.splits if_splits)

lemma streamWrite_request: "streamWrite E d s = (e, s') \<Longrightarrow> ssRequest s' = ssRequest s"
  by (auto simp: streamWrite_def writeResponse_def split: option.splits dest: throughWriter_request)

lemma flushStream_request:
  assumes "flushStream E s = (e, s')"
  shows "ssRequest s' = ssRequest s"
proof -
  obtain err s1 where w: "(case (compressWriter s, writerFlush E) of
      (Some w, Some flush) \<Rightarrow> throughWriter E (flush w) s | _ \<Rightarrow> (None, s)) = (err, s1)"
    by fastforce
  then have "ssRequest s1 = ssRequest s"
    by (auto split: option.splits dest: throughWriter_request)
  then show ?thesis
    using assms w by (auto simp: flushStream_def split: option.splits)
qed

lemma sendMessage_request:
  assumes "sendMessage E streaming pmsg s = (e, s')"
  shows "ssRequest s' = ssRequest s"
proof -
  let ?fs = "case responseBodyFields (ssTarget s) of None \<Rightarrow> [] | Some fs \<Rightarrow> fs"
  obtain e1 s1 where f: "flushHeaders E (responseCompressor s \<noteq> None) (setContentType E ?fs pmsg s) = (e1, s1)"
    by fastforce
  have s1: "ssRequest s1 = ssRequest s"
    using flushHeaders_request [of E "responseCompressor s \<noteq> None" "setContentType E ?fs pmsg s"] f
    by (simp add: setContentType_def setHeader_def Let_def split: if_split_asm)
  obtain e2 s2 where enc: "encodeBody (texts E) (reflect E) (lib E) (Descriptor E) (streamWrite E) ?fs pmsg (codec E) s1 = (e2, s2)"
    by fastforce
  have s2: "ssRequest s2 = ssRequest s"
    using encodeBody_sink [OF enc] streamWrite_request s1 by metis
  show ?thesis
    using assms f enc s1 s2 flushStream_request [of E s2 e s']
    by (auto simp: sendMessage_def Let_def split: option.splits if_splits)
qed

lemma Send_request: "Send E msg s = (e, s') \<Longrightarrow> ssRequest s' = ssRequest s"
  using sendMessage_request [of E _ _ "s\<lparr>ssSent := True\<rparr>" e s']
  by (auto simp: Send_def Let_def split: anyMessage.splits if_splits)

lemma openBody_request: "openBody E s = (e, s') \<Longrightarrow> same_url (ssRequest s) (ssRequest s')"
  by (auto simp: openBody_def hasBody_def Let_def same_url_def split: prod.splits if_splits sum.splits)

lemma receiveUnary_request: "receiveUnary E body msg s = Some (e, m, s') \<Longrightarrow> ssRequest s' = ssRequest s"
  by (auto simp: receiveUnary_def Let_def split: prod.splits option.splits)

lemma receiveStream_request: "receiveStream E first body msg s = Some (e, m, s') \<Longrightarrow> ssRequest s' = ssRequest s"
  by (auto simp: receiveStream_def Let_def split: prod.splits option.splits sum.splits if_splits)

lemma Receive_request:
  assumes "Receive E msg s = Some (e, msg', s')"
  shows "same_url (ssRequest s) (ssRequest s')"
  using assms
proof (cases rule: Receive_cases)
  case (opened s1 body pmsg m)
  have "same_url (ssRequest s) (ssRequest s1)"
    using opened(6) openBody_request [of E s None s1] by (auto simp: same_url_def split: if_splits)
  moreover have "ssRequest s' = ssRequest s1"
    using opened(7) receiveUnary_request receiveStream_request by (metis (full_types))
  ultimately show ?thesis by simp
next
  case unopened
  then show ?thesis using openBody_request by blast
qed (simp_all add: same_url_def)

lemma step_request: "stream_step E s op e s' \<Longrightarrow> same_url (ssRequest s) (ssRequest s')"
proof (induction rule: stream_step.induct)
  case (receive msg s e msg' s')
  then show ?case using Receive_request by blast
next
  case (send msg s e s')
  from Send_request [OF send] show ?case by (simp add: same_url_def)
next
  case (headers s e s')
  then show ?case
    using flushHeaders_request [of E "responseCompressor s \<noteq> None" s] by (simp add: SendHeaders_def same_url_def)
qed (simp add: same_url_def)

interpretation request: framed_run "stream_step E" "stream_run E" "\<lambda>s s'. same_url (ssRequest s) (ssRequest s')"
  for E :: "('mtd, 'typ, 'msg, 'fld, 'f, 'v, 'c, 'w) serverEnv"
  by unfold_locales (auto dest: step_request simp: same_url_def)

lemma run_request: "stream_run E s log s' \<Longrightarrow> same_url (ssRequest s) (ssRequest s')"
  by (rule request.run_frame)

text \<open>A panic of \<open>Receive\<close> is a panic of \<open>decodeRequestURL\<close>.\<close>

definition url_panics ::
  "('mtd, 'typ, 'msg, 'fld, 'f, 'v, 'c, 'w) serverEnv \<Rightarrow> ('mtd, 'typ, 'fld, 'c, 'w) serverStream \<Rightarrow> bool"
where
  "url_panics E s \<longleftrightarrow>
     (\<exists>m. decodeRequestURL (texts E) (reflect E) (lib E) (Descriptor E) (ssRequest s) (ssTarget s)
            (discardUnknownQueryParams E) m = None)"

lemma decodeURL_None:
  "decodeURL E s' m = None \<Longrightarrow> ssRequest s' = ssRequest s \<Longrightarrow> ssTarget s' = ssTarget s \<Longrightarrow> url_panics E s"
  by (auto simp: decodeURL_def url_panics_def split: option.splits)

lemma receiveUnary_None:
  assumes "receiveUnary E body msg s = None"
  shows "url_panics E s"
proof -
  have "\<exists>m. decodeURL E (s\<lparr>ssDone := True\<rparr>) m = None"
    using assms by (auto simp: receiveUnary_def Let_def split: prod.splits option.splits)
  then show ?thesis
    using decodeURL_None by fastforce
qed

lemma receiveStream_None:
  assumes "receiveStream E first body msg s = None"
  shows "url_panics E s"
proof -
  obtain r rst where "readChunk body = (r, rst)" by fastforce
  then have "\<exists>m b d. decodeURL E (s\<lparr>ssBody := b, ssDone := d\<rparr>) m = None \<or>
      decodeURL E (s\<lparr>ssBody := b\<rparr>) m = None"
    using assms by (auto simp: receiveStream_def Let_def split: prod.splits option.splits if_splits sum.splits)
  then show ?thesis
    using decodeURL_None by fastforce
qed

lemma Receive_None:
  assumes "Receive E msg s = None"
  obtains s1 where "ssTarget s1 = ssTarget s" and "same_url (ssRequest s) (ssRequest s1)" and "url_panics E s1"
proof -
  obtain pmsg where pmsg: "msg = ProtoMessage pmsg" and "\<not> ssDone s"
    using assms by (cases msg) (simp_all add: Receive_def split: if_splits)
  obtain e1 s1 where o: "(if ssBody s = None then openBody E s else (None, s)) = (e1, s1)"
    by fastforce
  have e1: "e1 = None"
    using assms pmsg \<open>\<not> ssDone s\<close> o by (cases e1) (simp_all add: Receive_def Let_def)
  have frame: "ssTarget s1 = ssTarget s \<and> same_url (ssRequest s) (ssRequest s1) \<and> ssBody s1 \<noteq> None"
  proof (cases "ssBody s = None")
    case True
    then have op: "openBody E s = (None, s1)"
      using o e1 by simp
    then have "ssBody s1 \<noteq> None"
      by (auto simp: openBody_def Let_def split: if_splits prod.splits sum.splits)
    moreover have "recv_frame s s1"
      using openBody_frame [OF op] by simp
    ultimately show ?thesis
      using openBody_request [OF op] recv_frame_evolves [of s s1] by (simp add: evolves_def)
  next
    case False
    have "s1 = s" using o unfolding if_not_P [OF False] by simp
    then show ?thesis using False by (simp add: same_url_def)
  qed
  then obtain body where body: "ssBody s1 = Some body" by blast
  have "(if \<not> clientStreaming (streamType (spec (ssMethod s1))) then receiveUnary E body pmsg s1
      else receiveStream E (ssBody s = None) body pmsg s1) = None"
    using assms pmsg \<open>\<not> ssDone s\<close> o e1 body unfolding Receive_def Let_def by simp
  then have "url_panics E s1"
    using receiveUnary_None receiveStream_None by (metis (full_types))
  then show thesis
    using that frame by blast
qed

section \<open>Allowed methods\<close>

lemma answer_methods:
  assumes "answer t v hm po = (None, Some ms)"
  shows "answer t v m po = (map_of ms m, Some ms)"
  using assms by (auto simp: answer_def pick_def split: option.splits)

lemma answer_None: "snd (answer t v hm po) = None \<Longrightarrow> answer t v m po = (None, None)"
  by (auto simp: answer_def split: option.splits)

lemma match_methods:
  assumes "match t uri hm = (None, Some ms)"
  shows "m \<in> fst ` set ms \<Longrightarrow> fst (match t uri m) = map_of ms m"
    and "snd (splitVerb uri) = [] \<Longrightarrow> match t uri m = (map_of ms m, Some ms)"
proof -
  obtain path verb where sv: "splitVerb uri = (path, verb)" by fastforce
  have pre: "has_prefix uri ''/''" "\<not> has_suffix uri '':''"
    using assms by (simp_all add: match_def split: if_splits)
  note direct = findTarget_path(4) [OF splitVerb_path_prefix [OF pre(1) sv]]
  note whole = findTarget_path(4) [OF pre(1)]
  show "match t uri m = (map_of ms m, Some ms)" if "snd (splitVerb uri) = []"
  proof -
    have "verb = []" using that sv by simp
    then show ?thesis
      using assms answer_methods unfolding match_eq [OF pre sv] direct by (metis (no_types, lifting))
  qed
  show "fst (match t uri m) = map_of ms m" if m: "m \<in> fst ` set ms"
  proof -
    have found: "map_of ms m \<noteq> None"
      using m by (simp add: map_of_eq_None_iff)
    show ?thesis
    proof (cases "findTarget t path verb hm = (None, Some ms)")
      case True
      then have "findTarget t path verb m = (map_of ms m, Some ms)"
        using answer_methods unfolding direct by metis
      moreover obtain y where "map_of ms m = Some y"
        using found by blast
      ultimately show ?thesis
        unfolding match_eq [OF pre sv] by simp
    next
      case False
      then have f: "verb \<noteq> []" "findTarget t uri [] hm = (None, Some ms)" "snd (findTarget t path verb hm) = None"
        using assms unfolding match_eq [OF pre sv] by (auto split: if_splits)
      have "findTarget t path verb m = (None, None)"
        using f(3) answer_None unfolding direct by metis
      moreover have "findTarget t uri [] m = (map_of ms m, Some ms)"
        using f(2) answer_methods unfolding whole by metis
      ultimately show ?thesis
        using f(1) unfolding match_eq [OF pre sv] by simp
    qed
  qed
qed

section \<open>Where a request goes\<close>

definition routed ::
  "('mtd, 'typ, 'msg, 'fld, 'f, 'v, 'c, 'w) restHandler \<Rightarrow> request \<Rightarrow> ('mtd, 'typ, 'fld) routeTarget \<Rightarrow>
   'c option \<Rightarrow> 'c option \<Rightarrow> int option \<Rightarrow> bool"
where
  "routed H request target requestC responseC timeout \<longleftrightarrow>
     fst (match (hRoutes H) (rqEscapedPath request) (rqMethod request)) = Some target \<and>
     unsupported target = None \<and>
     negotiate (hCompressors H) (header_get (rqHeader request) ''Content-Encoding'')
       (header_get (rqHeader request) ''Accept-Encoding'') = Inr (requestC, responseC) \<and>
     requestTimeout H request = Inr timeout"

text \<open>The call of the handler, with the pattern of the route recorded in the request.\<close>

definition callHandler ::
  "('mtd, 'typ, 'msg, 'fld, 'f, 'v, 'c, 'w) restHandler \<Rightarrow> request \<Rightarrow> response \<Rightarrow> ('mtd, 'typ, 'fld) routeTarget \<Rightarrow>
   'c option \<Rightarrow> 'c option \<Rightarrow> int option \<Rightarrow> (goError option \<times> ('mtd, 'typ, 'fld, 'c, 'w) serverStream) option"
where
  "callHandler H request w target requestC responseC timeout =
     (let q = request\<lparr>rqPattern := pattern target\<rparr>; m = target_method target in
      hCall H (Procedure (spec m)) (startInfo H m q requestC responseC) timeout
        (startStream target q w requestC responseC))"

lemma requestTimeout_pattern [simp]: "requestTimeout H (q\<lparr>rqPattern := p\<rparr>) = requestTimeout H q"
  by (simp add: requestTimeout_def)

lemma noRoute_is:
  assumes "fresh_response w"
  shows "\<exists>st cerr. is_status H st cerr (noRoute H request w allowed)"
proof (cases "allowed = []")
  case True
  let ?err = "Conn (newError CodeNotFound (''no REST route for '' @ rqPath request))"
  have eq: "noRoute H request w allowed = writeError H w ?err"
    using True by (simp add: noRoute_def)
  show ?thesis
    unfolding eq using writeError_is [OF assms] by blast
next
  case False
  let ?w = "w\<lparr>rspHeader := header_set ''Allow'' (join_with '', '' (sort allowed)) (rspHeader w)\<rparr>"
  let ?err = "newError CodeUnimplemented (''HTTP method '' @ rqMethod request @ '' not allowed'')"
  have eq: "noRoute H request w allowed = writeStatus H ?w 405 ?err"
    using False by (simp add: noRoute_def)
  have "fresh_response ?w"
    using assms by simp
  then show ?thesis
    unfolding eq using writeStatus_is by blast
qed

lemma serveHTTP_cases:
  assumes "fresh_response w"
  obtains (refused) st cerr r where "serveHTTP H request w = Answered r" and "is_status H st cerr r"
      and "\<nexists>target requestC responseC timeout. routed H request target requestC responseC timeout"
    | (called) target requestC responseC timeout where "routed H request target requestC responseC timeout"
      and "serveHTTP H request w =
        (case callHandler H request w target requestC responseC timeout of
           None \<Rightarrow> Panicked
         | Some (err, stream) \<Rightarrow> finishCall H (target_method target) err stream)"
proof (cases "fst (match (hRoutes H) (rqEscapedPath request) (rqMethod request))")
  case None
  then obtain ms where m: "match (hRoutes H) (rqEscapedPath request) (rqMethod request) = (None, ms)"
    by (metis prod.collapse)
  then have "serveHTTP H request w =
      Answered (noRoute H request w (case ms of None \<Rightarrow> [] | Some ms \<Rightarrow> remdups (map fst ms)))"
    by (simp add: serveHTTP_def)
  moreover obtain st cerr where
    "is_status H st cerr (noRoute H request w (case ms of None \<Rightarrow> [] | Some ms \<Rightarrow> remdups (map fst ms)))"
    using noRoute_is [OF assms] by blast
  moreover have "\<not> routed H request target requestC responseC timeout" for target requestC responseC timeout
    using None by (simp add: routed_def)
  ultimately show ?thesis
    using refused by blast
next
  case (Some target)
  then obtain ms where m: "match (hRoutes H) (rqEscapedPath request) (rqMethod request) = (Some target, ms)"
    by (metis prod.collapse)
  show ?thesis
  proof (cases "unsupported target")
    case (Some err)
    then have "serveHTTP H request w = Answered (writeStatus H w 415 (newError CodeUnimplemented (hStreamText H err)))"
      using m by (simp add: serveHTTP_def)
    then show ?thesis
      by (rule refused [OF _ writeStatus_is [OF assms]]) (use m Some in \<open>simp add: routed_def\<close>)
  next
    case None
    show ?thesis
    proof (cases "negotiate (hCompressors H) (header_get (rqHeader request) ''Content-Encoding'')
        (header_get (rqHeader request) ''Accept-Encoding'')")
      case (Inl err)
      have "serveHTTP H request w = Answered (writeError H
          (w\<lparr>rspHeader := header_set ''Accept-Encoding'' (names (hCompressors H)) (rspHeader w)\<rparr>) (Conn err))"
        using m None Inl by (simp add: serveHTTP_def Let_def)
      then show ?thesis
        by (rule refused [OF _ writeError_is]) (use assms Inl in \<open>simp_all add: routed_def\<close>)
    next
      case (Inr cs)
      obtain requestC responseC where cs: "cs = (requestC, responseC)" by fastforce
      show ?thesis
      proof (cases "requestTimeout H request")
        case (Inl err)
        have "serveHTTP H request w = Answered (writeError H w (Conn (newError CodeInvalidArgument (hTimeoutText H err))))"
          using m None Inr cs Inl by (simp add: serveHTTP_def Let_def)
        then show ?thesis
          by (rule refused [OF _ writeError_is]) (use assms Inl in \<open>simp_all add: routed_def\<close>)
      next
        case t: (Inr timeout)
        have "routed H request target requestC responseC timeout"
          using m None Inr cs t by (simp add: routed_def)
        moreover have "serveHTTP H request w =
            (case callHandler H request w target requestC responseC timeout of
               None \<Rightarrow> Panicked | Some (err, stream) \<Rightarrow> finishCall H (target_method target) err stream)"
          using m None Inr cs t by (simp add: serveHTTP_def callHandler_def Let_def)
        ultimately show ?thesis by (rule called)
      qed
    qed
  qed
qed

lemma routed_unique:
  "routed H q t c d x \<Longrightarrow> routed H q t' c' d' x' \<Longrightarrow> t' = t \<and> c' = c \<and> d' = d \<and> x' = x"
  by (auto simp: routed_def)

lemma serveHTTP_routed:
  assumes "fresh_response w" and "routed H request target requestC responseC timeout"
  shows "serveHTTP H request w =
    (case callHandler H request w target requestC responseC timeout of
       None \<Rightarrow> Panicked | Some (err, stream) \<Rightarrow> finishCall H (target_method target) err stream)"
  using assms(1)
proof (cases rule: serveHTTP_cases [where H = H and request = request, case_names refused called])
  case refused
  then show ?thesis using assms(2) by blast
next
  case (called target' requestC' responseC' timeout')
  then show ?thesis using routed_unique [OF assms(2) called(1)] by auto
qed

text \<open>What a client reads from the answer to a failed call.\<close>

lemma failed_answer:
  assumes "handler_runs H" and "fresh_response w" and "routed H request target requestC responseC timeout"
    and "callHandler H request w target requestC responseC timeout = Some (Some err, s)" and "\<not> committed s"
    and "asConnectError (connText (texts (hEnv H))) err = cerr" and "code cerr \<noteq> 0"
    and "unmarshal (marshalStatus (codec (hEnv H)) (grpcStatusFromError cerr)) = (grpcStatusFromError cerr, False)"
    and "list_all (\<lambda>(ty, v). CHR ''/'' \<notin> set ty) (details cerr)"
  shows "\<exists>r st h. serveHTTP H request w = Answered r \<and> rspSent r = Some (st, h) \<and> 400 \<le> st \<and> st < 600 \<and>
    httpErrorFromResponse unmarshal statusText pack st ctype (rspBody r) =
      Some (ConnectError (code cerr) (message cerr) (details cerr) True None) \<and>
    (\<forall>k vals. ssInfo s k = Some vals \<and> k \<notin> set protocolHeaders \<longrightarrow> h k = Some vals) \<and>
    header_get h ''Content-Encoding'' = ''identity'' \<and> rspBody r = marshalStatus (codec (hEnv H)) (grpcStatusFromError cerr)"
proof -
  let ?w = "(ssResponse s)\<lparr>rspHeader := setMetadataHeaders (rspHeader (ssResponse s)) (ssInfo s)\<rparr>"
  have "fresh_response (ssResponse s)"
    using handler_leaves(2) [OF assms(1,2)] assms(4,5) unfolding callHandler_def committed_def Let_def by blast
  then have fresh: "rspSent ?w = None" "rspBody ?w = []"
    by (simp_all add: fresh_response_def)
  have served: "serveHTTP H request w = Answered (writeError H ?w err)"
    using serveHTTP_routed [OF assms(2,3)] assms(4,5) by (simp add: finishCall_def Let_def)
  have "\<exists>st h. rspSent (httpWriteError (connText (texts (hEnv H))) (codecName (codec (hEnv H)))
        (marshalStatus (codec (hEnv H))) ?w err) = Some (st, h) \<and> 400 \<le> st \<and> st < 600 \<and>
      httpErrorFromResponse (unmarshal) statusText pack st ctype
        (rspBody (httpWriteError (connText (texts (hEnv H))) (codecName (codec (hEnv H)))
          (marshalStatus (codec (hEnv H))) ?w err)) =
        Some (ConnectError (code cerr) (message cerr) (details cerr) True None)"
  proof (rule error_roundtrip)
    show "CHR ''/'' \<notin> set ty" if "(ty, v) \<in> set (details cerr)" for ty v
      using assms(9) that by (auto simp: list_all_iff)
  qed (use assms(6-8) fresh in simp_all)
  then obtain st h where r: "rspSent (writeError H ?w err) = Some (st, h)" "400 \<le> st" "st < 600"
    "httpErrorFromResponse (unmarshal) statusText pack st ctype (rspBody (writeError H ?w err)) =
      Some (ConnectError (code cerr) (message cerr) (details cerr) True None)"
    unfolding writeError_def Let_def by blast
  moreover have "h k = Some vals" if "ssInfo s k = Some vals" "k \<notin> set protocolHeaders" for k vals
    using r(1) fresh that
    by (auto simp: writeError_def httpWriteError_def httpWriteStatus_def Let_def writeBody_def writeHeader_def
        header_set_def setMetadataHeaders_def protocolHeaders_def)
  moreover have "is_status H (httpStatusCodeFromRPC (code cerr)) cerr (writeError H ?w err)"
    using writeError_is [of ?w H err] fresh assms(6) by (simp add: fresh_response_def)
  then have "header_get h ''Content-Encoding'' = ''identity''"
    "rspBody (writeError H ?w err) = marshalStatus (codec (hEnv H)) (grpcStatusFromError cerr)"
    using r(1) by (auto simp: is_status_def)
  ultimately show ?thesis
    using served by blast
qed


section \<open>A sample handler\<close>

definition noTime :: "unit timelib" where
  "noTime =
     \<lparr>parseSeconds = (\<lambda>s. ((), ErrSyntax)), secondsNaN = (\<lambda>x. False), secondsNegative = (\<lambda>x. False),
      secondsTooLong = (\<lambda>x. False), toDuration = (\<lambda>x. 0), formatSeconds = (\<lambda>n. [])\<rparr>"

definition upload_routes :: "(string, unit, string) routeTarget routeTrie" where
  "upload_routes =
     snd (addRoute uploadReflect (sample_method ''Upload'' StreamTypeUnary)
       \<lparr>Selector = [], Pattern = HttpRule_Post ''/v1/upload'', Body = ''file'', ResponseBody = []\<rparr> emptyTrie)"

definition errorEnv :: "(string, unit, string, string, unit, typedMsg, unit, unit) serverEnv" where
  "errorEnv =
     uploadEnv\<lparr>codec := plainCodec\<lparr>unmarshalStatus :=
       (\<lambda>s. (\<lparr>statusCode = CodeUnknown, statusMessage = s, statusDetails = []\<rparr>, False))\<rparr>\<rparr>"

text \<open>A handler that sends one message and then fails with the error \<open>e\<close>, if any.\<close>

definition sample_handler ::
  "bool \<Rightarrow> goError option \<Rightarrow> (string, unit, string, string, unit, typedMsg, unit, unit) restHandler"
where
  "sample_handler sends e =
     \<lparr>hEnv = errorEnv, hTime = noTime, hTimeoutText = (\<lambda>s. s), hStreamText = (\<lambda>e. []),
      hCompressors = newCompressors (\<lambda>c. ''gzip'') [()], hMethods = [], hRoutes = upload_routes,
      hCall = (\<lambda>p info t s. Some (e, if sends then snd (Send errorEnv (ProtoMessage uploadMsg) s) else s))\<rparr>"

lemma sample_runs: "handler_runs (sample_handler sends e)"
  unfolding handler_runs_def
proof (intro allI impI)
  fix p info t s e' s'
  assume "hCall (sample_handler sends e) p info t s = Some (e', s')"
  then have s': "s' = (if sends then snd (Send errorEnv (ProtoMessage uploadMsg) s) else s)"
    by (simp add: sample_handler_def)
  have env: "hEnv (sample_handler sends e) = errorEnv"
    by (simp add: sample_handler_def)
  show "\<exists>log. stream_run (hEnv (sample_handler sends e)) s log s'"
  proof (cases sends)
    case True
    obtain e1 s1 where "Send errorEnv (ProtoMessage uploadMsg) s = (e1, s1)" by fastforce
    then have "stream_run errorEnv s [(OpSend (ProtoMessage uploadMsg), e1)] s1"
      by (rule stream_run.step [OF stream_step.send stream_run.stop])
    then show ?thesis
      using s' True env \<open>Send errorEnv (ProtoMessage uploadMsg) s = (e1, s1)\<close> by auto
  next
    case False
    then show ?thesis
      using s' env stream_run.stop by metis
  qed
qed

lemma sample_fresh: "fresh_response emptyResponse"
  by (simp add: fresh_response_def emptyResponse_def)

section \<open>Properties\<close>



text \<open>The error of a handler reaches the client: when the handler of a routed request fails before
  anything was committed, the response has an error status, a client that reads the response
  gets the code, message and details of the handler's error, and the header that was sent
  holds all metadata the handler set, except under the protocol's own keys; provided the
  codec reads back the status message it wrote and the types of the details have no slash.\<close>

theorem handler_error_reaches_client:
  assumes "handler_runs H" and "fresh_response w" and "routed H request target requestC responseC timeout"
    and "callHandler H request w target requestC responseC timeout = Some (Some err, s)" and "\<not> committed s"
    and "asConnectError (connText (texts (hEnv H))) err = cerr" and "code cerr \<noteq> 0"
    and "unmarshalStatus (codec (hEnv H)) (marshalStatus (codec (hEnv H)) (grpcStatusFromError cerr)) =
      (grpcStatusFromError cerr, False)"
    and "list_all (\<lambda>(ty, v). CHR ''/'' \<notin> set ty) (details cerr)"
  shows "\<exists>r st h. serveHTTP H request w = Answered r \<and> rspSent r = Some (st, h) \<and> 400 \<le> st \<and> st < 600 \<and>
    httpErrorFromResponse (unmarshalStatus (codec (hEnv H))) statusText pack st ctype (rspBody r) =
      Some (ConnectError (code cerr) (message cerr) (details cerr) True None) \<and>
    (\<forall>k vals. ssInfo s k = Some vals \<and> k \<notin> set protocolHeaders \<longrightarrow> h k = Some vals)"
  using failed_answer [where unmarshal = "unmarshalStatus (codec (hEnv H))" and cerr = cerr, OF assms] by blast

theorem handler_error_reaches_client_witness:
  "\<exists>r st. serveHTTP (sample_handler False (Some EOF)) upload_request emptyResponse = Answered r \<and> 400 \<le> st \<and>
     httpErrorFromResponse (unmarshalStatus (codec errorEnv)) (\<lambda>st. []) (\<lambda>c s. Inl []) st [] (rspBody r) =
       Some (ConnectError CodeUnknown [] [] True None)"
proof -
  let ?H = "sample_handler False (Some EOF)" and ?err = "ConnectError CodeUnknown [] [] False (Some EOF)"
  have env: "hEnv ?H = errorEnv"
    by (simp add: sample_handler_def)
  have call: "callHandler ?H upload_request emptyResponse (upload_target StreamTypeUnary) None None None =
      Some (Some EOF, startStream (upload_target StreamTypeUnary)
        (upload_request\<lparr>rqPattern := ''POST /v1/upload''\<rparr>) emptyResponse None None)"
    by (simp add: callHandler_def sample_handler_def upload_target_def Let_def)
  have route: "routed ?H upload_request (upload_target StreamTypeUnary) None None None"
    by code_simp
  have "\<exists>r st h. serveHTTP ?H upload_request emptyResponse = Answered r \<and> rspSent r = Some (st, h) \<and>
      400 \<le> st \<and> st < 600 \<and>
      httpErrorFromResponse (unmarshalStatus (codec (hEnv ?H))) (\<lambda>st. []) (\<lambda>c s. Inl []) st [] (rspBody r) =
        Some (ConnectError (code ?err) (message ?err) (details ?err) True None) \<and>
      (\<forall>k vals. ssInfo (startStream (upload_target StreamTypeUnary)
        (upload_request\<lparr>rqPattern := ''POST /v1/upload''\<rparr>) emptyResponse None None :: (string, unit, string, unit, unit) serverStream) k = Some vals \<and>
         k \<notin> set protocolHeaders \<longrightarrow> h k = Some vals)"
    by (rule handler_error_reaches_client [OF sample_runs sample_fresh route call])
      (simp_all add: env errorEnv_def uploadEnv_def plainCodec_def committed_def startStream_def newServerStream_def
        asConnectError_def withCause_def grpcStatusFromError_def)
  then obtain r st h where r: "serveHTTP ?H upload_request emptyResponse = Answered r" "400 \<le> st"
      "httpErrorFromResponse (unmarshalStatus (codec errorEnv)) (\<lambda>st. []) (\<lambda>c s. Inl []) st [] (rspBody r) =
        Some (ConnectError CodeUnknown [] [] True None)"
    unfolding env by auto
  then show ?thesis by blast
qed



text \<open>C27: A 405 answer tells the truth: when a path has a route but not for the request's method, the
  Allow header lists methods with which the same path has a route, and, unless the path's
  last segment has a colon, it lists all of them.\<close>

theorem allow_lists_methods:
  assumes "match (hRoutes H) (rqEscapedPath request) (rqMethod request) = (None, Some ms)" and "ms \<noteq> []"
    and "fresh_response w"
  shows "(\<exists>r h. serveHTTP H request w = Answered r \<and> rspSent r = Some (405, h) \<and>
      header_get h ''Allow'' = join_with '', '' (sort (remdups (map fst ms)))) \<and>
    (\<forall>m \<in> fst ` set ms. fst (match (hRoutes H) (rqEscapedPath request) m) \<noteq> None) \<and>
    (snd (splitVerb (rqEscapedPath request)) = [] \<longrightarrow>
     (\<forall>m. fst (match (hRoutes H) (rqEscapedPath request) m) \<noteq> None \<longrightarrow> m \<in> fst ` set ms))"
proof (intro conjI ballI impI allI)
  show "\<exists>r h. serveHTTP H request w = Answered r \<and> rspSent r = Some (405, h) \<and>
      header_get h ''Allow'' = join_with '', '' (sort (remdups (map fst ms)))"
    using assms by (simp add: serveHTTP_def noRoute_def Let_def writeStatus_def httpWriteStatus_def writeBody_def
        writeHeader_def fresh_response_def header_get_def header_set_def)
  show "fst (match (hRoutes H) (rqEscapedPath request) m) \<noteq> None" if "m \<in> fst ` set ms" for m
    using match_methods(1) [OF assms(1) that] that by (simp add: map_of_eq_None_iff)
  show "m \<in> fst ` set ms" if "snd (splitVerb (rqEscapedPath request)) = []"
    "fst (match (hRoutes H) (rqEscapedPath request) m) \<noteq> None" for m
    using match_methods(2) [OF assms(1) that(1), of m] that(2) by (simp add: map_of_eq_None_iff)
qed

definition delete_request :: request where
  "delete_request = upload_request\<lparr>rqMethod := ''DELETE''\<rparr>"

lemma delete_match:
  "map_option (map fst) (snd (match upload_routes (rqEscapedPath delete_request) (rqMethod delete_request))) = Some [''POST''] \<and>
   fst (match upload_routes (rqEscapedPath delete_request) (rqMethod delete_request)) = None"
  by code_simp

theorem allow_lists_methods_witness:
  "\<exists>r h. serveHTTP (sample_handler True None) delete_request emptyResponse = Answered r \<and>
     rspSent r = Some (405, h) \<and> header_get h ''Allow'' = ''POST''"
proof -
  have routes: "hRoutes (sample_handler True None) = upload_routes"
    by (simp add: sample_handler_def)
  obtain ms where ms: "match (hRoutes (sample_handler True None)) (rqEscapedPath delete_request) (rqMethod delete_request) =
      (None, Some ms)" "map fst ms = [''POST'']"
    using delete_match unfolding routes
    by (cases "match upload_routes (rqEscapedPath delete_request) (rqMethod delete_request)") auto
  then have "ms \<noteq> []" by auto
  from allow_lists_methods [OF ms(1) this sample_fresh] obtain r h
    where "serveHTTP (sample_handler True None) delete_request emptyResponse = Answered r" "rspSent r = Some (405, h)"
      "header_get h ''Allow'' = join_with '', '' (sort (remdups (map fst ms)))"
    by blast
  then show ?thesis
    unfolding ms(2) by simp
qed

definition colon_table :: "(string, unit, string) routeTarget routeTrie" where
  "colon_table =
     snd (addRoute sample (sample_method ''GetBook'' StreamTypeUnary) (sample_rule (HttpRule_Post ''/v1/{name}''))
       (snd (addRoute sample (sample_method ''GetBook'' StreamTypeUnary)
            (sample_rule (HttpRule_Get ''/v1/{name}:read'')) emptyTrie)))"

text \<open>With a colon in the last segment the Allow header can miss methods: when the routes of the
  path's verb do not have the method, the routes that read the colon as part of the segment
  are not listed, though a request with one of their methods is served.\<close>

theorem allow_incomplete:
  "map_option (map fst) (snd (match colon_table ''/v1/x:read'' ''DELETE'')) = Some [''GET''] \<and>
   fst (match colon_table ''/v1/x:read'' ''POST'') \<noteq> None"
  by code_simp

end
