(* ===== verification/ClientStream.thy ===== *)
theory ClientStream
  imports ServerStream HttpRule
begin

text \<open>
  The client's stream of one call: \<open>stream_client.go\<close>.  The Go struct is the record
  \<open>clientStream\<close>; its transport, the HTTP client and the code of other packages are the record
  \<open>clientEnv\<close>.  An operation gives its result and the stream after it: it returns, or waits for
  the response (\<open>Blocks\<close>, also the result when the fuel of \<open>httpEncodePathValues\<close> does not
  reach, see \<open>encode_terminates\<close>), or dereferences nil (\<open>Panics\<close>).

  The send side, the receive side, \<open>Close\<close> and the request goroutine are steps of one relation,
  in any order: they share only what \<open>respond\<close> publishes under the mutex.  A write to the pipe
  is taken to return once the transport has read it or has closed its end (\<open>pipeReaderErr\<close>).
  \<open>csOpened\<close> and \<open>csCloseLog\<close> list the response bodies that \<open>net/http\<close> handed out and those
  that were closed; a body is named by the number of its response.
\<close>

section \<open>Requests and responses\<close>

text \<open>A URL with its escaped path; the scheme and host are one text.\<close>

record url =
  urlHost :: string
  urlEscapedPath :: string
  urlPath :: string
  urlRawQuery :: string

record outRequest =
  orMethod :: string
  orURL :: url
  orHeader :: headers
  orBody :: "string option"

record httpResponse =
  hrId :: nat
  hrStatus :: nat
  hrHeader :: headers
  hrBody :: reader

record clientInfo =
  ciRequestHeader :: headers
  ciResponseEncoding :: string
  ciResponseHeader :: headers

datatype 'a progress = Returns 'a | Blocks | Panics

record ('mtd, 'typ, 'msg, 'fld, 'f, 'v, 'c, 'w) clientEnv =
  ceReflect :: "('mtd, 'msg, 'fld) reflect"
  ceLib :: "('f, 'fld, 'v) paramlib"
  ceRange :: "'v \<Rightarrow> ('fld \<times> ('f, 'v) pvalue) list"
  ceFuel :: nat
  ceDescriptor :: "'v \<Rightarrow> 'msg"
  ceTexts :: "'fld texts"
  ceEncodeErr :: "encodeError \<Rightarrow> goError"
  ceTime :: "'f timelib"
  ceCodec :: "('fld, 'v) restCodec"
  ceMaxReadBytes :: int
  ceCompressorName :: "'c \<Rightarrow> string"
  ceCompressors :: "'c compressors"
  ceSendCompressor :: "'c option"
  ceDecompress :: "'c \<Rightarrow> reader \<Rightarrow> goError + reader"
  ceCompress :: "'c \<Rightarrow> goError + 'w"
  ceWrite :: "'w \<Rightarrow> string \<Rightarrow> string \<times> 'w \<times> goError option"
  ceCloseWriter :: "'w \<Rightarrow> string \<times> 'w \<times> goError option"
  ceBaseURL :: url
  ceURLUnescape :: "string \<Rightarrow> goError + string"
  ceBuildErr :: "string \<Rightarrow> url \<Rightarrow> goError option"
  ceDo :: "outRequest \<Rightarrow> goError + httpResponse"
  ceStatusText :: "nat \<Rightarrow> string"
  cePack :: "string \<Rightarrow> string \<Rightarrow> string + string \<times> string"

section \<open>The stream\<close>

record pipe =
  pipeData :: string
  pipeEnd :: "goError option"
  pipeReaderErr :: "goError option"

record ('mtd, 'typ, 'fld, 'w) clientStream =
  csRule :: "('mtd, 'typ, 'fld) routeTarget option"
  csSpec :: "'mtd spec"
  csInfo :: "clientInfo option"
  csCtxErr :: "goError option"
  csTimeLeft :: "int option"
  sendClosed :: bool
  reqURL :: "url option"
  csContentType :: string
  csBody :: string
  csPipe :: "pipe option"
  csRequest :: "outRequest option"
  csCompressWriter :: "'w option"
  received :: bool
  responded :: bool
  csClosed :: bool
  csResponse :: "httpResponse option"
  rawBody :: "nat option"
  csDispatch :: "goError option"
  csOpened :: "nat list"
  csCloseLog :: "nat list"

definition newClientStream ::
  "clientInfo option \<Rightarrow> goError option \<Rightarrow> int option \<Rightarrow> ('mtd, 'typ, 'fld) routeTarget option \<Rightarrow> 'mtd spec \<Rightarrow>
   ('mtd, 'typ, 'fld, 'w) clientStream"
where
  "newClientStream info ctxErr timeLeft rule sp =
     \<lparr>csRule = rule, csSpec = sp, csInfo = info, csCtxErr = ctxErr, csTimeLeft = timeLeft,
      sendClosed = False, reqURL = None, csContentType = [], csBody = [], csPipe = None, csRequest = None,
      csCompressWriter = None, received = False, responded = False, csClosed = False, csResponse = None,
      rawBody = None, csDispatch = None, csOpened = [], csCloseLog = []\<rparr>"

definition closeResponse :: "nat \<Rightarrow> ('mtd, 'typ, 'fld, 'w) clientStream \<Rightarrow> ('mtd, 'typ, 'fld, 'w) clientStream" where
  "closeResponse i s = s\<lparr>csCloseLog := csCloseLog s @ [i]\<rparr>"

section \<open>The outcome of a request\<close>

definition clientContextError :: "('mtd, 'typ, 'msg, 'fld, 'f, 'v, 'c, 'w) clientEnv \<Rightarrow> goError \<Rightarrow> goError" where
  "clientContextError E err = Conn (contextError (connText (ceTexts E)) err)"

definition doError ::
  "('mtd, 'typ, 'msg, 'fld, 'f, 'v, 'c, 'w) clientEnv \<Rightarrow> goError \<Rightarrow> ('mtd, 'typ, 'fld, 'w) clientStream \<Rightarrow> goError"
where
  "doError E err s =
     (case csCtxErr s of
        Some ctxErr \<Rightarrow> clientContextError E ctxErr
      | None \<Rightarrow> Conn (withCause err (newError CodeUnavailable (''http do: '' @ errorText (connText (ceTexts E)) err))))"

definition responseBody ::
  "('mtd, 'typ, 'msg, 'fld, 'f, 'v, 'c, 'w) clientEnv \<Rightarrow> httpResponse \<Rightarrow> goError + reader"
where
  "responseBody E resp =
     (let encoding = header_get (hrHeader resp) ''Content-Encoding'' in
      if encoding \<noteq> [] \<and> encoding \<noteq> CompressionNameIdentity then
        (case get (ceCompressors E) encoding of
           None \<Rightarrow>
             Inl (Conn (newError CodeInternal
               (''unknown encoding '' @ quoteText (ceTexts E) encoding @ '': accepted encodings are '' @
                names (ceCompressors E))))
         | Some compressor \<Rightarrow>
             (case ceDecompress E compressor (hrBody resp) of
                Inl err \<Rightarrow>
                  Inl (Conn (withCause err (newError CodeInternal
                    (''decompress response: '' @ errorText (connText (ceTexts E)) err))))
              | Inr body \<Rightarrow> Inr body))
      else Inr (hrBody resp))"

definition finishResponse ::
  "('mtd, 'typ, 'msg, 'fld, 'f, 'v, 'c, 'w) clientEnv \<Rightarrow> httpResponse \<Rightarrow> ('mtd, 'typ, 'fld, 'w) clientStream \<Rightarrow>
   (goError + httpResponse) \<times> ('mtd, 'typ, 'fld, 'w) clientStream"
where
  "finishResponse E resp s =
     (case responseBody E resp of
        Inl err \<Rightarrow> (Inl err, closeResponse (hrId resp) s)
      | Inr body \<Rightarrow>
          (let body = (if ceMaxReadBytes E > 0 then maxBytesReader (nat (ceMaxReadBytes E)) body else body);
               encoding = header_get (hrHeader resp) ''Content-Encoding'' in
           (Inr (resp\<lparr>hrBody := body\<rparr>),
            s\<lparr>csInfo := map_option (\<lambda>info.
                info\<lparr>ciResponseEncoding := (if encoding \<noteq> [] then encoding else CompressionNameIdentity),
                     ciResponseHeader :=
                       (\<lambda>k. case hrHeader resp k of Some vals \<Rightarrow> Some vals | None \<Rightarrow> ciResponseHeader info k)\<rparr>)
                (csInfo s)\<rparr>)))"

definition respond ::
  "('mtd, 'typ, 'msg, 'fld, 'f, 'v, 'c, 'w) clientEnv \<Rightarrow> goError + httpResponse \<Rightarrow>
   ('mtd, 'typ, 'fld, 'w) clientStream \<Rightarrow> ('mtd, 'typ, 'fld, 'w) clientStream"
where
  "respond E r s =
     (if responded s then
        (case r of Inl err \<Rightarrow> s | Inr resp \<Rightarrow> closeResponse (hrId resp) s)
      else
        (case r of
           Inl err \<Rightarrow> s\<lparr>csDispatch := Some err, responded := True\<rparr>
         | Inr resp \<Rightarrow>
             (case finishResponse E resp (s\<lparr>rawBody := Some (hrId resp)\<rparr>) of
                (Inl err, s) \<Rightarrow> s\<lparr>csDispatch := Some err, responded := True\<rparr>
              | (Inr resp, s) \<Rightarrow>
                  (let s = s\<lparr>csResponse := Some resp\<rparr>;
                       s = (if csClosed s then closeResponse (hrId resp) s else s)
                   in s\<lparr>csDispatch := None, responded := True\<rparr>))))"

definition requestDone :: "('mtd, 'typ, 'fld, 'w) clientStream \<Rightarrow> bool" where
  "requestDone s = responded s"

definition awaitResponse ::
  "('mtd, 'typ, 'msg, 'fld, 'f, 'v, 'c, 'w) clientEnv \<Rightarrow> ('mtd, 'typ, 'fld, 'w) clientStream \<Rightarrow>
   goError option progress"
where
  "awaitResponse E s =
     (if responded s then Returns (csDispatch s)
      else
        (case csCtxErr s of
           Some err \<Rightarrow> Returns (Some (clientContextError E err))
         | None \<Rightarrow> Blocks))"

section \<open>Building the request\<close>

definition joinPath :: "string \<Rightarrow> string \<Rightarrow> string" where
  "joinPath base suffix =
     (if base = [] then suffix
      else if last base = CHR ''/'' \<and> suffix \<noteq> [] \<and> hd suffix = CHR ''/'' then base @ tl suffix
      else if last base \<noteq> CHR ''/'' \<and> (suffix = [] \<or> hd suffix \<noteq> CHR ''/'') then base @ ''/'' @ suffix
      else base @ suffix)"

definition requestURL ::
  "('mtd, 'typ, 'msg, 'fld, 'f, 'v, 'c, 'w) clientEnv \<Rightarrow> 'v \<Rightarrow> ('mtd, 'typ, 'fld) routeTarget \<Rightarrow>
   (goError + url) option"
where
  "requestURL E msg target =
     (case httpEncodePathValues (ceFuel E) (ceReflect E) (ceLib E) (ceRange E) msg target of
        None \<Rightarrow> None
      | Some (Inl err) \<Rightarrow> Some (Inl (ceEncodeErr E err))
      | Some (Inr (path, query)) \<Rightarrow>
          (let u = ceBaseURL E; u = u\<lparr>urlEscapedPath := joinPath (urlEscapedPath u) path\<rparr> in
           case ceURLUnescape E (urlEscapedPath u) of
             Inl err \<Rightarrow> Some (Inl err)
           | Inr p \<Rightarrow>
               (let u = u\<lparr>urlPath := p\<rparr>; q = encodeValues query in
                Some (Inr
                  (if q = [] then u
                   else if urlRawQuery u = [] then u\<lparr>urlRawQuery := q\<rparr>
                   else u\<lparr>urlRawQuery := urlRawQuery u @ ''&'' @ q\<rparr>)))))"

definition requestHeader ::
  "('mtd, 'typ, 'msg, 'fld, 'f, 'v, 'c, 'w) clientEnv \<Rightarrow> ('mtd, 'typ, 'fld) routeTarget \<Rightarrow>
   ('mtd, 'typ, 'fld, 'w) clientStream \<Rightarrow> headers"
where
  "requestHeader E target s =
     (let h = (case csInfo s of None \<Rightarrow> (\<lambda>k. None) | Some info \<Rightarrow> setMetadataHeaders (\<lambda>k. None) (ciRequestHeader info));
          h = h(''X-Server-Timeout'' := None);
          h = (case csTimeLeft s of
                 Some timeout \<Rightarrow>
                   if timeout > 0 then header_set ''X-Server-Timeout'' (restEncodeTimeout (ceTime E) timeout) h else h
               | None \<Rightarrow> h);
          h = (if csContentType s \<noteq> [] then header_set ''Content-Type'' (csContentType s) h else h);
          h = (case ceSendCompressor E of
                 Some compressor \<Rightarrow>
                   if requestBodyFields target \<noteq> None
                   then header_set ''Content-Encoding'' (ceCompressorName E compressor) h else h
               | None \<Rightarrow> h);
          acceptEncoding = names (ceCompressors E);
          acceptEncoding = (if acceptEncoding = [] then CompressionNameIdentity else acceptEncoding);
          h = header_set ''Accept-Encoding'' acceptEncoding h
      in header_set ''Accept'' (''application/'' @ codecName (ceCodec E)) h)"

text \<open>The stream has a URL and a rule when \<open>newRequest\<close> is called; without one it would panic.\<close>

definition newRequest ::
  "('mtd, 'typ, 'msg, 'fld, 'f, 'v, 'c, 'w) clientEnv \<Rightarrow> string option \<Rightarrow> ('mtd, 'typ, 'fld) routeTarget \<Rightarrow> url \<Rightarrow>
   ('mtd, 'typ, 'fld, 'w) clientStream \<Rightarrow> goError + outRequest"
where
  "newRequest E body target u s =
     (case ceBuildErr E (httpMethod target) u of
        Some err \<Rightarrow>
          Inl (Conn (withCause err (newError CodeInternal
            (''build request: '' @ errorText (connText (ceTexts E)) err))))
      | None \<Rightarrow>
          Inr \<lparr>orMethod = httpMethod target, orURL = u, orHeader = requestHeader E target s, orBody = body\<rparr>)"

section \<open>Sending\<close>

definition clientOpenBody ::
  "('mtd, 'typ, 'msg, 'fld, 'f, 'v, 'c, 'w) clientEnv \<Rightarrow> ('mtd, 'typ, 'fld) routeTarget \<Rightarrow> url \<Rightarrow>
   ('mtd, 'typ, 'fld, 'w) clientStream \<Rightarrow> goError option \<times> ('mtd, 'typ, 'fld, 'w) clientStream"
where
  "clientOpenBody E target u s =
     (if requestBodyFields target = None then (None, s)
      else
        (let (err, s) =
           (if clientStreaming (streamType (csSpec s)) then
              (case newRequest E (Some []) target u s of
                 Inl err \<Rightarrow> (Some err, s)
               | Inr req \<Rightarrow>
                   (None, s\<lparr>csPipe := Some \<lparr>pipeData = [], pipeEnd = None, pipeReaderErr = None\<rparr>,
                            csRequest := Some req\<rparr>))
            else (None, s)) in
         case err of
           Some err \<Rightarrow> (Some err, s)
         | None \<Rightarrow>
             (case ceSendCompressor E of
                None \<Rightarrow> (None, s)
              | Some compressor \<Rightarrow>
                  (case ceCompress E compressor of
                     Inl err \<Rightarrow>
                       (Some (Conn (withCause err (newError CodeInternal
                          (''get compressor: '' @ errorText (connText (ceTexts E)) err)))), s)
                   | Inr w \<Rightarrow> (None, s\<lparr>csCompressWriter := Some w\<rparr>)))))"

text \<open>A write to the pipe or the buffer, and one through the compressor if there is one.\<close>

definition sinkWrite ::
  "string \<Rightarrow> ('mtd, 'typ, 'fld, 'w) clientStream \<Rightarrow> goError option \<times> ('mtd, 'typ, 'fld, 'w) clientStream"
where
  "sinkWrite data s =
     (case csPipe s of
        None \<Rightarrow> (None, s\<lparr>csBody := csBody s @ data\<rparr>)
      | Some p \<Rightarrow>
          (case pipeReaderErr p of
             Some err \<Rightarrow> (Some err, s)
           | None \<Rightarrow>
               if pipeEnd p \<noteq> None then (Some ErrClosedPipe, s)
               else (None, s\<lparr>csPipe := Some (p\<lparr>pipeData := pipeData p @ data\<rparr>)\<rparr>)))"

definition throughCompressor ::
  "string \<times> 'w \<times> goError option \<Rightarrow> ('mtd, 'typ, 'fld, 'w) clientStream \<Rightarrow>
   goError option \<times> ('mtd, 'typ, 'fld, 'w) clientStream"
where
  "throughCompressor r s =
     (let (out, w, err) = r; s = s\<lparr>csCompressWriter := Some w\<rparr> in
      if out = [] then (err, s)
      else (case sinkWrite out s of (Some e, s) \<Rightarrow> (Some e, s) | (None, s) \<Rightarrow> (err, s)))"

definition clientWrite ::
  "('mtd, 'typ, 'msg, 'fld, 'f, 'v, 'c, 'w) clientEnv \<Rightarrow> string \<Rightarrow> ('mtd, 'typ, 'fld, 'w) clientStream \<Rightarrow>
   goError option \<times> ('mtd, 'typ, 'fld, 'w) clientStream"
where
  "clientWrite E data s =
     (case csCompressWriter s of
        Some w \<Rightarrow> throughCompressor (ceWrite E w data) s
      | None \<Rightarrow> sinkWrite data s)"

definition startRequest ::
  "('mtd, 'typ, 'msg, 'fld, 'f, 'v, 'c, 'w) clientEnv \<Rightarrow> 'v \<Rightarrow> ('mtd, 'typ, 'fld) routeTarget \<Rightarrow>
   ('mtd, 'typ, 'fld, 'w) clientStream \<Rightarrow> goError option progress \<times> ('mtd, 'typ, 'fld, 'w) clientStream"
where
  "startRequest E pmsg target s =
     (case requestURL E pmsg target of
        None \<Rightarrow> (Blocks, s)
      | Some (Inl err) \<Rightarrow>
          (Returns (Some (Conn (wrapError (connText (ceTexts E)) CodeInvalidArgument ''encode request URL'' err))), s)
      | Some (Inr u) \<Rightarrow>
          (let s = s\<lparr>reqURL := Some u\<rparr>;
               s = (case requestBodyFields target of
                      None \<Rightarrow> s
                    | Some fs \<Rightarrow>
                        s\<lparr>csContentType :=
                            bodyContentType (ceReflect E) (ceLib E) (ceDescriptor E) fs pmsg (ceCodec E)\<rparr>);
               (err, s) = clientOpenBody E target u s
           in (Returns err, s)))"

definition sendBody ::
  "('mtd, 'typ, 'msg, 'fld, 'f, 'v, 'c, 'w) clientEnv \<Rightarrow> 'v \<Rightarrow> ('mtd, 'typ, 'fld) routeTarget \<Rightarrow>
   ('mtd, 'typ, 'fld, 'w) clientStream \<Rightarrow> goError option \<times> ('mtd, 'typ, 'fld, 'w) clientStream"
where
  "sendBody E pmsg target s =
     (case requestBodyFields target of
        None \<Rightarrow> (None, s)
      | Some fs \<Rightarrow>
          (case encodeBody (ceTexts E) (ceReflect E) (ceLib E) (ceDescriptor E) (clientWrite E) fs pmsg (ceCodec E) s of
             (None, s) \<Rightarrow> (None, s)
           | (Some err, s) \<Rightarrow>
               if errorsIs err ErrClosedPipe \<or> requestDone s then (Some EOF, s)
               else (Some (Conn (wrapError (connText (ceTexts E)) CodeInvalidArgument ''encode request body'' err)), s)))"

definition send ::
  "('mtd, 'typ, 'msg, 'fld, 'f, 'v, 'c, 'w) clientEnv \<Rightarrow> 'v anyMessage \<Rightarrow>
   ('mtd, 'typ, 'fld, 'w) clientStream \<Rightarrow> goError option progress \<times> ('mtd, 'typ, 'fld, 'w) clientStream"
where
  "send E msg s =
     (let first = (reqURL s = None) in
      if \<not> first \<and> \<not> clientStreaming (streamType (csSpec s))
      then (Returns (Some (OtherError ''vanguard: Send called more than once on REST unary stream'')), s)
      else
        (case msg of
           OtherType ty \<Rightarrow> (Returns (Some (OtherError (''vanguard: Send expects proto.Message, got '' @ ty))), s)
         | ProtoMessage pmsg \<Rightarrow>
             (case csRule s of
                None \<Rightarrow> (Returns (Some (Conn (newError CodeInternal (''no httpRule on '' @ Procedure (csSpec s))))), s)
              | Some target \<Rightarrow>
                  (case (if first then startRequest E pmsg target s else (Returns None, s)) of
                     (Returns None, s) \<Rightarrow> (let (err, s) = sendBody E pmsg target s in (Returns err, s))
                   | (r, s) \<Rightarrow> (r, s)))))"

definition clientSend ::
  "('mtd, 'typ, 'msg, 'fld, 'f, 'v, 'c, 'w) clientEnv \<Rightarrow> 'v anyMessage \<Rightarrow>
   ('mtd, 'typ, 'fld, 'w) clientStream \<Rightarrow> goError option progress \<times> ('mtd, 'typ, 'fld, 'w) clientStream"
where
  "clientSend E msg s =
     (if sendClosed s then (Returns (Some EOF), s)
      else
        (case send E msg s of
           (Returns (Some err), s) \<Rightarrow>
             if errorsIs err EOF then (Returns (Some err), s)
             else
               (let s = s\<lparr>csPipe := map_option
                            (\<lambda>p. p\<lparr>pipeEnd := (case pipeEnd p of None \<Rightarrow> Some err | Some e \<Rightarrow> Some e)\<rparr>) (csPipe s)\<rparr>
                in (Returns (Some err), respond E (Inl err) s))
         | (r, s) \<Rightarrow> (r, s)))"

section \<open>Finishing the request\<close>

definition finishWriter ::
  "('mtd, 'typ, 'msg, 'fld, 'f, 'v, 'c, 'w) clientEnv \<Rightarrow> ('mtd, 'typ, 'fld, 'w) clientStream \<Rightarrow>
   goError option \<times> ('mtd, 'typ, 'fld, 'w) clientStream"
where
  "finishWriter E s =
     (case csCompressWriter s of
        None \<Rightarrow> (None, s)
      | Some w \<Rightarrow>
          (case throughCompressor (ceCloseWriter E w) s of
             (Some err, s) \<Rightarrow>
               (if csPipe s = None
                then Some (Conn (withCause err (newError CodeInternal
                       (''compress request: '' @ errorText (connText (ceTexts E)) err))))
                else None, s)
           | (None, s) \<Rightarrow> (None, s)))"

definition doRequest ::
  "('mtd, 'typ, 'msg, 'fld, 'f, 'v, 'c, 'w) clientEnv \<Rightarrow> outRequest \<Rightarrow> ('mtd, 'typ, 'fld, 'w) clientStream \<Rightarrow>
   goError option \<times> ('mtd, 'typ, 'fld, 'w) clientStream"
where
  "doRequest E req s =
     (let s = s\<lparr>csRequest := Some req\<rparr> in
      case ceDo E req of
        Inl err \<Rightarrow> (Some (doError E err s), s)
      | Inr resp \<Rightarrow> (None, respond E (Inr resp) (s\<lparr>csOpened := csOpened s @ [hrId resp]\<rparr>)))"

definition finishSend ::
  "('mtd, 'typ, 'msg, 'fld, 'f, 'v, 'c, 'w) clientEnv \<Rightarrow> ('mtd, 'typ, 'fld, 'w) clientStream \<Rightarrow>
   goError option \<times> ('mtd, 'typ, 'fld, 'w) clientStream"
where
  "finishSend E s =
     (case (reqURL s, csRule s) of
        (Some u, Some target) \<Rightarrow>
          (let (err, s) = finishWriter E s in
           case err of
             Some err \<Rightarrow> (Some err, s)
           | None \<Rightarrow>
               (case csPipe s of
                  Some p \<Rightarrow>
                    (None, s\<lparr>csPipe := Some (p\<lparr>pipeEnd := (case pipeEnd p of None \<Rightarrow> Some EOF | Some e \<Rightarrow> Some e)\<rparr>)\<rparr>)
                | None \<Rightarrow>
                    (let body = (if requestBodyFields target \<noteq> None then Some (csBody s) else None) in
                     case newRequest E body target u s of
                       Inl err \<Rightarrow> (Some err, s)
                     | Inr req \<Rightarrow> doRequest E req s)))
      | _ \<Rightarrow> (Some (Conn (newError CodeInvalidArgument ''vanguard: CloseSend before Send on REST stream'')), s))"

definition closeSend ::
  "('mtd, 'typ, 'msg, 'fld, 'f, 'v, 'c, 'w) clientEnv \<Rightarrow> ('mtd, 'typ, 'fld, 'w) clientStream \<Rightarrow>
   goError option progress \<times> ('mtd, 'typ, 'fld, 'w) clientStream"
where
  "closeSend E s =
     (let s =
        (if sendClosed s then s
         else
           (case finishSend E (s\<lparr>sendClosed := True\<rparr>) of
              (Some err, s) \<Rightarrow> respond E (Inl err) s
            | (None, s) \<Rightarrow> s))
      in (awaitResponse E s, s))"

text \<open>The request goroutine of a client stream, when \<open>Do\<close> has returned.\<close>

definition requestReturns ::
  "('mtd, 'typ, 'msg, 'fld, 'f, 'v, 'c, 'w) clientEnv \<Rightarrow> goError + httpResponse \<Rightarrow>
   ('mtd, 'typ, 'fld, 'w) clientStream \<Rightarrow> ('mtd, 'typ, 'fld, 'w) clientStream"
where
  "requestReturns E r s =
     (case r of
        Inl err \<Rightarrow>
          (let s = respond E (Inl (doError E err s)) s
           in s\<lparr>csPipe := map_option
                (\<lambda>p. p\<lparr>pipeReaderErr := (case pipeReaderErr p of None \<Rightarrow> Some err | Some e \<Rightarrow> Some e)\<rparr>) (csPipe s)\<rparr>)
      | Inr resp \<Rightarrow> respond E (Inr resp) (s\<lparr>csOpened := csOpened s @ [hrId resp]\<rparr>))"

section \<open>Receiving\<close>

definition readError ::
  "('mtd, 'typ, 'msg, 'fld, 'f, 'v, 'c, 'w) clientEnv \<Rightarrow> goError \<Rightarrow> goError"
where
  "readError E err =
     (if errorsIs err MaxBytesError
      then Conn (newError CodeResourceExhausted (''response body exceeds '' @ decimal (ceMaxReadBytes E) @ '' bytes''))
      else Conn (withCause err (newError CodeUnavailable (''read response: '' @ errorText (connText (ceTexts E)) err))))"

definition wrapDecode :: "('mtd, 'typ, 'msg, 'fld, 'f, 'v, 'c, 'w) clientEnv \<Rightarrow> goError \<Rightarrow> goError" where
  "wrapDecode E err = Conn (wrapError (connText (ceTexts E)) CodeInternal ''decode response'' err)"

definition errorResponse ::
  "('mtd, 'typ, 'msg, 'fld, 'f, 'v, 'c, 'w) clientEnv \<Rightarrow> httpResponse \<Rightarrow> goError option"
where
  "errorResponse E resp =
     (case readAll (hrBody resp) of
        (body, Some err) \<Rightarrow> Some (readError E err)
      | (body, None) \<Rightarrow>
          map_option Conn
            (httpErrorFromResponse (unmarshalStatus (ceCodec E)) (ceStatusText E) (cePack E) (hrStatus resp)
               (header_get (hrHeader resp) ''Content-Type'') body))"

definition receiveChunk ::
  "('mtd, 'typ, 'msg, 'fld, 'f, 'v, 'c, 'w) clientEnv \<Rightarrow> ('mtd, 'typ, 'fld) routeTarget \<Rightarrow> httpResponse \<Rightarrow> 'v \<Rightarrow>
   ('mtd, 'typ, 'fld, 'w) clientStream \<Rightarrow> (goError option \<times> 'v) \<times> ('mtd, 'typ, 'fld, 'w) clientStream"
where
  "receiveChunk E target resp pmsg s =
     (let (r, body) = readChunk (hrBody resp);
          s = s\<lparr>csResponse := Some (resp\<lparr>hrBody := body\<rparr>)\<rparr> in
      case r of
        Inl err \<Rightarrow>
          ((Some (if errorsIs err EOF then EOF else readError E err), pmsg),
           closeResponse (hrId resp) (s\<lparr>received := True\<rparr>))
      | Inr data \<Rightarrow>
          (case setBodyHTTPBody (ceTexts E) (ceReflect E) (ceLib E) (ceDescriptor E)
                  (case responseBodyFields target of None \<Rightarrow> [] | Some fs \<Rightarrow> fs) pmsg
                  (header_get (hrHeader resp) ''Content-Type'') data of
             (Some err, pmsg) \<Rightarrow> ((Some (wrapDecode E err), pmsg), s)
           | (None, pmsg) \<Rightarrow> ((None, pmsg), s)))"

definition receiveMessage ::
  "('mtd, 'typ, 'msg, 'fld, 'f, 'v, 'c, 'w) clientEnv \<Rightarrow> ('mtd, 'typ, 'fld) routeTarget \<Rightarrow> httpResponse \<Rightarrow> 'v \<Rightarrow>
   goError option \<times> 'v"
where
  "receiveMessage E target resp pmsg =
     (case decodeBody (ceTexts E) (ceReflect E) (ceLib E) (ceDescriptor E) (hrBody resp)
             (header_get (hrHeader resp) ''Content-Type'')
             (case responseBodyFields target of None \<Rightarrow> [] | Some fs \<Rightarrow> fs) (ceCodec E) pmsg of
        (None, pmsg) \<Rightarrow> (None, pmsg)
      | (Some err, pmsg) \<Rightarrow>
          (Some (if errorsIs err MaxBytesError then readError E err else wrapDecode E err), pmsg))"

definition clientReceive ::
  "('mtd, 'typ, 'msg, 'fld, 'f, 'v, 'c, 'w) clientEnv \<Rightarrow> 'v anyMessage \<Rightarrow>
   ('mtd, 'typ, 'fld, 'w) clientStream \<Rightarrow>
   (goError option \<times> 'v anyMessage) progress \<times> ('mtd, 'typ, 'fld, 'w) clientStream"
where
  "clientReceive E msg s =
     (if received s then (Returns (Some EOF, msg), s)
      else
        (case awaitResponse E s of
           Blocks \<Rightarrow> (Blocks, s)
         | Panics \<Rightarrow> (Panics, s)
         | Returns (Some err) \<Rightarrow> (Returns (Some err, msg), s\<lparr>received := True\<rparr>)
         | Returns None \<Rightarrow>
             (case csResponse s of
                None \<Rightarrow> (Panics, s)
              | Some resp \<Rightarrow>
                  if hrStatus resp div 100 \<noteq> 2 then
                    (Returns (errorResponse E resp, msg), closeResponse (hrId resp) (s\<lparr>received := True\<rparr>))
                  else
                    (case (msg, csRule s) of
                       (OtherType ty, _) \<Rightarrow>
                         (Returns (Some (OtherError (''vanguard: Receive expects proto.Message, got '' @ ty)), msg), s)
                     | (ProtoMessage pmsg, None) \<Rightarrow> (Panics, s)
                     | (ProtoMessage pmsg, Some target) \<Rightarrow>
                         if serverStreaming (streamType (csSpec s)) then
                           (let ((err, pmsg), s) = receiveChunk E target resp pmsg s
                            in (Returns (err, ProtoMessage pmsg), s))
                         else
                           (let (err, pmsg) = receiveMessage E target resp pmsg
                            in (Returns (err, ProtoMessage pmsg), closeResponse (hrId resp) (s\<lparr>received := True\<rparr>)))))))"

text \<open>\<open>Close\<close> cancels the context of the call; a context that ended before keeps its error.\<close>

definition clientClose :: "('mtd, 'typ, 'fld, 'w) clientStream \<Rightarrow> ('mtd, 'typ, 'fld, 'w) clientStream" where
  "clientClose s =
     (let s = s\<lparr>csCtxErr := (case csCtxErr s of None \<Rightarrow> Some ContextCanceled | Some e \<Rightarrow> Some e), csClosed := True\<rparr> in
      case rawBody s of
        None \<Rightarrow> s
      | Some i \<Rightarrow> closeResponse i s)"

section \<open>The life of a stream\<close>

datatype 'v clientOp =
    ClientSend "'v anyMessage"
  | CloseSend
  | ClientReceive "'v anyMessage"
  | ClientClose
  | RequestReturns "goError + httpResponse"
  | ContextEnds goError
  | ReaderCloses goError

text \<open>
  The request goroutine may return any result once the request of a client stream was started;
  the code runs it once, the relation allows it more often.  The context may end and the
  transport may close its end of the pipe at any time.
\<close>

inductive client_step ::
  "('mtd, 'typ, 'msg, 'fld, 'f, 'v, 'c, 'w) clientEnv \<Rightarrow> ('mtd, 'typ, 'fld, 'w) clientStream \<Rightarrow>
   'v clientOp \<Rightarrow> goError option progress \<Rightarrow> ('mtd, 'typ, 'fld, 'w) clientStream \<Rightarrow> bool"
  for E where
  send: "clientSend E msg s = (r, s') \<Longrightarrow> client_step E s (ClientSend msg) r s'"
| closeSend: "closeSend E s = (r, s') \<Longrightarrow> client_step E s CloseSend r s'"
| receive: "clientReceive E msg s = (Returns (e, msg'), s') \<Longrightarrow> client_step E s (ClientReceive msg) (Returns e) s'"
| receive_blocks: "clientReceive E msg s = (Blocks, s') \<Longrightarrow> client_step E s (ClientReceive msg) Blocks s'"
| receive_panics: "clientReceive E msg s = (Panics, s') \<Longrightarrow> client_step E s (ClientReceive msg) Panics s'"
| close: "client_step E s ClientClose (Returns None) (clientClose s)"
| returns: "csPipe s \<noteq> None \<Longrightarrow> client_step E s (RequestReturns r) (Returns None) (requestReturns E r s)"
| ctx: "client_step E s (ContextEnds err) (Returns None)
      (s\<lparr>csCtxErr := (case csCtxErr s of None \<Rightarrow> Some err | Some e \<Rightarrow> Some e)\<rparr>)"
| reader: "client_step E s (ReaderCloses err) (Returns None)
      (s\<lparr>csPipe := map_option
            (\<lambda>p. p\<lparr>pipeReaderErr := (case pipeReaderErr p of None \<Rightarrow> Some err | Some e \<Rightarrow> Some e)\<rparr>) (csPipe s)\<rparr>)"

inductive client_run ::
  "('mtd, 'typ, 'msg, 'fld, 'f, 'v, 'c, 'w) clientEnv \<Rightarrow> ('mtd, 'typ, 'fld, 'w) clientStream \<Rightarrow>
   ('v clientOp \<times> goError option progress) list \<Rightarrow> ('mtd, 'typ, 'fld, 'w) clientStream \<Rightarrow> bool"
  for E where
  stop: "client_run E s [] s"
| step: "client_step E s op r s1 \<Longrightarrow> client_run E s1 log s' \<Longrightarrow> client_run E s ((op, r) # log) s'"

inductive_cases client_stepE: "client_step E s op r s'"

section \<open>Invariants\<close>

text \<open>What every operation keeps: a published outcome with its call information, and the log of closed bodies.\<close>

definition keeps :: "('mtd, 'typ, 'fld, 'w) clientStream \<Rightarrow> ('mtd, 'typ, 'fld, 'w) clientStream \<Rightarrow> bool" where
  "keeps s s' \<longleftrightarrow>
     csRule s' = csRule s \<and> csSpec s' = csSpec s \<and>
     (responded s \<longrightarrow> responded s' \<and> csDispatch s' = csDispatch s \<and> rawBody s' = rawBody s \<and> csInfo s' = csInfo s \<and>
        map_option (\<lambda>r. (hrId r, hrStatus r, hrHeader r)) (csResponse s') =
        map_option (\<lambda>r. (hrId r, hrStatus r, hrHeader r)) (csResponse s)) \<and>
     (sendClosed s \<longrightarrow> sendClosed s') \<and> (received s \<longrightarrow> received s') \<and>
     set (csCloseLog s) \<subseteq> set (csCloseLog s') \<and> set (csOpened s) \<subseteq> set (csOpened s') \<and>
     (csClosed s \<longrightarrow> csClosed s')"

text \<open>
  Every body that was handed out is closed or is the one \<open>Close\<close> will close, all of them are
  closed once the stream is closed and has its outcome, and an outcome without an error has
  a response.
\<close>

definition stream_ok :: "('mtd, 'typ, 'fld, 'w) clientStream \<Rightarrow> bool" where
  "stream_ok s \<longleftrightarrow>
     set (csOpened s) \<subseteq> set (csCloseLog s) \<union> set_option (rawBody s) \<and>
     (csClosed s \<and> responded s \<longrightarrow> set (csOpened s) \<subseteq> set (csCloseLog s)) \<and>
     (\<not> responded s \<longrightarrow> rawBody s = None) \<and>
     (responded s \<and> csDispatch s = None \<longrightarrow> csResponse s \<noteq> None)"

text \<open>Steps of the send side that publish nothing.\<close>

definition send_frame :: "('mtd, 'typ, 'fld, 'w) clientStream \<Rightarrow> ('mtd, 'typ, 'fld, 'w) clientStream \<Rightarrow> bool" where
  "send_frame s s' \<longleftrightarrow>
     csRule s' = csRule s \<and> csSpec s' = csSpec s \<and> csInfo s' = csInfo s \<and>
     responded s' = responded s \<and> csDispatch s' = csDispatch s \<and>
     rawBody s' = rawBody s \<and> csResponse s' = csResponse s \<and> (sendClosed s \<longrightarrow> sendClosed s') \<and>
     received s' = received s \<and> csCloseLog s' = csCloseLog s \<and> csOpened s' = csOpened s \<and> csClosed s' = csClosed s"

lemma send_frame_refl [simp]: "send_frame s s"
  and send_frame_trans: "send_frame s s1 \<Longrightarrow> send_frame s1 s2 \<Longrightarrow> send_frame s s2"
  by (auto simp: send_frame_def)

lemma send_frame_ok: "send_frame s s' \<Longrightarrow> keeps s s' \<and> (stream_ok s \<longrightarrow> stream_ok s')"
  by (simp add: send_frame_def keeps_def stream_ok_def)

lemma keeps_refl [simp]: "keeps s s"
  by (simp add: keeps_def)

lemma keeps_trans: "keeps s s1 \<Longrightarrow> keeps s1 s2 \<Longrightarrow> keeps s s2"
  unfolding keeps_def by (intro conjI impI) (auto dest: subsetD)

lemma sinkWrite_frame: "sinkWrite d s = (e, s') \<Longrightarrow> send_frame s s'"
  by (auto simp: sinkWrite_def send_frame_def split: option.splits if_splits)

lemma throughCompressor_frame: "throughCompressor r s = (e, s') \<Longrightarrow> send_frame s s'"
  using sinkWrite_frame [of _ "s\<lparr>csCompressWriter := _\<rparr>"]
  by (auto simp: throughCompressor_def Let_def send_frame_def split: prod.splits option.splits if_splits)

lemma clientWrite_frame: "clientWrite E d s = (e, s') \<Longrightarrow> send_frame s s'"
  by (auto simp: clientWrite_def split: option.splits dest: sinkWrite_frame throughCompressor_frame)

lemma sendBody_frame: "sendBody E pmsg target s = (e, s') \<Longrightarrow> send_frame s s'"
  by (auto simp: sendBody_def split: option.splits prod.splits if_splits dest!: encodeBody_sink clientWrite_frame)

lemma clientOpenBody_frame: "clientOpenBody E target u s = (e, s') \<Longrightarrow> send_frame s s'"
  by (auto simp: clientOpenBody_def Let_def send_frame_def split: prod.splits if_splits sum.splits option.splits)

lemma startRequest_frame:
  assumes "startRequest E pmsg target s = (r, s')"
  shows "send_frame s s'"
proof (cases "requestURL E pmsg target")
  case (Some eu)
  show ?thesis
  proof (cases eu)
    case (Inr u)
    define s1 where "s1 = (case requestBodyFields target of
        None \<Rightarrow> s\<lparr>reqURL := Some u\<rparr>
      | Some fs \<Rightarrow> s\<lparr>reqURL := Some u, csContentType :=
          bodyContentType (ceReflect E) (ceLib E) (ceDescriptor E) fs pmsg (ceCodec E)\<rparr>)"
    have "send_frame s s1"
      by (simp add: s1_def send_frame_def split: option.split)
    moreover obtain e where "clientOpenBody E target u s1 = (e, s')"
      using assms Some Inr by (cases "clientOpenBody E target u s1") (simp add: startRequest_def s1_def Let_def split: option.split_asm)
    ultimately show ?thesis
      using clientOpenBody_frame send_frame_trans by blast
  qed (use assms Some in \<open>auto simp: startRequest_def\<close>)
qed (use assms in \<open>auto simp: startRequest_def\<close>)

lemma send_send_frame:
  assumes "send E msg s = (r, s')"
  shows "send_frame s s'"
proof (cases "(reqURL s \<noteq> None \<and> \<not> clientStreaming (streamType (csSpec s))) \<or> (\<exists>ty. msg = OtherType ty) \<or> csRule s = None")
  case True
  then show ?thesis
    using assms by (auto simp: send_def Let_def split: if_splits anyMessage.splits option.splits)
next
  case False
  then obtain pmsg target where m: "msg = ProtoMessage pmsg" "csRule s = Some target"
    by (cases msg) auto
  obtain r1 s1 where st: "(if reqURL s = None then startRequest E pmsg target s else (Returns None, s)) = (r1, s1)"
    by fastforce
  have s1: "send_frame s s1"
    using st startRequest_frame by (metis (full_types) prod.inject send_frame_refl)
  obtain e2 s2 where b: "sendBody E pmsg target s1 = (e2, s2)" by fastforce
  have "s' = s1 \<or> s' = s2"
    using assms False m st b by (auto simp: send_def Let_def split: progress.splits option.splits)
  then show ?thesis
    using s1 sendBody_frame [OF b] send_frame_trans by blast
qed

lemma respond_ok:
  assumes "stream_ok s" and "case r of Inl err \<Rightarrow> o' = csOpened s | Inr resp \<Rightarrow> o' = csOpened s @ [hrId resp]"
  shows "stream_ok (respond E r (s\<lparr>csOpened := o'\<rparr>)) \<and> keeps s (respond E r (s\<lparr>csOpened := o'\<rparr>)) \<and>
    responded (respond E r (s\<lparr>csOpened := o'\<rparr>)) \<and> received (respond E r (s\<lparr>csOpened := o'\<rparr>)) = received s"
proof (cases r)
  case (Inl err)
  then show ?thesis
    using assms by (auto simp: respond_def stream_ok_def keeps_def)
next
  case (Inr resp)
  show ?thesis
  proof (cases "responded s")
    case True
    then show ?thesis
      using assms Inr by (auto simp: respond_def stream_ok_def keeps_def closeResponse_def)
  next
    case False
    then show ?thesis
      using assms Inr
      by (auto simp: respond_def finishResponse_def stream_ok_def keeps_def closeResponse_def Let_def split: sum.splits)
  qed
qed

definition moves :: "('mtd, 'typ, 'fld, 'w) clientStream \<Rightarrow> ('mtd, 'typ, 'fld, 'w) clientStream \<Rightarrow> bool" where
  "moves s s' \<longleftrightarrow> keeps s s' \<and> (stream_ok s \<longrightarrow> stream_ok s')"

lemma moves_refl [simp]: "moves s s"
  by (simp add: moves_def)

lemma moves_trans: "moves s s1 \<Longrightarrow> moves s1 s2 \<Longrightarrow> moves s s2"
  using keeps_trans by (auto simp: moves_def)

lemma frame_moves: "send_frame s s' \<Longrightarrow> moves s s'"
  using send_frame_ok by (auto simp: moves_def)

lemma respond_keeps: "keeps s (respond E r s)"
  by (auto simp: respond_def finishResponse_def keeps_def closeResponse_def Let_def split: sum.splits)

lemma respond_moves:
  "moves s (respond E (Inl err) s)"
  "moves s (respond E (Inr resp) (s\<lparr>csOpened := csOpened s @ [hrId resp]\<rparr>))"
proof -
  show "moves s (respond E (Inl err) s)"
    using respond_ok [where s = s and r = "Inl err" and o' = "csOpened s" and E = E] respond_keeps [of s E "Inl err"] by (simp add: moves_def)
  have "keeps s (s\<lparr>csOpened := csOpened s @ [hrId resp]\<rparr>)"
    by (auto simp: keeps_def)
  then have "keeps s (respond E (Inr resp) (s\<lparr>csOpened := csOpened s @ [hrId resp]\<rparr>))"
    using respond_keeps keeps_trans by blast
  then show "moves s (respond E (Inr resp) (s\<lparr>csOpened := csOpened s @ [hrId resp]\<rparr>))"
    using respond_ok [where s = s and r = "Inr resp" and o' = "csOpened s @ [hrId resp]" and E = E] by (simp add: moves_def)
qed

lemma pipe_frame: "send_frame s (s\<lparr>csPipe := p\<rparr>)" "send_frame s (s\<lparr>csRequest := q\<rparr>)"
  "send_frame s (s\<lparr>csCtxErr := c\<rparr>)" "send_frame s (s\<lparr>sendClosed := True\<rparr>)"
  by (simp_all add: send_frame_def)

lemma clientSend_moves:
  assumes "clientSend E msg s = (r, s')"
  shows "moves s s'"
proof (cases "sendClosed s")
  case False
  obtain r1 s1 where sd: "send E msg s = (r1, s1)" by fastforce
  have s1: "moves s s1"
    using send_send_frame [OF sd] by (rule frame_moves)
  show ?thesis
  proof (cases "\<exists>err. r1 = Returns (Some err) \<and> \<not> errorsIs err EOF")
    case True
    then obtain err where e: "r1 = Returns (Some err)" "\<not> errorsIs err EOF" by blast
    then have "\<exists>p. s' = respond E (Inl err) (s1\<lparr>csPipe := p\<rparr>)"
      using assms False sd by (auto simp: clientSend_def Let_def)
    then show ?thesis
      using s1 frame_moves [OF pipe_frame(1)] respond_moves(1) moves_trans by blast
  next
    case no: False
    then have "s' = s1"
      using assms False sd by (auto simp: clientSend_def Let_def split: progress.splits option.splits if_splits)
    then show ?thesis using s1 by simp
  qed
qed (use assms in \<open>simp add: clientSend_def\<close>)

lemma finishWriter_moves:
  assumes "finishWriter E s = (e, s')"
  shows "moves s s'"
proof (cases "csCompressWriter s")
  case (Some w)
  obtain e1 s1 where t: "throughCompressor (ceCloseWriter E w) s = (e1, s1)" by fastforce
  then have "s' = s1"
    using assms Some by (auto simp: finishWriter_def split: option.splits)
  then show ?thesis
    using throughCompressor_frame [OF t] frame_moves by blast
qed (use assms in \<open>simp add: finishWriter_def\<close>)

lemma doRequest_moves: "doRequest E req s = (e, s') \<Longrightarrow> moves s s'"
  using respond_moves(2) [of "s\<lparr>csRequest := Some req\<rparr>"] frame_moves [OF pipe_frame(2)] moves_trans
  by (fastforce simp: doRequest_def Let_def split: sum.splits)

lemma finishSend_moves:
  assumes "finishSend E s = (e, s')"
  shows "moves s s'"
proof (cases "reqURL s = None \<or> csRule s = None")
  case False
  then obtain u target where ut: "reqURL s = Some u" "csRule s = Some target" by auto
  obtain e1 s1 where w: "finishWriter E s = (e1, s1)" by fastforce
  have s1: "moves s s1" by (rule finishWriter_moves [OF w])
  have "moves s1 s'"
  proof (cases "e1 = None \<and> csPipe s1 = None")
    case True
    let ?body = "if requestBodyFields target \<noteq> None then Some (csBody s1) else None"
    show ?thesis
      using assms ut w True doRequest_moves
      by (cases "newRequest E ?body target u s1") (auto simp: finishSend_def Let_def)
  next
    case no: False
    then show ?thesis
      using assms ut w pipe_frame(1) [of s1] frame_moves
      by (auto simp: finishSend_def Let_def split: option.splits)
  qed
  then show ?thesis using s1 moves_trans by blast
qed (use assms in \<open>auto simp: finishSend_def split: option.splits\<close>)

lemma closeSend_moves:
  assumes "closeSend E s = (r, s')"
  shows "moves s s'"
proof (cases "sendClosed s")
  case False
  obtain e1 s1 where f: "finishSend E (s\<lparr>sendClosed := True\<rparr>) = (e1, s1)" by fastforce
  have s1: "moves s s1"
    using finishSend_moves [OF f] frame_moves [OF pipe_frame(4)] moves_trans by blast
  have "s' = (case e1 of None \<Rightarrow> s1 | Some err \<Rightarrow> respond E (Inl err) s1)"
    using assms False f by (auto simp: closeSend_def Let_def split: option.splits)
  then show ?thesis
    using s1 respond_moves(1) moves_trans by (cases e1) (simp, simp, blast)
qed (use assms in \<open>simp add: closeSend_def\<close>)

lemma requestReturns_moves: "moves s (requestReturns E r s)"
proof (cases r)
  case (Inl err)
  then show ?thesis
    using respond_moves(1) [of s E] frame_moves [OF pipe_frame(1)] moves_trans
    by (simp add: requestReturns_def Let_def) blast
next
  case (Inr resp)
  then show ?thesis using respond_moves(2) by (simp add: requestReturns_def)
qed

lemma receiveChunk_moves:
  "receiveChunk E target resp m s = (r, s') \<Longrightarrow> csResponse s = Some resp \<Longrightarrow> moves s s'"
  by (auto simp: receiveChunk_def Let_def moves_def keeps_def stream_ok_def closeResponse_def
      split: prod.splits sum.splits option.splits)

lemma received_moves: "moves s (s\<lparr>received := True\<rparr>)" "moves s (closeResponse i (s\<lparr>received := True\<rparr>))"
  by (auto simp: moves_def keeps_def stream_ok_def closeResponse_def)

lemma clientReceive_moves:
  assumes "clientReceive E msg s = (r, s')"
  shows "moves s s'"
proof (cases "received s \<or> awaitResponse E s \<noteq> Returns None \<or> csResponse s = None")
  case True
  then show ?thesis
    using assms received_moves(1) [of s]
    by (auto simp: clientReceive_def awaitResponse_def split: if_splits option.splits)
next
  case False
  then obtain resp where resp: "csResponse s = Some resp" by blast
  show ?thesis
  proof (cases "hrStatus resp div 100 \<noteq> 2 \<or> (\<exists>ty. msg = OtherType ty) \<or> csRule s = None")
    case True
    then show ?thesis
      using assms False resp received_moves(2) [of s]
      by (auto simp: clientReceive_def split: if_splits anyMessage.splits option.splits)
  next
    case no: False
    then obtain pmsg target where m: "msg = ProtoMessage pmsg" "csRule s = Some target"
      by (cases msg) auto
    show ?thesis
    proof (cases "serverStreaming (streamType (csSpec s))")
      case True
      obtain e m' s1 where c: "receiveChunk E target resp pmsg s = ((e, m'), s1)" by (metis surj_pair)
      then have "s' = s1"
        using assms False resp no m True by (simp add: clientReceive_def)
      then show ?thesis using receiveChunk_moves [OF c resp] by simp
    next
      case unary: False
      obtain e m' where "receiveMessage E target resp pmsg = (e, m')" by fastforce
      then have "s' = closeResponse (hrId resp) (s\<lparr>received := True\<rparr>)"
        using assms False resp no m unary by (simp add: clientReceive_def)
      then show ?thesis using received_moves(2) by simp
    qed
  qed
qed

lemma clientClose_moves: "moves s (clientClose s)"
  by (auto simp: clientClose_def Let_def moves_def keeps_def stream_ok_def closeResponse_def split: option.splits)

lemma step_moves: "client_step E s op r s' \<Longrightarrow> moves s s'"
proof (induction rule: client_step.induct)
  case (ctx s err)
  show ?case by (rule frame_moves [OF pipe_frame(3)])
next
  case (reader s err)
  show ?case by (rule frame_moves [OF pipe_frame(1)])
qed (use clientSend_moves closeSend_moves clientReceive_moves clientClose_moves requestReturns_moves in blast)+

lemma client_run_step: "client_run E s ((op, r) # log) s' \<Longrightarrow> \<exists>s1. client_step E s op r s1 \<and> client_run E s1 log s'"
  by (auto elim: client_run.cases)

lemma client_run_stop: "client_run E s [] s' \<Longrightarrow> s' = s"
  by (auto elim: client_run.cases)

interpretation client: framed_run "client_step E" "client_run E" moves
  for E :: "('mtd, 'typ, 'msg, 'fld, 'f, 'v, 'c, 'w) clientEnv"
  by unfold_locales (auto dest: client_run_stop client_run_step step_moves intro: moves_refl moves_trans)

lemma run_moves: "client_run E s log s' \<Longrightarrow> moves s s'"
  by (rule client.run_frame)

section \<open>Which calls return\<close>

lemma new_ok: "stream_ok (newClientStream info c t rule sp)"
  by (simp add: stream_ok_def newClientStream_def)

lemma clientReceive_returns:
  assumes "stream_ok s" and "csRule s \<noteq> None"
  shows "fst (clientReceive E msg s) \<noteq> Panics" and
    "received s \<or> responded s \<or> csCtxErr s \<noteq> None \<Longrightarrow> fst (clientReceive E msg s) \<noteq> Blocks"
proof -
  have resp: "csResponse s \<noteq> None" if "responded s" "csDispatch s = None"
    using assms(1) that by (simp add: stream_ok_def)
  then show "fst (clientReceive E msg s) \<noteq> Panics"
    using assms(2) by (auto simp: clientReceive_def awaitResponse_def Let_def split: option.split anyMessage.split prod.split)
  show "fst (clientReceive E msg s) \<noteq> Blocks" if "received s \<or> responded s \<or> csCtxErr s \<noteq> None"
    using that by (auto simp: clientReceive_def awaitResponse_def Let_def split: option.split anyMessage.split prod.split)
qed

lemma clientReceive_once:
  assumes "clientReceive E msg s = (Returns (None, msg'), s')" and "\<not> serverStreaming (streamType (csSpec s))"
  shows "\<not> received s \<and> received s'"
  using assms
  by (auto simp: clientReceive_def closeResponse_def Let_def
      split: if_splits progress.splits option.splits anyMessage.splits prod.splits)

definition ok_client_receives :: "('v clientOp \<times> goError option progress) list \<Rightarrow> nat" where
  "ok_client_receives log = length (filter (\<lambda>(op, r). case op of ClientReceive _ \<Rightarrow> r = Returns None | _ \<Rightarrow> False) log)"

definition is_client_receive :: "'v clientOp \<times> goError option progress \<Rightarrow> bool" where
  "is_client_receive = (\<lambda>(op, r). case op of ClientReceive _ \<Rightarrow> r = Returns None | _ \<Rightarrow> False)"

interpretation client_receives: spending_run "client_step E" "client_run E"
    "\<lambda>s. \<not> serverStreaming (streamType (csSpec s))" received is_client_receive
  for E :: "('mtd, 'typ, 'msg, 'fld, 'f, 'v, 'c, 'w) clientEnv"
proof
  fix s s1 :: "('mtd, 'typ, 'fld, 'w) clientStream" and op r
  assume s: "client_step E s op r s1" "\<not> serverStreaming (streamType (csSpec s))"
  have "keeps s s1"
    using step_moves [OF s(1)] by (simp add: moves_def)
  then show "\<not> serverStreaming (streamType (csSpec s1))" and "received s \<Longrightarrow> received s1"
    using s(2) by (simp_all add: keeps_def)
  show "\<not> received s \<and> received s1" if hit: "is_client_receive (op, r)"
  proof -
    obtain msg where "op = ClientReceive msg" "r = Returns None"
      using hit by (auto simp: is_client_receive_def split: clientOp.splits)
    with s show ?thesis
      by (elim client_step.cases) (auto dest: clientReceive_once)
  qed
qed

lemma run_client_receives:
  "client_run E s log s' \<Longrightarrow> \<not> serverStreaming (streamType (csSpec s)) \<Longrightarrow>
   ok_client_receives log \<le> (if received s then 0 else 1)"
  using client_receives.succeeds_once [of E s log s'] by (simp add: ok_client_receives_def is_client_receive_def)

section \<open>A client stream of bodies\<close>

definition clientBodyData :: "('mtd, 'typ, 'msg, 'fld, 'f, 'v, 'c, 'w) clientEnv \<Rightarrow> 'fld list \<Rightarrow> 'v \<Rightarrow> string" where
  "clientBodyData E fs m =
     getNamed (ceReflect E) (ceLib E) (ceDescriptor E) (foldl (childMessage (ceLib E)) m fs) ''data''"

definition clientBodyType :: "('mtd, 'typ, 'msg, 'fld, 'f, 'v, 'c, 'w) clientEnv \<Rightarrow> 'fld list \<Rightarrow> 'v \<Rightarrow> string" where
  "clientBodyType E fs m =
     getNamed (ceReflect E) (ceLib E) (ceDescriptor E) (foldl (childMessage (ceLib E)) m fs) ''content_type''"

definition body_message :: "('mtd, 'typ, 'msg, 'fld, 'f, 'v, 'c, 'w) clientEnv \<Rightarrow> 'fld list \<Rightarrow> 'v \<Rightarrow> bool" where
  "body_message E fs m \<longleftrightarrow>
     path_messages (ceReflect E) (ceLib E) (ceDescriptor E) m fs \<and> isHTTPBodyPath (ceReflect E) fs (ceDescriptor E m)"

text \<open>A caller that sends messages as long as no call fails.\<close>

primrec sendLoop ::
  "('mtd, 'typ, 'msg, 'fld, 'f, 'v, 'c, 'w) clientEnv \<Rightarrow> 'v list \<Rightarrow> ('mtd, 'typ, 'fld, 'w) clientStream \<Rightarrow>
   bool \<times> ('mtd, 'typ, 'fld, 'w) clientStream"
where
  "sendLoop E [] s = (True, s)"
| "sendLoop E (m # ms) s =
     (case clientSend E (ProtoMessage m) s of
        (Returns None, s) \<Rightarrow> sendLoop E ms s
      | (_, s) \<Rightarrow> (False, s))"

lemma encodeBody_http:
  assumes "path_messages R L D m fs" and "isHTTPBodyPath R fs (D m)"
  shows "encodeBody T R L D write fs m cd sink =
    write (getNamed R L D (foldl (childMessage L) m fs) ''data'') sink"
  using host_is_body [OF assms] by (simp add: encodeBody_def walk_messages [OF assms(1)] isHTTPBody_def)

section \<open>A server stream of bodies\<close>

primrec clientReceiveLoop ::
  "nat \<Rightarrow> ('mtd, 'typ, 'msg, 'fld, 'f, 'v, 'c, 'w) clientEnv \<Rightarrow> 'v \<Rightarrow> ('mtd, 'typ, 'fld, 'w) clientStream \<Rightarrow>
   'v list \<times> goError option"
where
  "clientReceiveLoop 0 E m0 s = ([], None)"
| "clientReceiveLoop (Suc n) E m0 s =
     (case clientReceive E (ProtoMessage m0) s of
        (Returns (None, ProtoMessage m), s) \<Rightarrow> (let (ms, e) = clientReceiveLoop n E m0 s in (m # ms, e))
      | (Returns (e, _), s) \<Rightarrow> ([], e)
      | (_, s) \<Rightarrow> ([], None))"

text \<open>A stream whose request succeeded, with the response body still to be read.\<close>

definition downloading ::
  "('mtd, 'typ, 'fld) routeTarget \<Rightarrow> httpResponse \<Rightarrow> ('mtd, 'typ, 'fld, 'w) clientStream \<Rightarrow> bool"
where
  "downloading target resp s \<longleftrightarrow>
     csRule s = Some target \<and> serverStreaming (streamType (csSpec s)) \<and> \<not> received s \<and>
     responded s \<and> csDispatch s = None \<and> csResponse s = Some resp \<and> hrStatus resp div 100 = 2"

lemma setBody_client:
  assumes "lawful_bodies (ceReflect E) (ceLib E) (ceDescriptor E)" and "body_message E fs m0"
  obtains m where "setBodyHTTPBody (ceTexts E) (ceReflect E) (ceLib E) (ceDescriptor E) fs m0 ct data = (None, m)"
    and "clientBodyData E fs m = data" and "clientBodyType E fs m = ct"
proof -
  let ?R = "ceReflect E" and ?L = "ceLib E" and ?D = "ceDescriptor E"
  have path: "path_messages ?R ?L ?D m0 fs" "isHTTPBodyPath ?R fs (?D m0)"
    using assms(2) by (simp_all add: body_message_def)
  let ?host = "foldl (childMessage ?L) m0 fs"
  let ?m = "putMessage ?L m0 fs (setHTTPBody ?R ?L ?D ?host ct data)"
  have "setBodyHTTPBody (ceTexts E) ?R ?L ?D fs m0 ct data = (None, ?m)"
    by (simp add: setBodyHTTPBody_def hostPath_def walk_messages [OF path(1)])
  moreover have "foldl (childMessage ?L) ?m fs = setHTTPBody ?R ?L ?D ?host ct data"
    using assms(1) by (intro foldl_putMessage) (simp add: lawful_bodies_def)
  ultimately show thesis
    using that setHTTPBody_get [OF assms(1) host_is_body [OF path], of ct data]
    by (simp add: clientBodyData_def clientBodyType_def)
qed

lemma clientReceiveLoop_chunks:
  assumes laws: "lawful_bodies (ceReflect E) (ceLib E) (ceDescriptor E)" and body: "body_message E fs m0"
    and fs: "responseBodyFields target = Some fs"
  shows "downloading target resp s \<Longrightarrow> readChunks n (hrBody resp) = (ds, Some EOF) \<Longrightarrow>
    \<exists>ms. clientReceiveLoop n E m0 s = (ms, Some EOF) \<and> map (clientBodyData E fs) ms = ds \<and>
      list_all (\<lambda>m. clientBodyType E fs m = header_get (hrHeader resp) ''Content-Type'') ms"
proof (induction n arbitrary: resp s ds)
  case (Suc n)
  obtain r b where rc: "readChunk (hrBody resp) = (r, b)" by fastforce
  let ?s = "s\<lparr>csResponse := Some (resp\<lparr>hrBody := b\<rparr>)\<rparr>"
  have recv: "clientReceive E (ProtoMessage m0) s =
      (let ((err, pmsg), s) = receiveChunk E target resp m0 s in (Returns (err, ProtoMessage pmsg), s))"
    using Suc.prems(1) by (simp add: clientReceive_def awaitResponse_def downloading_def)
  show ?case
  proof (cases r)
    case (Inl err)
    then have "err = EOF" "ds = []"
      using Suc.prems(2) rc by simp_all
    then show ?thesis
      using rc Inl by (simp add: recv receiveChunk_def Let_def)
  next
    case (Inr d)
    then obtain ds' where ds: "readChunks n b = (ds', Some EOF)" "ds = d # ds'"
      using Suc.prems(2) rc by (cases "readChunks n b") simp
    obtain m where m: "setBodyHTTPBody (ceTexts E) (ceReflect E) (ceLib E) (ceDescriptor E) fs m0
        (header_get (hrHeader resp) ''Content-Type'') d = (None, m)" "clientBodyData E fs m = d"
        "clientBodyType E fs m = header_get (hrHeader resp) ''Content-Type''"
      by (rule setBody_client [OF laws body])
    have one: "clientReceive E (ProtoMessage m0) s = (Returns (None, ProtoMessage m), ?s)"
      using rc Inr m(1) fs by (simp add: recv receiveChunk_def Let_def)
    have "downloading target (resp\<lparr>hrBody := b\<rparr>) ?s"
      using Suc.prems(1) by (simp add: downloading_def)
    from Suc.IH [OF this] ds(1) obtain ms
      where "clientReceiveLoop n E m0 ?s = (ms, Some EOF)" "map (clientBodyData E fs) ms = ds'"
        "list_all (\<lambda>m. clientBodyType E fs m = header_get (hrHeader resp) ''Content-Type'') ms"
      by auto
    then show ?thesis
      using one m(2,3) ds(2) by simp
  qed
qed simp

section \<open>A sample client\<close>

definition noURL :: url where
  "noURL = \<lparr>urlHost = ''http://a'', urlEscapedPath = [], urlPath = [], urlRawQuery = []\<rparr>"

definition sampleClient :: "(goError + httpResponse) \<Rightarrow> (string, unit, string, string, unit, typedMsg, unit, unit) clientEnv" where
  "sampleClient ans =
     \<lparr>ceReflect = uploadReflect, ceLib = uploadLib, ceRange = (\<lambda>m. []), ceFuel = 1, ceDescriptor = typeName,
      ceTexts = plainTexts, ceEncodeErr = (\<lambda>e. EOF),
      ceTime = \<lparr>parseSeconds = (\<lambda>s. ((), ErrSyntax)), secondsNaN = (\<lambda>x. False), secondsNegative = (\<lambda>x. False),
        secondsTooLong = (\<lambda>x. False), toDuration = (\<lambda>x. 0), formatSeconds = (\<lambda>n. [])\<rparr>,
      ceCodec = plainCodec, ceMaxReadBytes = 4194304, ceCompressorName = (\<lambda>c. ''gzip''),
      ceCompressors = newCompressors (\<lambda>c. ''gzip'') [()], ceSendCompressor = None, ceDecompress = (\<lambda>c r. Inr r),
      ceCompress = (\<lambda>c. Inr ()), ceWrite = (\<lambda>w s. (s, w, None)), ceCloseWriter = (\<lambda>w. ([], w, None)),
      ceBaseURL = noURL, ceURLUnescape = (\<lambda>s. Inr s), ceBuildErr = (\<lambda>m u. None), ceDo = (\<lambda>r. ans),
      ceStatusText = (\<lambda>n. []), cePack = (\<lambda>c s. Inl [])\<rparr>"

definition sampleResponse :: "string \<Rightarrow> httpResponse" where
  "sampleResponse data =
     \<lparr>hrId = 1, hrStatus = 200, hrHeader = [''Content-Type'' \<mapsto> [''image/png'']], hrBody = \<lparr>rdData = data, rdErr = EOF\<rparr>\<rparr>"

definition sampleCall :: "StreamType \<Rightarrow> (string, unit, string, unit) clientStream" where
  "sampleCall st =
     newClientStream None None None (Some ((upload_target st)\<lparr>responseBodyFields := Some [''file'']\<rparr>))
       (spec (sample_method ''Upload'' st))"

definition sentCall :: "StreamType \<Rightarrow> (string, unit, string, unit) clientStream" where
  "sentCall st =
     snd (closeSend (sampleClient (Inr (sampleResponse ''abc'')))
       (snd (clientSend (sampleClient (Inr (sampleResponse ''abc''))) (ProtoMessage uploadMsg) (sampleCall st))))"

lemma client_run_one: "client_step E s op r s' \<Longrightarrow> client_run E s [(op, r)] s'"
  by (rule client_run.step [OF _ client_run.stop])

lemma client_run_append: "client_run E s log s1 \<Longrightarrow> client_run E s1 log' s' \<Longrightarrow> client_run E s (log @ log') s'"
  by (induction rule: client_run.induct) (auto intro: client_run.step)

lemma sent_run:
  "\<exists>log. client_run (sampleClient (Inr (sampleResponse ''abc''))) (sampleCall st) log (sentCall st)"
proof -
  let ?E = "sampleClient (Inr (sampleResponse ''abc''))"
  obtain r1 s1 where a: "clientSend ?E (ProtoMessage uploadMsg) (sampleCall st) = (r1, s1)" by fastforce
  obtain r2 s2 where b: "closeSend ?E s1 = (r2, s2)" by fastforce
  have "client_run ?E (sampleCall st) [(ClientSend (ProtoMessage uploadMsg), r1), (CloseSend, r2)] s2"
    by (rule client_run.step [OF client_step.send [OF a] client_run_one [OF client_step.closeSend [OF b]]])
  moreover have "s2 = sentCall st"
    by (simp add: sentCall_def a b)
  ultimately show ?thesis by blast
qed

lemma sent_kept:
  "csSpec (sentCall st) = spec (sample_method ''Upload'' st)"
  "csRule (sentCall st) = Some ((upload_target st)\<lparr>responseBodyFields := Some [''file'']\<rparr>)"
proof -
  obtain log where run: "client_run (sampleClient (Inr (sampleResponse ''abc''))) (sampleCall st) log (sentCall st)"
    using sent_run by blast
  have "keeps (sampleCall st) (sentCall st)"
    using run_moves [OF run] by (simp add: moves_def)
  then show "csSpec (sentCall st) = spec (sample_method ''Upload'' st)"
    "csRule (sentCall st) = Some ((upload_target st)\<lparr>responseBodyFields := Some [''file'']\<rparr>)"
    by (simp_all add: keeps_def sampleCall_def newClientStream_def)
qed

text \<open>The stream once the request was sent and answered.\<close>

lemma sample_url:
  "requestURL (sampleClient ans) uploadMsg ((upload_target st)\<lparr>responseBodyFields := Some [''file'']\<rparr>) =
     Some (Inr (noURL\<lparr>urlEscapedPath := ''/v1/upload'', urlPath := ''/v1/upload''\<rparr>))"
proof -
  have "httpEncodePathValues 1 uploadReflect uploadLib (\<lambda>m. []) uploadMsg
      ((upload_target st)\<lparr>responseBodyFields := Some [''file'']\<rparr>) = Some (Inr (''/v1/upload'', []))"
  proof -
    have "httpEncodePathValues 1 uploadReflect uploadLib (\<lambda>m. []) uploadMsg
      ((upload_target StreamTypeUnary)\<lparr>responseBodyFields := Some [''file'']\<rparr>) = Some (Inr (''/v1/upload'', []))"
      by code_simp
    then show ?thesis
      by (simp add: httpEncodePathValues_def upload_target_def)
  qed
  moreover have "encodeValues [] = []"
    by code_simp
  ultimately show ?thesis
    by (simp add: requestURL_def sampleClient_def noURL_def joinPath_def)
qed

lemma upload_body: "body_message (sampleClient ans) [''file''] uploadMsg"
  using upload_path by (simp add: body_message_def sampleClient_def)

lemma upload_data: "clientBodyData (sampleClient ans) [''file''] uploadMsg = []"
  by (simp add: clientBodyData_def sampleClient_def getNamed_def childMessage_def uploadMsg_def uploadLib_def
      uploadReflect_def)

lemma sample_sent:
  assumes "\<not> clientStreaming st"
  shows "clientSend (sampleClient ans) (ProtoMessage uploadMsg) (sampleCall st) =
    (Returns None, (sampleCall st)\<lparr>reqURL := Some (noURL\<lparr>urlEscapedPath := ''/v1/upload'', urlPath := ''/v1/upload''\<rparr>),
       csContentType := bodyContentType uploadReflect uploadLib typeName [''file''] uploadMsg plainCodec\<rparr>)"
proof -
  let ?target = "(upload_target st)\<lparr>responseBodyFields := Some [''file'']\<rparr>"
  have "requestBodyFields ?target = Some [''file'']"
    by (simp add: upload_target_def)
  then show ?thesis
    using assms sample_url [of ans st] upload_body [of ans] upload_data [of ans]
    by (simp add: clientSend_def send_def startRequest_def sampleCall_def newClientStream_def sample_method_def
        clientOpenBody_def sendBody_def body_message_def clientBodyData_def encodeBody_http clientWrite_def sinkWrite_def
        sampleClient_def Let_def)
qed

lemma sample_answered:
  assumes "\<not> clientStreaming st"
  shows "responded (sentCall st) \<and> \<not> csClosed (sentCall st) \<and> \<not> received (sentCall st) \<and>
    csDispatch (sentCall st) = None \<and> csOpened (sentCall st) = [1] \<and> csResponse (sentCall st) = Some (sampleResponse ''abc'')"
  unfolding sentCall_def sample_sent [OF assms]
  by (simp add: closeSend_def finishSend_def finishWriter_def newRequest_def doRequest_def respond_def finishResponse_def
      responseBody_def sampleCall_def newClientStream_def sampleClient_def sampleResponse_def upload_target_def
      header_get_def maxBytesReader_def Let_def)

lemma not_client_streaming: "\<not> clientStreaming StreamTypeUnary" "\<not> clientStreaming StreamTypeServer"
  by (simp_all add: clientStreaming_def)

lemmas unary_answered = sample_answered [OF not_client_streaming(1)]

section \<open>Properties\<close>

text \<open>C11: A call has one outcome: once the outcome of a request is published, no later operation of
  the caller, of the request goroutine or of the context changes it, whatever their order;
  the response keeps its status and header, and CloseSend keeps returning the same error.\<close>

theorem outcome_is_final:
  assumes "client_run E s log s'" and "responded s"
  shows "responded s' \<and> csDispatch s' = csDispatch s \<and> fst (closeSend E s') = Returns (csDispatch s) \<and>
    map_option (\<lambda>r. (hrId r, hrStatus r, hrHeader r)) (csResponse s') =
    map_option (\<lambda>r. (hrId r, hrStatus r, hrHeader r)) (csResponse s)"
proof -
  have k: "keeps s s'"
    using run_moves [OF assms(1)] by (simp add: moves_def)
  obtain r s2 where c: "closeSend E s' = (r, s2)" by fastforce
  then have "keeps s' s2" "r = awaitResponse E s2"
    using closeSend_moves [OF c] by (simp_all add: moves_def) (auto simp: closeSend_def Let_def)
  then show ?thesis
    using k assms(2) c by (simp add: keeps_def awaitResponse_def)
qed

theorem outcome_is_final_witness:
  "fst (closeSend (sampleClient (Inr (sampleResponse ''abc''))) (clientClose (sentCall StreamTypeUnary))) =
     Returns (csDispatch (sentCall StreamTypeUnary))"
  using outcome_is_final [OF client_run_one [OF client_step.close] conjunct1 [OF unary_answered]] by blast

text \<open>C12: No response body leaks: whatever the order of the caller's operations, of the results of
  the request and of the end of the context, every response body that the HTTP client handed
  out is closed, or it is the one that Close will close; and once the stream is closed and
  the request has its outcome, all of them are closed, whichever of the two came first.\<close>

theorem no_response_leaks:
  assumes "client_run E (newClientStream info ctxErr timeLeft rule sp) log s"
  shows "set (csOpened s) \<subseteq> set (csCloseLog s) \<union> set_option (rawBody s) \<and>
    (csClosed s \<and> responded s \<longrightarrow> set (csOpened s) \<subseteq> set (csCloseLog s)) \<and>
    set (csOpened s) \<subseteq> set (csCloseLog (clientClose s))"
proof -
  have ok: "stream_ok s"
    using run_moves [OF assms] by (simp add: moves_def new_ok)
  then show ?thesis
    by (auto simp: stream_ok_def clientClose_def closeResponse_def Let_def split: option.split)
qed

theorem no_response_leaks_witness:
  "csOpened (sentCall StreamTypeUnary) = [1] \<and> set (csOpened (sentCall StreamTypeUnary)) \<subseteq>
     set (csCloseLog (clientClose (sentCall StreamTypeUnary)))"
proof -
  obtain log where run: "client_run (sampleClient (Inr (sampleResponse ''abc'')))
      (newClientStream None None None (Some ((upload_target StreamTypeUnary)\<lparr>responseBodyFields := Some [''file'']\<rparr>))
       (spec (sample_method ''Upload'' StreamTypeUnary))) log (sentCall StreamTypeUnary)"
    using sent_run [of StreamTypeUnary] unfolding sampleCall_def by blast
  then show ?thesis
    using no_response_leaks [OF run] unary_answered by blast
qed



text \<open>A unary call yields one response: whatever the order of operations, at most one Receive
  succeeds when the response is not streamed.\<close>

theorem client_receives_once:
  assumes "client_run E (newClientStream info ctxErr timeLeft rule sp) log s"
    and "\<not> serverStreaming (streamType sp)"
  shows "ok_client_receives log \<le> 1"
  using run_client_receives [OF assms(1)] assms(2) by (simp add: newClientStream_def split: if_splits)

theorem client_receives_once_witness:
  "\<exists>log s. client_run (sampleClient (Inr (sampleResponse ''abc''))) (sampleCall StreamTypeUnary) log s \<and>
     ok_client_receives log = 1"
proof -
  let ?E = "sampleClient (Inr (sampleResponse ''abc''))" and ?msg = "ProtoMessage uploadMsg"
  obtain log where run: "client_run ?E (sampleCall StreamTypeUnary) log (sentCall StreamTypeUnary)"
    using sent_run by blast
  obtain m s where "clientReceive ?E ?msg (sentCall StreamTypeUnary) = (Returns (None, m), s)"
    using unary_answered upload_path sent_kept [of StreamTypeUnary]
    by (simp add: clientReceive_def awaitResponse_def sampleResponse_def sample_method_def serverStreaming_def
        receiveMessage_def sampleClient_def decodeBody_http [OF upload_lawful] setBodyHTTPBody_def walk_messages)
  then have "client_run ?E (sentCall StreamTypeUnary) [(ClientReceive ?msg, Returns None)] s"
    by (intro client_run_one client_step.receive)
  then have all: "client_run ?E (sampleCall StreamTypeUnary) (log @ [(ClientReceive ?msg, Returns None)]) s"
    by (rule client_run_append [OF run])
  have "ok_client_receives (log @ [(ClientReceive ?msg, Returns None)]) \<le> 1"
    by (rule client_receives_once [OF all [unfolded sampleCall_def]]) (simp add: sample_method_def serverStreaming_def)
  then have "ok_client_receives (log @ [(ClientReceive ?msg, Returns None)]) = 1"
    by (simp add: ok_client_receives_def)
  then show ?thesis using all by blast
qed

text \<open>A download arrives complete: a caller that receives from a server stream whose body field
  is a google.api.HttpBody until the end gets, after at most one call for every 32 KiB and
  two more, messages whose data joins to exactly the response body, when the body ends
  regularly.\<close>

theorem download_complete:
  assumes "lawful_bodies (ceReflect E) (ceLib E) (ceDescriptor E)" and "body_message E fs m0"
    and "responseBodyFields target = Some fs" and "downloading target resp s" and "rdErr (hrBody resp) = EOF"
    and "length (rdData (hrBody resp)) div bodyChunkSize + 2 \<le> n"
  shows "\<exists>ms. clientReceiveLoop n E m0 s = (ms, Some EOF) \<and>
    concat (map (clientBodyData E fs) ms) = rdData (hrBody resp)"
proof -
  obtain ds where "readChunks n (hrBody resp) = (ds, Some EOF)" "concat ds = rdData (hrBody resp)"
    using readChunks_EOF [OF assms(5), of n] assms(6) by auto
  then show ?thesis
    using clientReceiveLoop_chunks [OF assms(1-3,4)] by blast
qed

theorem download_complete_witness:
  "\<exists>ms. clientReceiveLoop 2 (sampleClient (Inr (sampleResponse ''abc''))) uploadMsg (sentCall StreamTypeServer) =
      (ms, Some EOF) \<and> concat (map (clientBodyData (sampleClient (Inr (sampleResponse ''abc''))) [''file'']) ms) = ''abc''"
proof -
  let ?E = "sampleClient (Inr (sampleResponse ''abc''))" and ?s = "sentCall StreamTypeServer"
  let ?target = "(upload_target StreamTypeServer)\<lparr>responseBodyFields := Some [''file'']\<rparr>"
  have env: "ceReflect ?E = uploadReflect" "ceLib ?E = uploadLib" "ceDescriptor ?E = typeName"
    by (simp_all add: sampleClient_def)
  obtain resp where resp: "responded ?s" "csDispatch ?s = None" "\<not> received ?s" "csResponse ?s = Some resp"
      "hrStatus resp = 200" "hrBody resp = \<lparr>rdData = ''abc'', rdErr = EOF\<rparr>"
    using sample_answered [OF not_client_streaming(2)] by (simp add: sampleResponse_def)
  have down: "downloading ?target resp ?s"
    using resp sent_kept [of StreamTypeServer] by (simp add: downloading_def sample_method_def serverStreaming_def)
  have "lawful_bodies (ceReflect ?E) (ceLib ?E) (ceDescriptor ?E)" "body_message ?E [''file''] uploadMsg"
    using upload_lawful upload_path by (simp_all add: body_message_def env)
  from download_complete [OF this _ down, of 2] show ?thesis
    using resp(6) by (simp add: bodyChunkSize_def)
qed

end
