(* ===== verification/Transport.thy ===== *)
theory Transport
  imports ServeHTTP ClientStream
begin

text \<open>
  The transport: the second half of \<open>vanguard.go\<close> (\<open>NewTransport\<close>, \<open>NewClientStream\<close>), and what a
  transport and a server that are configured alike do together: the composition of the
  components of both sides.  \<open>url.Parse\<close> is an argument.
\<close>

section \<open>The transport\<close>

record ('mtd, 'typ, 'msg, 'fld, 'f, 'v, 'c, 'w, 'ext) transport =
  tEnv :: "('mtd, 'typ, 'msg, 'fld, 'f, 'v, 'c, 'w) clientEnv"
  tResolver :: "('typ, 'ext) typeResolver option"
  tRules :: "ruleSpec list"
  tMethods :: "('mtd, 'typ, 'fld) methodCache"

text \<open>\<open>E\<close> has the parts of the environment the options do not give.\<close>

definition NewTransport ::
  "(string \<Rightarrow> goError + url) \<Rightarrow> (('typ, 'ext) typeResolver option \<Rightarrow> ('fld, 'v) restCodec) \<Rightarrow> 'c \<Rightarrow>
   ('mtd, 'typ, 'msg, 'fld, 'f, 'v, 'c, 'w) clientEnv \<Rightarrow> string \<Rightarrow>
   ((('typ, 'ext) typeResolver, ('fld, 'v) restCodec, 'c) options \<Rightarrow>
    (('typ, 'ext) typeResolver, ('fld, 'v) restCodec, 'c) options) list \<Rightarrow>
   goError + ('mtd, 'typ, 'msg, 'fld, 'f, 'v, 'c, 'w, 'ext) transport"
where
  "NewTransport parse jsonCodec gzip E baseURL opts =
     (let cfg = foldl (\<lambda>cfg opt. opt cfg) (defaultOptions gzip) opts in
      case parse baseURL of
        Inl err \<Rightarrow> Inl (Wrapped (''parse baseURL: '' @ errorText (connText (ceTexts E)) err) err)
      | Inr parsed \<Rightarrow>
          (let cs = newCompressors (ceCompressorName E) (optCompressors cfg);
               name = sendCompression cfg;
               wanted = (name \<noteq> [] \<and> name \<noteq> CompressionNameIdentity);
               sendCompressor = (if wanted then get cs name else None) in
           if wanted \<and> sendCompressor = None
           then Inl (OtherError (''unknown compression '' @ quoteText (ceTexts E) name @
                  '': supported encodings are '' @ names cs))
           else
             Inr \<lparr>tEnv = E\<lparr>ceBaseURL := parsed, ceCodec := effectiveCodec jsonCodec cfg, ceCompressors := cs,
                            ceSendCompressor := sendCompressor, ceMaxReadBytes := optMaxReadBytes cfg\<rparr>,
                  tResolver = resolver cfg, tRules = optRules cfg, tMethods = (\<lambda>p. None)\<rparr>))"

text \<open>The call information of the caller, if there is any, is filled in for it to read.\<close>

definition NewClientStream ::
  "('svc, 'mtd, 'msg, 'fld, 'file, 'typ, 'ext) methodEnv \<Rightarrow>
   ('mtd, 'typ, 'msg, 'fld, 'f, 'v, 'c, 'w, 'ext) transport \<Rightarrow> 'mtd callInfo option \<Rightarrow> goError option \<Rightarrow> int option \<Rightarrow>
   'mtd spec \<Rightarrow>
   (('mtd, 'typ, 'fld) resolveError + 'mtd callInfo option \<times> ('mtd, 'typ, 'fld, 'w) clientStream) \<times>
   ('mtd, 'typ, 'msg, 'fld, 'f, 'v, 'c, 'w, 'ext) transport"
where
  "NewClientStream M t info ctxErr timeLeft sp =
     (let (r, cache) = resolveMethod M (tResolver t) (tRules t) (tMethods t) sp;
          t = t\<lparr>tMethods := cache\<rparr>; E = tEnv t in
      case r of
        Inl err \<Rightarrow> (Inl err, t)
      | Inr (m, target) \<Rightarrow>
          (let info = map_option (\<lambda>i.
                 i\<lparr>Spec := sp, PeerAddr := urlHost (ceBaseURL E), Protocol := ''rest'', Codec := codecName (ceCodec E),
                   RequestEncoding := encodingName (ceCompressorName E) (ceSendCompressor E)\<rparr>) info;
               ci = map_option (\<lambda>i.
                 \<lparr>ciRequestHeader = RequestHeader i, ciResponseEncoding = ResponseEncoding i,
                  ciResponseHeader = (\<lambda>k. None)\<rparr>) info
           in (Inr (info, newClientStream ci ctxErr timeLeft (Some target) sp), t)))"

section \<open>The path of a request\<close>

lemma path_slash:
  assumes "httpEncodePathValues fuel R L rng msg target = Some (Inr (path, query))"
    and "good_target R (p, v, m) target"
  shows "path \<noteq> [] \<and> hd path = CHR ''/''"
proof -
  have wf: "wf_pattern p"
    using assms(2) by (simp add: good_target_def)
  have "split_on CHR ''/'' (drop 1 (render p)) = p"
    using split_render wf wf_pattern_plain [OF wf] by (simp add: wf_pattern_def)
  then obtain c segs msg' vals where
    enc: "encodeVars R L (vars target) (\<lambda>_. 0) p msg = Inr (c, segs, msg', vals)" and path: "path = pathURL segs v"
    using httpEncodePathValues_Inr [OF assms(1) good_target_split [OF assms(2)]] by metis
  have "segs \<noteq> []"
    by (rule client_path(3) [OF assms(2) enc])
  then show ?thesis
    using path by (cases segs) (simp_all add: pathURL_def)
qed

text \<open>A base URL without a path, or with the root path, does not change the path of the rule.\<close>

definition root_base :: "url \<Rightarrow> bool" where
  "root_base u \<longleftrightarrow> urlEscapedPath u = [] \<or> urlEscapedPath u = ''/''"

lemma joinPath_root: "root_base u \<Longrightarrow> path \<noteq> [] \<Longrightarrow> hd path = CHR ''/'' \<Longrightarrow> joinPath (urlEscapedPath u) path = path"
  by (cases path) (auto simp: root_base_def joinPath_def)

lemma requestURL_path:
  assumes "requestURL E msg target = Some (Inr u)" and "root_base (ceBaseURL E)"
    and "good_target (ceReflect E) (p, v, m) target"
  obtains query where
    "httpEncodePathValues (ceFuel E) (ceReflect E) (ceLib E) (ceRange E) msg target = Some (Inr (urlEscapedPath u, query))"
    and "urlRawQuery u =
      (if encodeValues query = [] then urlRawQuery (ceBaseURL E)
       else if urlRawQuery (ceBaseURL E) = [] then encodeValues query
       else urlRawQuery (ceBaseURL E) @ ''&'' @ encodeValues query)"
proof -
  obtain path query where enc:
    "httpEncodePathValues (ceFuel E) (ceReflect E) (ceLib E) (ceRange E) msg target = Some (Inr (path, query))"
    using assms(1) by (auto simp: requestURL_def split: option.splits sum.splits)
  have "joinPath (urlEscapedPath (ceBaseURL E)) path = path"
    using joinPath_root [OF assms(2)] path_slash [OF enc assms(3)] by blast
  then show thesis
    using assms(1) enc by (intro that [of query]) (auto simp: requestURL_def Let_def split: sum.splits if_splits)
qed

lemma queryValues_join: "queryValues (a @ ''&'' @ b) = queryValues a @ queryValues b"
proof -
  have "split_on CHR ''&'' (a @ ''&'' @ b) = split_on CHR ''&'' a @ split_on CHR ''&'' b"
    using split_on_joined [of "CHR ''&''" a b] by simp
  then show ?thesis
    by (simp add: queryValues_def List.map_filter_def)
qed

lemma queryValues_Nil: "queryValues [] = []"
  by code_simp

lemma urlRawQuery_reads:
  "queryValues (if encodeValues query = [] then base
     else if base = [] then encodeValues query else base @ ''&'' @ encodeValues query) =
   queryValues base @ queryPairs query"
proof -
  have "queryValues (encodeValues query) = queryPairs query"
    by (simp add: encodeValues_def queryValues_encode)
  then show ?thesis
    using queryValues_join [of base "encodeValues query"] queryValues_Nil by auto
qed

section \<open>The first message fixes the URL\<close>

lemma sinkWrite_url: "sinkWrite d s = (e, s') \<Longrightarrow> reqURL s' = reqURL s"
  by (auto simp: sinkWrite_def split: option.splits if_splits)

lemma clientWrite_url: "clientWrite E d s = (e, s') \<Longrightarrow> reqURL s' = reqURL s"
  using sinkWrite_url [of _ "s\<lparr>csCompressWriter := _\<rparr>"]
  by (auto simp: clientWrite_def throughCompressor_def Let_def split: option.splits prod.splits if_splits dest: sinkWrite_url)

lemma sendBody_url: "sendBody E pmsg target s = (e, s') \<Longrightarrow> reqURL s' = reqURL s"
  by (auto simp: sendBody_def split: option.splits prod.splits if_splits dest!: encodeBody_sink clientWrite_url)

lemma clientOpenBody_url: "clientOpenBody E target u s = (e, s') \<Longrightarrow> reqURL s' = reqURL s"
  by (auto simp: clientOpenBody_def Let_def split: prod.splits if_splits sum.splits option.splits)

lemma clientSend_url:
  assumes "clientSend E (ProtoMessage msg) s = (Returns None, s')" and "reqURL s = None" and "csRule s = Some target"
  obtains u where "requestURL E msg target = Some (Inr u)" and "reqURL s' = Some u"
proof -
  have "send E (ProtoMessage msg) s = (Returns None, s')"
    using assms(1) by (auto simp: clientSend_def Let_def split: if_splits prod.splits progress.splits option.splits)
  then obtain s1 where st: "startRequest E msg target s = (Returns None, s1)" and b: "sendBody E msg target s1 = (None, s')"
    using assms(2,3) by (auto simp: send_def Let_def split: prod.splits progress.splits option.splits if_splits)
  obtain u where u: "requestURL E msg target = Some (Inr u)"
    using st by (auto simp: startRequest_def split: option.splits sum.splits)
  then have "reqURL s1 = Some u"
    using st by (auto simp: startRequest_def Let_def split: prod.splits option.splits dest!: clientOpenBody_url)
  then show thesis
    using that u sendBody_url [OF b] by simp
qed

section \<open>A transport and a server\<close>

abbreviation configured ::
  "'c \<Rightarrow> (('res, 'cd, 'c) options \<Rightarrow> ('res, 'cd, 'c) options) list \<Rightarrow> ('res, 'cd, 'c) options"
where
  "configured gzip opts \<equiv> foldl (\<lambda>cfg opt. opt cfg) (defaultOptions gzip) opts"

lemma Mount_Inr:
  assumes "Mount M order jsonCodec gzip H specs opts = Inr H'"
  obtains tab where "resolveMethods M order (resolver (configured gzip opts)) (optRules (configured gzip opts)) specs = Inr tab"
    and "hRoutes H' = mtRoutes tab"
  using assms by (auto simp: Mount_def Let_def split: sum.splits)

lemma NewTransport_Inr:
  assumes "NewTransport parse jsonCodec gzip E baseURL opts = Inr t"
  shows "tResolver t = resolver (configured gzip opts)" and "tRules t = optRules (configured gzip opts)"
    and "tMethods t = (\<lambda>p. None)" and "ceReflect (tEnv t) = ceReflect E" and "parse baseURL = Inr (ceBaseURL (tEnv t))"
  using assms by (auto simp: NewTransport_def Let_def split: sum.splits if_splits)

lemma NewClientStream_Inr:
  assumes "NewClientStream M t info ctxErr timeLeft sp = (Inr (info', s), t')"
  obtains m target cache where "resolveMethod M (tResolver t) (tRules t) (tMethods t) sp = (Inr (m, target), cache)"
    and "csRule s = Some target" and "reqURL s = None"
  using assms by (auto simp: NewClientStream_def newClientStream_def Let_def split: sum.splits prod.splits)


section \<open>A sample transport\<close>

definition bookCodec :: "(string, sampleMsg) restCodec" where
  "bookCodec =
     \<lparr>codecName = ''json'', unmarshalRead = (\<lambda>r m. (None, m)), unmarshalField = (\<lambda>s m f. (None, m)),
      marshalWrite = (\<lambda>m. Inr ''{}''), marshalAppendField = (\<lambda>m f. Inr ''{}''), marshalStatus = (\<lambda>s. statusMessage s),
      unmarshalStatus = (\<lambda>s. (\<lparr>statusCode = 0, statusMessage = s, statusDetails = []\<rparr>, False))\<rparr>"

definition bookClient :: "(string, unit, string, string, unit, sampleMsg, unit, unit) clientEnv" where
  "bookClient =
     \<lparr>ceReflect = sample, ceLib = sampleLib, ceRange = bookRange, ceFuel = 2, ceDescriptor = (\<lambda>m. ''Book''),
      ceTexts = plainTexts, ceEncodeErr = (\<lambda>e. EOF), ceTime = noTime, ceCodec = bookCodec, ceMaxReadBytes = 0,
      ceCompressorName = (\<lambda>c. ''gzip''), ceCompressors = newCompressors (\<lambda>c. ''gzip'') [], ceSendCompressor = None,
      ceDecompress = (\<lambda>c r. Inr r), ceCompress = (\<lambda>c. Inr ()), ceWrite = (\<lambda>w s. (s, w, None)),
      ceCloseWriter = (\<lambda>w. ([], w, None)), ceBaseURL = noURL, ceURLUnescape = (\<lambda>s. Inr s),
      ceBuildErr = (\<lambda>m u. None), ceDo = (\<lambda>r. Inl EOF), ceStatusText = (\<lambda>n. []), cePack = (\<lambda>c s. Inl [])\<rparr>"

definition bookTransport :: "(string, unit, string, string, unit, sampleMsg, unit, unit, unit) transport" where
  "bookTransport =
     \<lparr>tEnv = bookClient\<lparr>ceCompressors := newCompressors (\<lambda>c. ''gzip'') [()], ceMaxReadBytes := 4194304\<rparr>,
      tResolver = None, tRules = upload_rules, tMethods = (\<lambda>p. None)\<rparr>"

lemma book_transport:
  "NewTransport (\<lambda>s. Inr noURL) (\<lambda>r. bookCodec) () bookClient ''http://a'' [WithRules upload_rules] = Inr bookTransport"
  by (simp add: NewTransport_def bookTransport_def defaultOptions_def WithRules_def effectiveCodec_def bookClient_def Let_def)

lemma book_sent:
  "clientSend (tEnv bookTransport) (ProtoMessage (bookMsg ''s/1'' ''books/a%/b''))
     (newClientStream None None None (Some books_target) (spec (sample_method ''GetBook'' StreamTypeUnary))) =
   (Returns None, (newClientStream None None None (Some books_target) (spec (sample_method ''GetBook'' StreamTypeUnary)))
      \<lparr>reqURL := Some (noURL\<lparr>urlEscapedPath := ''/v1/s%2F1/books/a%25/b:read'', urlPath := ''/v1/s%2F1/books/a%25/b:read''\<rparr>)\<rparr>)"
proof -
  have fs: "requestBodyFields books_target = None"
    by code_simp
  have "encodeValues [] = []"
    by code_simp
  then have "requestURL (tEnv bookTransport) (bookMsg ''s/1'' ''books/a%/b'') books_target =
      Some (Inr (noURL\<lparr>urlEscapedPath := ''/v1/s%2F1/books/a%25/b:read'', urlPath := ''/v1/s%2F1/books/a%25/b:read''\<rparr>))"
    using books_encoded by (simp add: requestURL_def bookTransport_def bookClient_def noURL_def joinPath_def)
  then show ?thesis
    using fs by (simp add: clientSend_def send_def startRequest_def clientOpenBody_def sendBody_def newClientStream_def)
qed

lemma book_configured:
  "resolver (configured () [WithRules upload_rules]) = None"
  "optRules (configured () [WithRules upload_rules]) = upload_rules"
  by (simp_all add: defaultOptions_def WithRules_def)


end
