(* ===== verification/EndToEnd.thy ===== *)
theory EndToEnd
  imports Transport
begin

text \<open>
  A call from end to end: what one side writes is what the other side reads.  \<open>net/http\<close> stands
  between the two streams: \<open>arrives\<close> and \<open>delivered\<close> say what it hands over.
\<close>

section \<open>Between the two sides\<close>

text \<open>The headers the two sides set for each other.\<close>

definition callHeaders :: "string list" where
  "callHeaders = [''Content-Type'', ''Content-Encoding'', ''Accept-Encoding'', ''X-Server-Timeout'']"

definition arrives :: "outRequest \<Rightarrow> reader \<Rightarrow> request \<Rightarrow> bool" where
  "arrives req body q \<longleftrightarrow>
     rqMethod q = orMethod req \<and> rqEscapedPath q = urlEscapedPath (orURL req) \<and> rqRawQuery q = urlRawQuery (orURL req) \<and>
     list_all (\<lambda>k. rqHeader q k = orHeader req k) callHeaders \<and> rqBody q = body"

definition delivered :: "response \<Rightarrow> httpResponse \<Rightarrow> bool" where
  "delivered r resp \<longleftrightarrow>
     (case rspSent r of
        None \<Rightarrow> False
      | Some (st, h) \<Rightarrow> hrStatus resp = st \<and> list_all (\<lambda>k. hrHeader resp k = h k) callHeaders) \<and>
     hrBody resp = \<lparr>rdData = rspBody r, rdErr = EOF\<rparr>"

lemma delivered_header:
  "delivered r resp \<Longrightarrow> rspSent r = Some (st, h) \<Longrightarrow> k \<in> set callHeaders \<Longrightarrow>
   header_get (hrHeader resp) k = header_get h k"
  by (auto simp: delivered_def header_get_def list_all_iff)

lemma arrives_header:
  "arrives req body q \<Longrightarrow> k \<in> set callHeaders \<Longrightarrow> header_get (rqHeader q) k = header_get (orHeader req) k"
  by (simp add: arrives_def header_get_def list_all_iff)

text \<open>A response that is not encoded, within the limit, is read as it is.\<close>

lemma respond_plain:
  assumes "header_get (hrHeader resp) ''Content-Encoding'' \<in> {[], CompressionNameIdentity}"
    and "0 < ceMaxReadBytes E \<longrightarrow> int (length (rdData (hrBody resp))) \<le> ceMaxReadBytes E"
    and "\<not> responded s"
  shows "csResponse (respond E (Inr resp) s) = Some resp" and "csDispatch (respond E (Inr resp) s) = None"
    and "responded (respond E (Inr resp) s)" and "received (respond E (Inr resp) s) = received s"
    and "csRule (respond E (Inr resp) s) = csRule s" and "csSpec (respond E (Inr resp) s) = csSpec s"
proof -
  have "responseBody E resp = Inr (hrBody resp)"
    using assms(1) by (auto simp: responseBody_def)
  moreover have "(if 0 < ceMaxReadBytes E then maxBytesReader (nat (ceMaxReadBytes E)) (hrBody resp) else hrBody resp) = hrBody resp"
    using assms(2) by (auto simp: maxBytesReader_def)
  ultimately obtain info where "finishResponse E resp (s\<lparr>rawBody := Some (hrId resp)\<rparr>) =
      (Inr resp, s\<lparr>rawBody := Some (hrId resp), csInfo := info\<rparr>)"
    by (simp add: finishResponse_def Let_def)
  then show "csResponse (respond E (Inr resp) s) = Some resp" "csDispatch (respond E (Inr resp) s) = None"
    "responded (respond E (Inr resp) s)" "received (respond E (Inr resp) s) = received s"
    "csRule (respond E (Inr resp) s) = csRule s" "csSpec (respond E (Inr resp) s) = csSpec s"
    using assms(3) by (simp_all add: respond_def closeResponse_def Let_def)
qed

section \<open>An error\<close>

lemma receive_error:
  assumes "header_get (hrHeader resp) ''Content-Encoding'' \<in> {[], CompressionNameIdentity}"
    and "0 < ceMaxReadBytes E \<longrightarrow> int (length (rdData (hrBody resp))) \<le> ceMaxReadBytes E"
    and "\<not> responded s" and "\<not> received s" and "hrStatus resp div 100 \<noteq> 2" and "rdErr (hrBody resp) = EOF"
    and "httpErrorFromResponse (unmarshalStatus (ceCodec E)) (ceStatusText E) (cePack E) (hrStatus resp)
      (header_get (hrHeader resp) ''Content-Type'') (rdData (hrBody resp)) = Some cerr"
  shows "fst (clientReceive E msg (respond E (Inr resp) s)) = Returns (Some (Conn cerr), msg)"
  using respond_plain [OF assms(1-3)] assms(4-7)
  by (simp add: clientReceive_def awaitResponse_def errorResponse_def readAll_def)

text \<open>The handler of a request that is routed fails before anything was sent.\<close>

definition fails_early ::
  "('mtd, 'typ, 'msg, 'fld, 'f, 'v, 'c, 'w) restHandler \<Rightarrow> request \<Rightarrow> response \<Rightarrow> goError \<Rightarrow>
   ('mtd, 'typ, 'fld, 'c, 'w) serverStream \<Rightarrow> bool"
where
  "fails_early H q w err ss \<longleftrightarrow>
     handler_runs H \<and> fresh_response w \<and> \<not> committed ss \<and>
     (\<exists>target requestC responseC timeout. routed H q target requestC responseC timeout \<and>
        callHandler H q w target requestC responseC timeout = Some (Some err, ss))"

text \<open>The client reads the status message that the server writes for an error.\<close>

definition understands ::
  "('mtd2, 'typ2, 'msg2, 'fld2, 'f2, 'v2, 'c2, 'w2) clientEnv \<Rightarrow> ('mtd, 'typ, 'msg, 'fld, 'f, 'v, 'c, 'w) restHandler \<Rightarrow>
   connectError \<Rightarrow> bool"
where
  "understands E H cerr \<longleftrightarrow>
     (let data = marshalStatus (codec (hEnv H)) (grpcStatusFromError cerr) in
      code cerr \<noteq> 0 \<and> unmarshalStatus (ceCodec E) data = (grpcStatusFromError cerr, False) \<and>
      list_all (\<lambda>(ty, v). CHR ''/'' \<notin> set ty) (details cerr) \<and>
      (0 < ceMaxReadBytes E \<longrightarrow> int (length data) \<le> ceMaxReadBytes E))"

lemma error_delivered:
  assumes "fails_early H q w err ss" and "asConnectError (connText (texts (hEnv H))) err = cerr" and "understands E H cerr"
    and "\<not> responded s" and "\<not> received s"
  shows "\<exists>r st h. serveHTTP H q w = Answered r \<and> rspSent r = Some (st, h) \<and> 400 \<le> st \<and> st < 600 \<and>
    (\<forall>k vals. ssInfo ss k = Some vals \<and> k \<notin> set protocolHeaders \<longrightarrow> h k = Some vals) \<and>
    (\<forall>resp. delivered r resp \<longrightarrow>
       fst (clientReceive E msg (respond E (Inr resp) s)) =
         Returns (Some (Conn (ConnectError (code cerr) (message cerr) (details cerr) True None)), msg))"
proof -
  obtain target requestC responseC timeout where run: "handler_runs H" "fresh_response w" "routed H q target requestC responseC timeout"
      "callHandler H q w target requestC responseC timeout = Some (Some err, ss)" "\<not> committed ss"
    using assms(1) by (auto simp: fails_early_def)
  have st: "code cerr \<noteq> 0" "unmarshalStatus (ceCodec E) (marshalStatus (codec (hEnv H)) (grpcStatusFromError cerr)) =
      (grpcStatusFromError cerr, False)" "list_all (\<lambda>(ty, v). CHR ''/'' \<notin> set ty) (details cerr)"
    using assms(3) by (simp_all add: understands_def Let_def)
  note answer = failed_answer [where unmarshal = "unmarshalStatus (ceCodec E)" and cerr = cerr, OF run assms(2) st]
  obtain r st h where served: "serveHTTP H q w = Answered r" "rspSent r = Some (st, h)" "400 \<le> st" "st < 600"
    and meta: "\<forall>k vals. ssInfo ss k = Some vals \<and> k \<notin> set protocolHeaders \<longrightarrow> h k = Some vals"
    and ce: "header_get h ''Content-Encoding'' = ''identity''"
    and body: "rspBody r = marshalStatus (codec (hEnv H)) (grpcStatusFromError cerr)"
    using answer by blast
  have "fst (clientReceive E msg (respond E (Inr resp) s)) =
      Returns (Some (Conn (ConnectError (code cerr) (message cerr) (details cerr) True None)), msg)"
    if d: "delivered r resp" for resp
  proof (rule receive_error)
    show "header_get (hrHeader resp) ''Content-Encoding'' \<in> {[], CompressionNameIdentity}"
      using delivered_header [OF d served(2)] ce by (simp add: callHeaders_def CompressionNameIdentity_def)
    have resp: "hrStatus resp = st" "hrBody resp = \<lparr>rdData = rspBody r, rdErr = EOF\<rparr>"
      using d served(2) by (simp_all add: delivered_def)
    then show "0 < ceMaxReadBytes E \<longrightarrow> int (length (rdData (hrBody resp))) \<le> ceMaxReadBytes E" "rdErr (hrBody resp) = EOF"
      using assms(3) body by (simp_all add: understands_def Let_def)
    show "hrStatus resp div 100 \<noteq> 2"
      using served(3,4) resp(1) by simp
    show "httpErrorFromResponse (unmarshalStatus (ceCodec E)) (ceStatusText E) (cePack E) (hrStatus resp)
        (header_get (hrHeader resp) ''Content-Type'') (rdData (hrBody resp)) =
      Some (ConnectError (code cerr) (message cerr) (details cerr) True None)"
      using failed_answer [where unmarshal = "unmarshalStatus (ceCodec E)" and cerr = cerr and statusText = "ceStatusText E"
          and pack = "cePack E" and ctype = "header_get (hrHeader resp) ''Content-Type''", OF run assms(2) st] served resp
      by auto
  qed (use assms(4,5) in simp_all)
  then show ?thesis
    using served meta by blast
qed

text \<open>C7: An error travels from the handler to the caller: when a handler fails before anything was
  sent, ServeHTTP answers with an error status and all metadata the handler set except under
  the protocol's own keys, and a client stream that is handed this response returns from
  Receive an error with the same code, message and details, marked as remote, provided the
  codecs agree on the status message, the details carry plain type names and the body is
  within the client's limit.\<close>

theorem error_end_to_end:
  assumes "fails_early H q w err ss" and "asConnectError (connText (texts (hEnv H))) err = cerr" and "understands E H cerr"
    and "\<not> responded s" and "\<not> received s"
  shows "\<exists>r st h. serveHTTP H q w = Answered r \<and> rspSent r = Some (st, h) \<and> 400 \<le> st \<and> st < 600 \<and>
    (\<forall>k vals. ssInfo ss k = Some vals \<and> k \<notin> set protocolHeaders \<longrightarrow> h k = Some vals) \<and>
    (\<forall>resp. delivered r resp \<longrightarrow>
       fst (clientReceive E msg (respond E (Inr resp) s)) =
         Returns (Some (Conn (ConnectError (code cerr) (message cerr) (details cerr) True None)), msg))"
  by (rule error_delivered [OF assms])

section \<open>An upload\<close>

text \<open>A client stream whose request has started: the pipe holds the data sent so far.\<close>

definition upload_open ::
  "('mtd, 'typ, 'fld) routeTarget \<Rightarrow> outRequest \<Rightarrow> string \<Rightarrow> ('mtd, 'typ, 'fld, 'w) clientStream \<Rightarrow> bool"
where
  "upload_open target req data s \<longleftrightarrow>
     csRule s = Some target \<and> clientStreaming (streamType (csSpec s)) \<and> csCompressWriter s = None \<and>
     \<not> sendClosed s \<and> reqURL s \<noteq> None \<and> csRequest s = Some req \<and>
     (\<exists>p. csPipe s = Some p \<and> pipeData p = data \<and> pipeEnd p = None)"

lemma bodyContentType_http:
  assumes "path_messages R L D m fs" and "isHTTPBodyPath R fs (D m)"
  shows "bodyContentType R L D fs m cd = getNamed R L D (foldl (childMessage L) m fs) ''content_type''"
  using host_is_body [OF assms] by (simp add: bodyContentType_def walk_messages [OF assms(1)] isHTTPBody_def)

lemma sendBody_upload:
  assumes "upload_open target req data s" and "requestBodyFields target = Some fs" and "body_message E fs m"
    and "sendBody E m target s = (None, s')"
  shows "upload_open target req (data @ clientBodyData E fs m) s'"
proof -
  obtain p where p: "csPipe s = Some p" "pipeData p = data" "pipeEnd p = None"
    using assms(1) by (auto simp: upload_open_def)
  have "sinkWrite (clientBodyData E fs m) s = (None, s')"
    using assms encodeBody_http [of "ceReflect E" "ceLib E" "ceDescriptor E" m fs "ceTexts E" "clientWrite E" "ceCodec E" s]
    by (auto simp: sendBody_def body_message_def clientBodyData_def clientWrite_def upload_open_def
        split: prod.splits option.splits if_splits)
  then have "s' = s\<lparr>csPipe := Some (p\<lparr>pipeData := pipeData p @ clientBodyData E fs m\<rparr>)\<rparr>"
    using p(1) by (auto simp: sinkWrite_def split: option.splits if_splits)
  then show ?thesis
    using assms(1) p by (simp add: upload_open_def)
qed

lemma clientSend_next:
  assumes "upload_open target req data s" and "requestBodyFields target = Some fs" and "body_message E fs m"
    and "clientSend E (ProtoMessage m) s = (Returns None, s')"
  shows "upload_open target req (data @ clientBodyData E fs m) s'"
proof -
  have "send E (ProtoMessage m) s = (Returns None, s')"
    using assms(4) by (auto simp: clientSend_def Let_def split: if_splits prod.splits progress.splits option.splits)
  then have "sendBody E m target s = (None, s')"
    using assms(1) by (auto simp: send_def upload_open_def Let_def split: prod.splits)
  then show ?thesis
    by (rule sendBody_upload [OF assms(1-3)])
qed

lemma clientSend_first:
  assumes "reqURL s = None" and "csRule s = Some target" and "clientStreaming (streamType (csSpec s))"
    and "csCompressWriter s = None" and "ceSendCompressor E = None"
    and "requestBodyFields target = Some fs" and "body_message E fs m"
    and "clientSend E (ProtoMessage m) s = (Returns None, s')"
  obtains u req where "requestURL E m target = Some (Inr u)" and "upload_open target req (clientBodyData E fs m) s'"
    and "orURL req = u" and "orMethod req = httpMethod target"
    and "header_get (orHeader req) ''Content-Type'' = clientBodyType E fs m"
    and "header_get (orHeader req) ''Content-Encoding'' = []"
proof -
  have sc: "\<not> sendClosed s" and "send E (ProtoMessage m) s = (Returns None, s')"
    using assms(8) by (auto simp: clientSend_def Let_def split: if_splits prod.splits progress.splits option.splits)
  then obtain s1 where st: "startRequest E m target s = (Returns None, s1)" and b: "sendBody E m target s1 = (None, s')"
    using assms(1-3) by (auto simp: send_def Let_def split: prod.splits progress.splits option.splits if_splits)
  obtain u where u: "requestURL E m target = Some (Inr u)"
    using st by (auto simp: startRequest_def split: option.splits sum.splits)
  let ?s = "s\<lparr>reqURL := Some u, csContentType := clientBodyType E fs m\<rparr>"
  have ct: "bodyContentType (ceReflect E) (ceLib E) (ceDescriptor E) fs m (ceCodec E) = clientBodyType E fs m"
    using assms(7) bodyContentType_http [of "ceReflect E" "ceLib E" "ceDescriptor E" m fs]
    by (simp add: body_message_def clientBodyType_def)
  have o: "clientOpenBody E target u ?s = (None, s1)"
    using st u assms(6) ct by (auto simp: startRequest_def Let_def split: prod.splits)
  obtain req where req: "newRequest E (Some []) target u ?s = Inr req"
    and s1: "s1 = ?s\<lparr>csPipe := Some \<lparr>pipeData = [], pipeEnd = None, pipeReaderErr = None\<rparr>, csRequest := Some req\<rparr>"
    using o assms(3,5,6) by (auto simp: clientOpenBody_def Let_def split: sum.splits)
  have "upload_open target req [] s1"
    using assms(2-4) sc by (simp add: s1 upload_open_def)
  from sendBody_upload [OF this assms(6,7) b] have "upload_open target req (clientBodyData E fs m) s'"
    by simp
  moreover have "req = \<lparr>orMethod = httpMethod target, orURL = u, orHeader = requestHeader E target ?s, orBody = Some []\<rparr>"
    using req by (auto simp: newRequest_def split: option.splits)
  moreover have "header_get (requestHeader E target ?s) ''Content-Type'' = clientBodyType E fs m"
    "header_get (requestHeader E target ?s) ''Content-Encoding'' = []"
    using assms(5)
    by (simp_all add: requestHeader_def Let_def header_get_def header_set_def setMetadataHeaders_def protocolHeaders_def
        split: option.split)
  ultimately show thesis
    using that u by simp
qed

lemma sendLoop_open:
  assumes "requestBodyFields target = Some fs"
  shows "upload_open target req data s \<Longrightarrow> (\<forall>m \<in> set ms. body_message E fs m) \<Longrightarrow> sendLoop E ms s = (True, s') \<Longrightarrow>
    upload_open target req (data @ concat (map (clientBodyData E fs) ms)) s'"
proof (induction ms arbitrary: s data)
  case (Cons m ms)
  obtain s1 where c: "clientSend E (ProtoMessage m) s = (Returns None, s1)" and r: "sendLoop E ms s1 = (True, s')"
    using Cons.prems(3) by (auto split: prod.splits progress.splits option.splits)
  have "upload_open target req (data @ clientBodyData E fs m) s1"
    by (rule clientSend_next [OF Cons.prems(1) assms _ c]) (use Cons.prems(2) in simp)
  from Cons.IH [OF this _ r] show ?case
    using Cons.prems(2) by simp
qed simp

lemma closeSend_pipe:
  assumes "upload_open target req data s" and "closeSend E s = (r, s')"
  obtains p where "csPipe s' = Some p" and "pipeData p = data" and "pipeEnd p = Some EOF" and "csRequest s' = Some req"
proof -
  obtain p u where p: "csPipe s = Some p" "pipeData p = data" "pipeEnd p = None" "reqURL s = Some u"
    "csRule s = Some target" "csCompressWriter s = None" "\<not> sendClosed s" "csRequest s = Some req"
    using assms(1) by (auto simp: upload_open_def)
  have "s' = s\<lparr>sendClosed := True, csPipe := Some (p\<lparr>pipeEnd := Some EOF\<rparr>)\<rparr>"
    using assms(2) p by (auto simp: closeSend_def finishSend_def finishWriter_def Let_def)
  then show thesis
    using that p by simp
qed

text \<open>What the transport reads from the pipe.\<close>

definition pipeReader :: "pipe \<Rightarrow> reader" where
  "pipeReader p = \<lparr>rdData = pipeData p, rdErr = (case pipeEnd p of None \<Rightarrow> UnexpectedEOF | Some e \<Rightarrow> e)\<rparr>"

lemma upload_sent:
  assumes "requestBodyFields target = Some fs" and "ceSendCompressor E = None" and "clientStreaming (streamType sp)"
    and "\<forall>m \<in> set (m # ms). body_message E fs m"
    and "sendLoop E (m # ms) s0 = (True, s)" and "closeSend E s = (r, s')"
    and "s0 = newClientStream info ctxErr timeLeft (Some target) sp"
  obtains p req where "csPipe s' = Some p" and "csRequest s' = Some req"
    and "pipeReader p = \<lparr>rdData = concat (map (clientBodyData E fs) (m # ms)), rdErr = EOF\<rparr>"
    and "header_get (orHeader req) ''Content-Type'' = clientBodyType E fs m"
    and "header_get (orHeader req) ''Content-Encoding'' = []"
proof -
  have new: "reqURL s0 = None" "csRule s0 = Some target" "csSpec s0 = sp" "csCompressWriter s0 = None"
    by (simp_all add: assms(7) newClientStream_def)
  obtain s1 where c: "clientSend E (ProtoMessage m) s0 = (Returns None, s1)" and l: "sendLoop E ms s1 = (True, s)"
    using assms(5) by (auto split: prod.splits progress.splits option.splits)
  have body: "body_message E fs m"
    using assms(4) by simp
  obtain u req where up: "upload_open target req (clientBodyData E fs m) s1"
    and h: "header_get (orHeader req) ''Content-Type'' = clientBodyType E fs m"
      "header_get (orHeader req) ''Content-Encoding'' = []"
    using assms(3) new(3) by (auto elim: clientSend_first [OF new(1,2) _ new(4) assms(2,1) body c])
  have "upload_open target req (clientBodyData E fs m @ concat (map (clientBodyData E fs) ms)) s"
    by (rule sendLoop_open [OF assms(1) up _ l]) (use assms(4) in simp)
  then show thesis
    by (rule closeSend_pipe [OF _ assms(6)]) (use that h in \<open>simp add: pipeReader_def\<close>)
qed


section \<open>A sample upload\<close>

definition fileMsg :: "string \<Rightarrow> string \<Rightarrow> typedMsg" where
  "fileMsg ct data =
     TypedMsg ''Upload'' (\<lambda>f. VMessage (TypedMsg ''google.api.HttpBody''
       (\<lambda>g. if g = ''data'' then VBytes data else VString ct)))"

lemma file_body: "body_message (sampleClient ans) [''file''] (fileMsg ct data)"
  by (simp add: body_message_def sampleClient_def uploadReflect_def uploadLib_def fileMsg_def sample_def isHTTPBodyPath_def
      httpBodyTypeName_def Let_def)

lemma file_data: "clientBodyData (sampleClient ans) [''file''] (fileMsg ct data) = data"
    "clientBodyType (sampleClient ans) [''file''] (fileMsg ct data) = ct"
  by (simp_all add: clientBodyData_def clientBodyType_def sampleClient_def getNamed_def childMessage_def fileMsg_def
      uploadLib_def uploadReflect_def)

definition startedCall :: "(string, unit, string, unit) clientStream" where
  "startedCall = newClientStream None None None (Some (upload_target StreamTypeClient)) (spec (sample_method ''Upload'' StreamTypeClient))"

lemma file_url:
  "requestURL (sampleClient ans) (fileMsg ct data) (upload_target st) =
     Some (Inr (noURL\<lparr>urlEscapedPath := ''/v1/upload'', urlPath := ''/v1/upload''\<rparr>))"
proof -
  have e: "encodeVars R L [] counts segs msg = Inr (counts, segs, msg, [])" for R L counts segs msg
    by simp
  have "splitVerb ''/v1/upload'' = (''/v1/upload'', [])" "split_on CHR ''/'' ''v1/upload'' = [''v1'', ''upload'']"
    by code_simp+
  then have "httpEncodePathValues 1 uploadReflect uploadLib (\<lambda>m. []) (fileMsg ct data) (upload_target st) =
      Some (Inr (''/v1/upload'', []))"
    by (simp add: httpEncodePathValues_def upload_target_def pathURL_def e)
  moreover have "encodeValues [] = []"
    by code_simp
  ultimately show ?thesis
    by (simp add: requestURL_def sampleClient_def noURL_def joinPath_def)
qed

lemma file_sent:
  "\<exists>s. clientSend (sampleClient ans) (ProtoMessage (fileMsg ct data)) startedCall = (Returns None, s)"
proof -
  have "requestBodyFields (upload_target StreamTypeClient) = Some [''file'']"
    by (simp add: upload_target_def)
  moreover have "ceSendCompressor (sampleClient ans) = None" "ceBuildErr (sampleClient ans) = (\<lambda>m u. None)"
    by (simp_all add: sampleClient_def)
  ultimately show ?thesis
    using file_url [of ans ct data StreamTypeClient] file_body [of ans ct data]
    by (simp add: clientSend_def send_def startRequest_def startedCall_def newClientStream_def sample_method_def
        clientStreaming_def clientOpenBody_def newRequest_def sendBody_def body_message_def encodeBody_http clientWrite_def
        sinkWrite_def Let_def)
qed


section \<open>A sample error\<close>

definition errorClient :: "(string, unit, string, string, unit, typedMsg, unit, unit) clientEnv" where
  "errorClient = (sampleClient (Inl EOF))\<lparr>ceCodec := codec errorEnv\<rparr>"

definition deliveredResponse :: "response \<Rightarrow> httpResponse" where
  "deliveredResponse r =
     (case rspSent r of
        None \<Rightarrow> sampleResponse []
      | Some (st, h) \<Rightarrow> \<lparr>hrId = 1, hrStatus = st, hrHeader = h, hrBody = \<lparr>rdData = rspBody r, rdErr = EOF\<rparr>\<rparr>)"

lemma understood:
  "code cerr = CodeUnknown \<Longrightarrow> message cerr = [] \<Longrightarrow> details cerr = [] \<Longrightarrow> understands errorClient (sample_handler c e) cerr"
  by (simp add: understands_def errorClient_def sample_handler_def sampleClient_def errorEnv_def uploadEnv_def plainCodec_def
      grpcStatusFromError_def)

lemma sample_fails:
  "fails_early (sample_handler False (Some e)) upload_request emptyResponse e
     (startStream (upload_target StreamTypeUnary) (upload_request\<lparr>rqPattern := ''POST /v1/upload''\<rparr>) emptyResponse None None)"
proof -
  let ?H = "sample_handler False (Some e)"
  have route: "routed ?H upload_request (upload_target StreamTypeUnary) None None None"
    by code_simp
  show ?thesis
    unfolding fails_early_def
    by (intro conjI exI [of _ "upload_target StreamTypeUnary"] exI [of _ None] sample_runs sample_fresh route)
      (simp_all add: callHandler_def sample_handler_def upload_target_def committed_def startStream_def newServerStream_def
        Let_def)
qed

theorem error_end_to_end_witness:
  "case serveHTTP (sample_handler False (Some EOF)) upload_request emptyResponse of
     Answered r \<Rightarrow>
       fst (clientReceive errorClient (ProtoMessage uploadMsg)
         (respond errorClient (Inr (deliveredResponse r)) (sampleCall StreamTypeUnary))) =
       Returns (Some (Conn (ConnectError CodeUnknown [] [] True None)), ProtoMessage uploadMsg)
   | _ \<Rightarrow> False"
proof -
  let ?H = "sample_handler False (Some EOF)" and ?err = "ConnectError CodeUnknown [] [] False (Some EOF)"
  let ?ss = "startStream (upload_target StreamTypeUnary) (upload_request\<lparr>rqPattern := ''POST /v1/upload''\<rparr>)
      emptyResponse None None :: (string, unit, string, unit, unit) serverStream"
  have env: "hEnv ?H = errorEnv"
    by (simp add: sample_handler_def)
  note fails = sample_fails [of EOF]
  have "\<exists>r st h. serveHTTP ?H upload_request emptyResponse = Answered r \<and> rspSent r = Some (st, h) \<and> 400 \<le> st \<and> st < 600 \<and>
      (\<forall>k vals. ssInfo ?ss k = Some vals \<and> k \<notin> set protocolHeaders \<longrightarrow> h k = Some vals) \<and>
      (\<forall>resp. delivered r resp \<longrightarrow>
         fst (clientReceive errorClient (ProtoMessage uploadMsg) (respond errorClient (Inr resp) (sampleCall StreamTypeUnary))) =
         Returns (Some (Conn (ConnectError (code ?err) (message ?err) (details ?err) True None)), ProtoMessage uploadMsg))"
    by (rule error_end_to_end [OF fails])
      (simp_all add: env understood asConnectError_def withCause_def sampleCall_def newClientStream_def)
  then obtain r st h where r: "serveHTTP ?H upload_request emptyResponse = Answered r" "rspSent r = Some (st, h)" and
    recv: "\<And>resp. delivered r resp \<Longrightarrow>
      fst (clientReceive errorClient (ProtoMessage uploadMsg) (respond errorClient (Inr resp) (sampleCall StreamTypeUnary))) =
      Returns (Some (Conn (ConnectError (code ?err) (message ?err) (details ?err) True None)), ProtoMessage uploadMsg)"
    by blast
  then have "delivered r (deliveredResponse r)"
    by (simp add: delivered_def deliveredResponse_def list_all_iff)
  then show ?thesis
    using r recv by simp
qed

section \<open>A download\<close>

primrec serverSendLoop ::
  "('mtd, 'typ, 'msg, 'fld, 'f, 'v, 'c, 'w) serverEnv \<Rightarrow> 'v list \<Rightarrow> ('mtd, 'typ, 'fld, 'c, 'w) serverStream \<Rightarrow>
   bool \<times> ('mtd, 'typ, 'fld, 'c, 'w) serverStream"
where
  "serverSendLoop S [] s = (True, s)"
| "serverSendLoop S (m # ms) s =
     (case Send S (ProtoMessage m) s of
        (None, s) \<Rightarrow> serverSendLoop S ms s
      | (Some err, s) \<Rightarrow> (False, s))"

definition body_response :: "('mtd, 'typ, 'msg, 'fld, 'f, 'v, 'c, 'w) serverEnv \<Rightarrow> 'fld list \<Rightarrow> 'v \<Rightarrow> bool" where
  "body_response S fs m \<longleftrightarrow>
     path_messages (reflect S) (lib S) (Descriptor S) m fs \<and> isHTTPBodyPath (reflect S) fs (Descriptor S m)"

text \<open>A stream that answers without a compressor, with the data sent so far.\<close>

definition download_open :: "'fld list \<Rightarrow> string \<Rightarrow> ('mtd, 'typ, 'fld, 'c, 'w) serverStream \<Rightarrow> bool" where
  "download_open fs data s \<longleftrightarrow>
     serverStreaming (streamType (spec (ssMethod s))) \<and> responseBodyFields (ssTarget s) = Some fs \<and>
     responseCompressor s = None \<and> compressWriter s = None \<and> rspBody (ssResponse s) = data \<and> head_ok s"

lemma flushHeaders_plain:
  assumes "responseCompressor s = None"
  obtains s' where "flushHeaders E c s = (None, s')" and "headersSet s'" and "ssMethod s' = ssMethod s"
    and "ssTarget s' = ssTarget s" and "responseCompressor s' = None" and "compressWriter s' = compressWriter s"
    and "rspBody (ssResponse s') = rspBody (ssResponse s)"
    and "headersSet s \<longrightarrow> s' = s"
    and "\<not> headersSet s \<and> rspSent (ssResponse s) = None \<and> header_get (rspHeader (ssResponse s)) ''Content-Type'' \<noteq> [] \<longrightarrow>
      rspSent (ssResponse s') = Some (200, setMetadataHeaders (rspHeader (ssResponse s)) (ssInfo s))"
proof -
  obtain e s' where f: "flushHeaders E c s = (e, s')" by fastforce
  have ct: "header_get (setMetadataHeaders h i) ''Content-Type'' = header_get h ''Content-Type''" for h i
    by (simp add: setMetadataHeaders_def header_get_def protocolHeaders_def)
  show thesis
    by (rule that [of s']) (use f assms in
      \<open>auto simp: flushHeaders_def Let_def setHeader_def writeHeader_def ct split: if_splits\<close>)
qed

definition responseType :: "('mtd, 'typ, 'msg, 'fld, 'f, 'v, 'c, 'w) serverEnv \<Rightarrow> 'fld list \<Rightarrow> 'v \<Rightarrow> string" where
  "responseType S fs m =
     (let ct = getNamed (reflect S) (lib S) (Descriptor S) (foldl (childMessage (lib S)) m fs) ''content_type''
      in if ct = [] then ''application/octet-stream'' else ct)"

lemma setContentType_type:
  assumes "body_response S fs m" and "\<not> headersSet s"
  shows "header_get (rspHeader (ssResponse (setContentType S fs m s))) ''Content-Type'' = responseType S fs m"
    and "header_get (rspHeader (ssResponse (setContentType S fs m s))) ''Content-Encoding'' =
      header_get (rspHeader (ssResponse s)) ''Content-Encoding''"
  using assms bodyContentType_http [of "reflect S" "lib S" "Descriptor S" m fs "codec S"]
  by (simp_all add: body_response_def setContentType_def setHeader_def responseType_def Let_def)

lemma Send_download:
  assumes "download_open fs data s" and "body_response S fs m" and "Send S (ProtoMessage m) s = (None, s')"
  shows "download_open fs (data @ bodyData S fs m) s'" and "headersSet s'"
    and "headersSet s \<longrightarrow> rspSent (ssResponse s') = rspSent (ssResponse s)"
    and "\<not> headersSet s \<longrightarrow> (\<exists>h. rspSent (ssResponse s') = Some (200, h) \<and>
      header_get h ''Content-Type'' = responseType S fs m \<and>
      header_get h ''Content-Encoding'' = header_get (rspHeader (ssResponse s)) ''Content-Encoding'')"
proof -
  let ?s = "setContentType S fs m (s\<lparr>ssSent := True\<rparr>)"
  have s: "download_open fs data ?s"
    using assms(1) setContentType_evolves [of "s\<lparr>ssSent := True\<rparr>" S fs m]
    by (simp add: download_open_def setContentType_def setHeader_def head_ok_def Let_def)
  have sm: "sendMessage S True m (s\<lparr>ssSent := True\<rparr>) = (None, s')"
    using assms(1,3) by (simp add: Send_def download_open_def Let_def split: if_splits)
  have step: "evolves s s' \<and> head_ok s' \<and> headersSet s'"
    using Send_step [OF assms(3)] assms(1) by (simp add: download_open_def)
  then show "headersSet s'" and "headersSet s \<longrightarrow> rspSent (ssResponse s') = rspSent (ssResponse s)"
    by (simp_all add: evolves_def)
  obtain s1 where s1: "flushHeaders S (responseCompressor ?s \<noteq> None) ?s = (None, s1)" "compressWriter s1 = None"
      "rspBody (ssResponse s1) = data" "responseCompressor s1 = None"
      "\<not> headersSet ?s \<and> rspSent (ssResponse ?s) = None \<and> header_get (rspHeader (ssResponse ?s)) ''Content-Type'' \<noteq> [] \<longrightarrow>
        rspSent (ssResponse s1) = Some (200, setMetadataHeaders (rspHeader (ssResponse ?s)) (ssInfo ?s))"
    by (rule flushHeaders_plain [where s = ?s and E = S and c = "responseCompressor ?s \<noteq> None"])
      (use s in \<open>simp_all add: download_open_def\<close>)
  have "responseCompressor ?s = None" "responseCompressor s = None" "responseBodyFields (ssTarget s) = Some fs"
    using s assms(1) by (simp_all add: download_open_def)
  then obtain s2 where w: "writeResponse S (bodyData S fs m) None s1 = (None, s2)" and fl: "flushStream S s2 = (None, s')"
    using sm s1(1,2) assms(2) encodeBody_http [of "reflect S" "lib S" "Descriptor S" m fs "texts S" "streamWrite S" "codec S" s1]
    by (auto simp: sendMessage_def body_response_def bodyData_def streamWrite_def Let_def split: prod.splits option.splits)
  have s2: "rspBody (ssResponse s2) = data @ bodyData S fs m" "compressWriter s2 = None" "responseCompressor s2 = None"
    "rspSent (ssResponse s1) \<noteq> None \<longrightarrow> rspSent (ssResponse s2) = rspSent (ssResponse s1)"
    using w s1(2-4) by (auto simp: writeResponse_def writeBody_def Let_def split: option.splits)
  then have s': "rspBody (ssResponse s') = data @ bodyData S fs m" "compressWriter s' = None" "responseCompressor s' = None"
    "rspSent (ssResponse s2) \<noteq> None \<longrightarrow> rspSent (ssResponse s') = rspSent (ssResponse s2)"
    using fl by (auto simp: flushStream_def split: option.splits if_splits)
  then show "download_open fs (data @ bodyData S fs m) s'"
    using step assms(1) by (simp add: download_open_def evolves_def)
  show "\<not> headersSet s \<longrightarrow> (\<exists>h. rspSent (ssResponse s') = Some (200, h) \<and>
      header_get h ''Content-Type'' = responseType S fs m \<and>
      header_get h ''Content-Encoding'' = header_get (rspHeader (ssResponse s)) ''Content-Encoding'')"
  proof
    assume hs: "\<not> headersSet s"
    have "\<not> headersSet ?s" "rspSent (ssResponse ?s) = None"
      using hs s by (simp_all add: setContentType_def Let_def download_open_def head_ok_def)
    moreover have ct: "header_get (rspHeader (ssResponse ?s)) ''Content-Type'' = responseType S fs m"
      "header_get (rspHeader (ssResponse ?s)) ''Content-Encoding'' = header_get (rspHeader (ssResponse s)) ''Content-Encoding''"
      using setContentType_type [OF assms(2), of "s\<lparr>ssSent := True\<rparr>"] hs by simp_all
    moreover have "responseType S fs m \<noteq> []"
      by (simp add: responseType_def Let_def)
    ultimately have "rspSent (ssResponse s') = Some (200, setMetadataHeaders (rspHeader (ssResponse ?s)) (ssInfo ?s))"
      using s1(5) s2(4) s'(4) by simp
    then show "\<exists>h. rspSent (ssResponse s') = Some (200, h) \<and>
        header_get h ''Content-Type'' = responseType S fs m \<and>
        header_get h ''Content-Encoding'' = header_get (rspHeader (ssResponse s)) ''Content-Encoding''"
      using ct by (auto simp: setMetadataHeaders_def header_get_def protocolHeaders_def)
  qed
qed

lemma serverSendLoop_open:
  "download_open fs data s \<Longrightarrow> headersSet s \<Longrightarrow> list_all (body_response S fs) ms \<Longrightarrow> serverSendLoop S ms s = (True, s') \<Longrightarrow>
   download_open fs (data @ concat (map (bodyData S fs) ms)) s' \<and> headersSet s' \<and>
   rspSent (ssResponse s') = rspSent (ssResponse s)"
proof (induction ms arbitrary: s data)
  case (Cons m ms)
  obtain s1 where c: "Send S (ProtoMessage m) s = (None, s1)" and r: "serverSendLoop S ms s1 = (True, s')"
    using Cons.prems(4) by (auto split: prod.splits option.splits)
  have body: "body_response S fs m"
    using Cons.prems(3) by simp
  note one = Send_download [OF Cons.prems(1) body c]
  from Cons.IH [OF one(1,2) _ r] show ?case
    using Cons.prems(2,3) one(3) by simp
qed simp

lemma flushHeaders_empty:
  assumes "flushHeaders E False s = (e, s')" and "\<not> headersSet s"
  shows "e = None" and "compressWriter s' = compressWriter s" and "rspBody (ssResponse s') = rspBody (ssResponse s)"
    and "rspSent (ssResponse s) = None \<Longrightarrow> \<exists>h. rspSent (ssResponse s') = Some (200, h)"
  using assms by (auto simp: flushHeaders_def setHeader_def writeHeader_def Let_def split: if_splits)

text \<open>A handler that sends on a stream that has sent nothing yet, and then returns.\<close>

lemma served_from:
  assumes "fresh_response w" and "routed H q target requestC None timeout"
    and "callHandler H q w target requestC None timeout = Some (None, ss')"
    and "serverStreaming (streamType (spec (target_method target)))"
    and "download_open fs [] s" and "\<not> headersSet s"
    and "list_all (body_response (hEnv H) fs) ms" and "serverSendLoop (hEnv H) ms s = (True, ss')"
  obtains r h where "serveHTTP H q w = Answered r" and "rspSent r = Some (200, h)"
    and "rspBody r = concat (map (bodyData (hEnv H) fs) ms)"
    and "ms \<noteq> [] \<Longrightarrow> header_get h ''Content-Type'' = responseType (hEnv H) fs (hd ms)"
    and "ms \<noteq> [] \<Longrightarrow> header_get h ''Content-Encoding'' = header_get (rspHeader (ssResponse s)) ''Content-Encoding''"
proof -
  have served: "serveHTTP H q w = Answered (ssResponse (snd (close_stream (hEnv H) ss')))"
    using serveHTTP_routed [OF assms(1,2)] assms(3,4) by (simp add: finishCall_def)
  show thesis
  proof (cases ms)
    case Nil
    then have "ss' = s"
      using assms(8) by simp
    moreover obtain e s1 where f: "flushHeaders (hEnv H) False s = (e, s1)" by fastforce
    moreover have "e = None" "compressWriter s1 = None" "rspBody (ssResponse s1) = []"
        "\<exists>h. rspSent (ssResponse s1) = Some (200, h)"
      using flushHeaders_empty [OF f assms(6)] assms(5,6) by (simp_all add: download_open_def head_ok_def)
    ultimately show thesis
      using that [OF served] Nil by (auto simp: close_stream_def)
  next
    case (Cons m ms')
    obtain s1 where c: "Send (hEnv H) (ProtoMessage m) s = (None, s1)" and r: "serverSendLoop (hEnv H) ms' s1 = (True, ss')"
      using assms(8) Cons by (auto split: prod.splits option.splits)
    have body: "body_response (hEnv H) fs m" "list_all (body_response (hEnv H) fs) ms'"
      using assms(7) Cons by simp_all
    note one = Send_download [OF assms(5) body(1) c]
    have fin: "download_open fs (concat (map (bodyData (hEnv H) fs) ms)) ss'" "headersSet ss'"
      "rspSent (ssResponse ss') = rspSent (ssResponse s1)"
      using serverSendLoop_open [OF one(1,2) body(2) r] Cons by simp_all
    have "close_stream (hEnv H) ss' = (None, ss')"
      using fin by (simp add: close_stream_def flushHeaders_def download_open_def)
    then show thesis
      using that [of "ssResponse ss'"] served fin one(4) assms(6) Cons by (auto simp: download_open_def)
  qed
qed

lemma served_download:
  assumes "fresh_response w" and "routed H q target requestC None timeout"
    and "ss = startStream target (q\<lparr>rqPattern := pattern target\<rparr>) w requestC None"
    and "serverStreaming (streamType (spec (target_method target)))" and "responseBodyFields target = Some fs"
    and "list_all (body_response (hEnv H) fs) (m # ms)" and "serverSendLoop (hEnv H) (m # ms) ss = (True, ss')"
    and "callHandler H q w target requestC None timeout = Some (None, ss')"
  obtains r h where "serveHTTP H q w = Answered r" and "rspSent r = Some (200, h)"
    and "rspBody r = concat (map (bodyData (hEnv H) fs) (m # ms))"
    and "header_get h ''Content-Type'' = responseType (hEnv H) fs m"
    and "header_get h ''Content-Encoding'' = header_get (rspHeader w) ''Content-Encoding''"
proof -
  have ss: "download_open fs [] ss" "\<not> headersSet ss" "ssResponse ss = w"
    using assms(1,4,5) by (simp_all add: assms(3) download_open_def startStream_def newServerStream_def head_ok_def fresh_response_def)
  show thesis
  proof (rule served_from [OF assms(1,2,8,4) ss(1,2) assms(6,7)])
    fix r h
    assume "serveHTTP H q w = Answered r" and "rspSent r = Some (200, h)"
      and "rspBody r = concat (map (bodyData (hEnv H) fs) (m # ms))"
      and "m # ms \<noteq> [] \<Longrightarrow> header_get h ''Content-Type'' = responseType (hEnv H) fs (hd (m # ms))"
      and "m # ms \<noteq> [] \<Longrightarrow>
        header_get h ''Content-Encoding'' = header_get (rspHeader (ssResponse ss)) ''Content-Encoding''"
    then show thesis
      using that [of r h] by (simp add: ss(3))
  qed
qed


section \<open>A sample download\<close>

definition download_routes :: "(string, unit, string) routeTarget routeTrie" where
  "download_routes =
     snd (addRoute (uploadReflect\<lparr>Output := (\<lambda>m. ''Upload'')\<rparr>) (sample_method ''Upload'' StreamTypeServer)
       \<lparr>Selector = [], Pattern = HttpRule_Post ''/v1/upload'', Body = ''file'', ResponseBody = ''file''\<rparr> emptyTrie)"

definition download_target :: "(string, unit, string) routeTarget" where
  "download_target = (upload_target StreamTypeServer)\<lparr>responseBodyFieldPath := ''file'', responseBodyFields := Some [''file'']\<rparr>"

definition sampleFiles :: "typedMsg list" where
  "sampleFiles = [fileMsg ''text/plain'' ''ab'', fileMsg [] ''c'']"

definition download_handler :: "(string, unit, string, string, unit, typedMsg, unit, unit) restHandler" where
  "download_handler =
     (sample_handler False None)\<lparr>hEnv := uploadEnv, hRoutes := download_routes,
       hCall := (\<lambda>p info t s. Some (None, snd (serverSendLoop uploadEnv sampleFiles s)))\<rparr>"

lemma file_response: "body_response uploadEnv [''file''] (fileMsg ct data)"
    "bodyData uploadEnv [''file''] (fileMsg ct data) = data"
    "responseType uploadEnv [''file''] (fileMsg ct data) = (if ct = [] then ''application/octet-stream'' else ct)"
  by (simp_all add: body_response_def uploadEnv_def uploadReflect_def uploadLib_def fileMsg_def sample_def isHTTPBodyPath_def
      httpBodyTypeName_def bodyData_def responseType_def getNamed_def childMessage_def Let_def)

text \<open>In the sample environment no write fails.\<close>

lemma plain_Send:
  assumes "download_open [''file''] d s" and "body_response uploadEnv [''file''] m"
  obtains s' where "Send uploadEnv (ProtoMessage m) s = (None, s')"
proof -
  let ?s = "setContentType uploadEnv [''file''] m (s\<lparr>ssSent := True\<rparr>)"
  have c: "responseCompressor ?s = None" "responseCompressor s = None" "compressWriter ?s = None"
    using assms by (simp_all add: download_open_def setContentType_def Let_def)
  obtain s1 where f: "flushHeaders uploadEnv False ?s = (None, s1)" "compressWriter s1 = None"
    by (rule flushHeaders_plain [where s = ?s and E = uploadEnv and c = False]) (use c in simp_all)
  have "path_messages uploadReflect uploadLib typeName m [''file'']" "isHTTPBodyPath uploadReflect [''file''] (typeName m)"
    using assms(2) by (simp_all add: body_response_def uploadEnv_def)
  then have "\<exists>s'. Send uploadEnv (ProtoMessage m) s = (None, s')"
    using assms(1) c f
    by (simp add: Send_def download_open_def sendMessage_def uploadEnv_def encodeBody_http streamWrite_def writeResponse_def
        flushStream_def Let_def)
  then show thesis
    using that by blast
qed

lemma sample_loop:
  "download_open [''file''] d s \<Longrightarrow> list_all (\<lambda>m. \<exists>ct data. m = fileMsg ct data) ms \<Longrightarrow>
   fst (serverSendLoop uploadEnv ms s)"
proof (induction ms arbitrary: s d)
  case (Cons m ms)
  then obtain ct data where m: "m = fileMsg ct data"
    by auto
  obtain s1 where s1: "Send uploadEnv (ProtoMessage (fileMsg ct data)) s = (None, s1)"
    by (rule plain_Send [OF Cons.prems(1) file_response(1)])
  from Send_download(1) [OF Cons.prems(1) file_response(1) s1] Cons show ?case
    by (simp add: m s1)
qed simp

definition receivedFiles :: "(string, unit, string, unit) clientStream" where
  "receivedFiles = newClientStream None None None (Some download_target) (spec (sample_method ''Upload'' StreamTypeServer))"


end
