(* ===== verification/Forward.thy ===== *)
theory Forward
  imports EndToEnd
begin

text \<open>
  Relaying calls to another server: \<open>forward.go\<close>.  The handler runs two loops at once, the
  goroutine of \<open>forwardRequests\<close> and its own \<open>forwardResponses\<close>, on the two streams of the call.
  The state of the handler is where each loop stands (\<open>reqPhase\<close>, \<open>rspPhase\<close>) and what they
  share; a step is one call on a stream or one action on what is shared, and the steps of the
  two loops interleave in any order.  The streams are the record \<open>peers\<close>: their operations as
  relations, which hold of a call, its result and the stream after it (a call that blocks is
  one without a result).  \<open>reqTaken\<close>, \<open>reqGiven\<close>, \<open>rspTaken\<close> and \<open>rspGiven\<close> list what was
  received from and sent to the streams, and \<open>rspEnd\<close> the error that ended the responses.
\<close>

section \<open>Metadata and errors\<close>

definition hopByHopHeaders :: "string list" where
  "hopByHopHeaders =
     [''Connection'', ''Content-Length'', ''Host'', ''Keep-Alive'', ''Proxy-Authenticate'',
      ''Proxy-Authorization'', ''Te'', ''Trailer'', ''Transfer-Encoding'', ''Upgrade'']"

definition copyHeader :: "headers \<Rightarrow> headers \<Rightarrow> headers" where
  "copyHeader dst src =
     (\<lambda>key. if List.member hopByHopHeaders key then dst key
            else (case src key of Some vals \<Rightarrow> Some vals | None \<Rightarrow> dst key))"

definition forwardError :: "goError option \<Rightarrow> goError option" where
  "forwardError err =
     (case err of
        None \<Rightarrow> None
      | Some e \<Rightarrow>
          (case asType e of
             None \<Rightarrow> Some e
           | Some connectErr \<Rightarrow>
               Some (Conn (foldl (\<lambda>forwarded detail. withDetail detail forwarded)
                 (newError (code connectErr) (message connectErr)) (details connectErr)))))"

definition errorsJoin :: "(connectError \<Rightarrow> string) \<Rightarrow> goError option \<Rightarrow> goError option \<Rightarrow> goError option" where
  "errorsJoin ct a b =
     (case (a, b) of
        (None, None) \<Rightarrow> None
      | (Some e, None) \<Rightarrow> Some (Wrapped (errorText ct e) e)
      | (None, Some e) \<Rightarrow> Some (Wrapped (errorText ct e) e)
      | (Some e, Some e') \<Rightarrow> Some (Joined e e'))"

section \<open>The methods of a proxy\<close>

datatype idempotency = IdempotencyUnknown | IdempotencyNoSideEffects | IdempotencyIdempotent

text \<open>The options of a method, when they are \<open>descriptorpb.MethodOptions\<close>.\<close>

datatype idempotencyLevel = IDEMPOTENCY_UNKNOWN | NO_SIDE_EFFECTS | IDEMPOTENT

record 'mtd methodlib =
  ParentName :: "'mtd \<Rightarrow> string"
  MtdName :: "'mtd \<Rightarrow> string"
  IsStreamingClient :: "'mtd \<Rightarrow> bool"
  IsStreamingServer :: "'mtd \<Rightarrow> bool"
  Idempotency :: "'mtd \<Rightarrow> idempotencyLevel option"

record 'mtd fullSpec = "'mtd spec" +
  IdempotencyLevel :: idempotency

definition specFromDescriptor :: "'mtd methodlib \<Rightarrow> 'mtd \<Rightarrow> 'mtd fullSpec" where
  "specFromDescriptor D desc =
     \<lparr>Procedure = ''/'' @ ParentName D desc @ ''/'' @ MtdName D desc,
      streamType =
        (if IsStreamingClient D desc then (if IsStreamingServer D desc then StreamTypeBidi else StreamTypeClient)
         else if IsStreamingServer D desc then StreamTypeServer else StreamTypeUnary),
      Schema = Some desc,
      IdempotencyLevel =
        (case Idempotency D desc of
           Some NO_SIDE_EFFECTS \<Rightarrow> IdempotencyNoSideEffects
         | Some IDEMPOTENT \<Rightarrow> IdempotencyIdempotent
         | _ \<Rightarrow> IdempotencyUnknown)\<rparr>"

text \<open>A relayed method: its spec and the message types its handler instantiates.\<close>

record ('mtd, 'typ) forwarded =
  fwSpec :: "'mtd fullSpec"
  requestType :: 'typ
  responseType :: 'typ

definition Forward ::
  "'mtd methodlib \<Rightarrow> ('svc, 'mtd, 'msg, 'fld, 'file, 'typ, 'ext) methodEnv \<Rightarrow> 'mtd \<Rightarrow> ('mtd, 'typ) forwarded option"
where
  "Forward D M desc =
     (case (case meParent M desc of
              None \<Rightarrow> Some (GlobalTypes (meRegistries M))
            | Some service \<Rightarrow> resolverForService (meDepth M) (meReflect M) (meFiles M) (meRegistries M) service) of
        None \<Rightarrow> None
      | Some types \<Rightarrow>
          Some \<lparr>fwSpec = specFromDescriptor D desc,
                requestType = messageType M types (Input (meReflect M) desc),
                responseType = messageType M types (Output (meReflect M) desc)\<rparr>)"

definition ForwardService ::
  "'mtd methodlib \<Rightarrow> ('svc, 'mtd, 'msg, 'fld, 'file, 'typ, 'ext) methodEnv \<Rightarrow> 'svc \<Rightarrow> ('mtd, 'typ) forwarded option list"
where
  "ForwardService D M service = map (Forward D M) (Methods (meRegistries M) service)"

section \<open>The two loops\<close>

text \<open>The phases of \<open>forwardRequests\<close>, and of the handler with \<open>forwardResponses\<close>.\<close>

datatype 'm reqPhase =
    ReqReceive
  | ReqSend 'm
  | ReqCloseSend
  | ReqClosing
  | ReqCancel goError
  | ReqReturn "goError option"
  | ReqSent "goError option"

datatype 'm rspPhase =
    RspReceive
  | RspCopy "goError + 'm"
  | RspSend 'm
  | RspSelect "goError option"
  | RspClose "goError option"
  | RspDone "goError option"

text \<open>What follows a call of \<open>Receive\<close>, \<open>Send\<close> and \<open>CloseSend\<close> in the request loop.\<close>

definition receivedRequest :: "goError + 'm \<Rightarrow> 'm reqPhase" where
  "receivedRequest r =
     (case r of
        Inl err \<Rightarrow> if errorsIs err EOF then ReqCloseSend else ReqCancel err
      | Inr request \<Rightarrow> ReqSend request)"

definition sentRequest :: "goError option \<Rightarrow> 'm reqPhase" where
  "sentRequest e =
     (case e of
        None \<Rightarrow> ReqReceive
      | Some err \<Rightarrow> if errorsIs err EOF then ReqReturn None else ReqReturn (forwardError (Some err)))"

definition closedRequests :: "goError option \<Rightarrow> 'm reqPhase" where
  "closedRequests e = ReqReturn (forwardError e)"

text \<open>And in the response loop.\<close>

definition receivedResponse :: "goError + 'm \<Rightarrow> 'm rspPhase" where
  "receivedResponse r =
     (case r of
        Inl err \<Rightarrow> if errorsIs err EOF then RspSelect None else RspSelect (forwardError (Some err))
      | Inr response \<Rightarrow> RspSend response)"

definition sentResponse :: "goError option \<Rightarrow> 'm rspPhase" where
  "sentResponse e = (case e of None \<Rightarrow> RspReceive | Some err \<Rightarrow> RspSelect (Some err))"

text \<open>The \<open>select\<close> on the channel \<open>sent\<close>.\<close>

definition selectSent :: "'m reqPhase \<Rightarrow> goError option \<Rightarrow> goError option" where
  "selectSent req err =
     (case req of
        ReqSent (Some sendErr) \<Rightarrow> Some sendErr
      | _ \<Rightarrow> err)"

text \<open>The response metadata of the downstream call.\<close>

record metadata =
  mdHeader :: headers
  mdTrailer :: headers

text \<open>
  The streams: \<open>downSend\<close> is given the metadata of the call at that moment; \<open>CloseSend\<close> acts
  before it waits, which is \<open>upCloseStart\<close>; \<open>upMoves\<close> is what happens to the upstream call on
  its own.
\<close>

record ('q, 'p, 'd, 'u) peers =
  downReceive :: "'d \<Rightarrow> goError + 'q \<Rightarrow> 'd \<Rightarrow> bool"
  downSend :: "'d \<Rightarrow> metadata option \<Rightarrow> 'p \<Rightarrow> goError option \<Rightarrow> 'd \<Rightarrow> bool"
  upSend :: "'u \<Rightarrow> 'q \<Rightarrow> goError option \<Rightarrow> 'u \<Rightarrow> bool"
  upCloseStart :: "'u \<Rightarrow> 'u"
  upCloseSend :: "'u \<Rightarrow> goError option \<Rightarrow> 'u \<Rightarrow> bool"
  upReceive :: "'u \<Rightarrow> goError + 'p \<Rightarrow> 'u \<Rightarrow> bool"
  upClose :: "'u \<Rightarrow> goError option \<Rightarrow> 'u \<Rightarrow> bool"
  upCancel :: "'u \<Rightarrow> 'u"
  upMoves :: "'u \<Rightarrow> 'u \<Rightarrow> bool"
  upMetadata :: "'u \<Rightarrow> metadata"
  peerText :: "connectError \<Rightarrow> string"

record ('q, 'p, 'd, 'u) forwardState =
  fwReq :: "'q reqPhase"
  fwRsp :: "'p rspPhase"
  fwDown :: 'd
  fwUp :: 'u
  fwInfo :: "metadata option"
  headersCopied :: bool
  reqTaken :: "'q list"
  reqGiven :: "'q list"
  rspTaken :: "'p list"
  rspGiven :: "('p \<times> metadata option) list"
  rspEnd :: "goError option"

text \<open>The copies after each \<open>Receive\<close>: trailers every time, headers once.\<close>

definition copyMetadata :: "metadata \<Rightarrow> bool \<Rightarrow> metadata \<Rightarrow> metadata" where
  "copyMetadata info copied upstreamInfo =
     \<lparr>mdHeader = (if copied then mdHeader info else copyHeader (mdHeader info) (mdHeader upstreamInfo)),
      mdTrailer = copyHeader (mdTrailer info) (mdTrailer upstreamInfo)\<rparr>"

text \<open>The handler up to the two loops; \<open>call\<close> is \<open>CallClientStream\<close> with the request header.\<close>

definition forward ::
  "(headers \<Rightarrow> goError + 'u) \<Rightarrow> (headers \<times> metadata) option \<Rightarrow> 'd \<Rightarrow>
   goError option + ('q, 'p, 'd, 'u) forwardState"
where
  "forward call info downstream =
     (let requestHeader = (case info of None \<Rightarrow> (\<lambda>k. None) | Some (h, _) \<Rightarrow> copyHeader (\<lambda>k. None) h) in
      case call requestHeader of
        Inl err \<Rightarrow> Inl (forwardError (Some err))
      | Inr upstream \<Rightarrow>
          Inr \<lparr>fwReq = ReqReceive, fwRsp = RspReceive, fwDown = downstream, fwUp = upstream,
               fwInfo = map_option snd info, headersCopied = False,
               reqTaken = [], reqGiven = [], rspTaken = [], rspGiven = [], rspEnd = None\<rparr>)"

definition taken :: "'m list \<Rightarrow> goError + 'm \<Rightarrow> 'm list" where
  "taken ms r = (case r of Inl err \<Rightarrow> ms | Inr m \<Rightarrow> ms @ [m])"

inductive forward_step ::
  "('q, 'p, 'd, 'u) peers \<Rightarrow> ('q, 'p, 'd, 'u) forwardState \<Rightarrow> ('q, 'p, 'd, 'u) forwardState \<Rightarrow> bool"
  for P where
  req_receive: "fwReq s = ReqReceive \<Longrightarrow> downReceive P (fwDown s) r d \<Longrightarrow>
     forward_step P s (s\<lparr>fwDown := d, fwReq := receivedRequest r, reqTaken := taken (reqTaken s) r\<rparr>)"
| req_send: "fwReq s = ReqSend m \<Longrightarrow> upSend P (fwUp s) m e u \<Longrightarrow>
     forward_step P s (s\<lparr>fwUp := u, fwReq := sentRequest e,
       reqGiven := (if e = None then reqGiven s @ [m] else reqGiven s)\<rparr>)"
| req_close_start: "fwReq s = ReqCloseSend \<Longrightarrow>
     forward_step P s (s\<lparr>fwUp := upCloseStart P (fwUp s), fwReq := ReqClosing\<rparr>)"
| req_close: "fwReq s = ReqClosing \<Longrightarrow> upCloseSend P (fwUp s) e u \<Longrightarrow>
     forward_step P s (s\<lparr>fwUp := u, fwReq := closedRequests e\<rparr>)"
| req_cancel: "fwReq s = ReqCancel err \<Longrightarrow>
     forward_step P s (s\<lparr>fwUp := upCancel P (fwUp s), fwReq := ReqReturn (Some err)\<rparr>)"
| req_return: "fwReq s = ReqReturn r \<Longrightarrow> forward_step P s (s\<lparr>fwReq := ReqSent r\<rparr>)"
| rsp_receive: "fwRsp s = RspReceive \<Longrightarrow> upReceive P (fwUp s) r u \<Longrightarrow>
     forward_step P s (s\<lparr>fwUp := u, fwRsp := RspCopy r, rspTaken := taken (rspTaken s) r,
       rspEnd := (case r of Inl err \<Rightarrow> Some err | Inr m \<Rightarrow> rspEnd s)\<rparr>)"
| rsp_copy: "fwRsp s = RspCopy r \<Longrightarrow>
     forward_step P s (s\<lparr>fwRsp := receivedResponse r,
       fwInfo := map_option (\<lambda>info. copyMetadata info (headersCopied s) (upMetadata P (fwUp s))) (fwInfo s),
       headersCopied := (fwInfo s \<noteq> None \<or> headersCopied s)\<rparr>)"
| rsp_send: "fwRsp s = RspSend m \<Longrightarrow> downSend P (fwDown s) (fwInfo s) m e d \<Longrightarrow>
     forward_step P s (s\<lparr>fwDown := d, fwRsp := sentResponse e,
       rspGiven := (if e = None then rspGiven s @ [(m, fwInfo s)] else rspGiven s)\<rparr>)"
| rsp_select: "fwRsp s = RspSelect err \<Longrightarrow>
     forward_step P s (s\<lparr>fwRsp := RspClose (selectSent (fwReq s) err)\<rparr>)"
| rsp_close: "fwRsp s = RspClose err \<Longrightarrow> upClose P (fwUp s) e u \<Longrightarrow>
     forward_step P s (s\<lparr>fwUp := upCancel P u, fwRsp := RspDone (errorsJoin (peerText P) err e)\<rparr>)"
| up_moves: "upMoves P (fwUp s) u \<Longrightarrow> forward_step P s (s\<lparr>fwUp := u\<rparr>)"

abbreviation forward_run ::
  "('q, 'p, 'd, 'u) peers \<Rightarrow> ('q, 'p, 'd, 'u) forwardState \<Rightarrow> ('q, 'p, 'd, 'u) forwardState \<Rightarrow> bool"
where
  "forward_run P \<equiv> (forward_step P)\<^sup>*\<^sup>*"

section \<open>Order\<close>

text \<open>
  A loop that takes a message, gives it on and takes the next one: what it has given is what it
  has taken, in order, except for the one message it holds.
\<close>

definition relayed :: "'m list \<Rightarrow> 'm list \<Rightarrow> bool \<Rightarrow> ('m \<Rightarrow> bool) \<Rightarrow> bool" where
  "relayed ins outs receiving sending \<longleftrightarrow>
     (ins = outs \<or> (\<exists>m. ins = outs @ [m])) \<and> (receiving \<longrightarrow> ins = outs) \<and> (\<forall>m. sending m \<longrightarrow> ins = outs @ [m])"

locale relay_loop =
  fixes moves :: "'s \<Rightarrow> 's \<Rightarrow> bool"
    and ins :: "'s \<Rightarrow> 'm list"
    and outs :: "'s \<Rightarrow> 'm list"
    and receiving :: "'s \<Rightarrow> bool"
    and sending :: "'s \<Rightarrow> 'm \<Rightarrow> bool"
  assumes loop_step: "moves s s' \<Longrightarrow>
    ins s' = ins s \<and> outs s' = outs s \<and> (receiving s' \<longrightarrow> receiving s) \<and> (\<forall>m. sending s' m \<longrightarrow> sending s m) \<or>
    (\<exists>m. receiving s \<and> ins s' = ins s @ [m] \<and> outs s' = outs s \<and> \<not> receiving s' \<and> (\<forall>m'. sending s' m' \<longrightarrow> m' = m)) \<or>
    (\<exists>m. sending s m \<and> ins s' = ins s \<and> outs s' = outs s @ [m] \<and> (\<forall>m'. \<not> sending s' m'))"
begin

lemma relayed_step:
  assumes "moves s s'" and "relayed (ins s) (outs s) (receiving s) (sending s)"
  shows "relayed (ins s') (outs s') (receiving s') (sending s')"
  using loop_step [OF assms(1)] assms(2) by (auto simp: relayed_def)

lemma relayed_run:
  "moves\<^sup>*\<^sup>* s s' \<Longrightarrow> relayed (ins s) (outs s) (receiving s) (sending s) \<Longrightarrow>
   relayed (ins s') (outs s') (receiving s') (sending s')"
  by (induction rule: rtranclp_induct) (auto intro: relayed_step)

end

lemma phase_simps [simp]:
  "receivedRequest r \<noteq> ReqReceive" "receivedRequest r = ReqSend m \<longleftrightarrow> r = Inr m"
  "sentRequest e \<noteq> ReqSend m" "sentRequest e = ReqReceive \<longleftrightarrow> e = None"
  "closedRequests e \<noteq> ReqReceive" "closedRequests e \<noteq> ReqSend m"
  by (auto simp: receivedRequest_def sentRequest_def closedRequests_def split: sum.split option.split)

lemma rsp_phase_simps [simp]:
  "receivedResponse r \<noteq> RspReceive" "receivedResponse r = RspSend m \<longleftrightarrow> r = Inr m" "receivedResponse r \<noteq> RspCopy r'"
  "sentResponse e = RspReceive \<longleftrightarrow> e = None" "sentResponse e \<noteq> RspSend m" "sentResponse e \<noteq> RspCopy r'"
  by (auto simp: receivedResponse_def sentResponse_def split: sum.split option.split)

lemma taken_simps [simp]: "taken ms (Inl err) = ms" "taken ms (Inr m) = ms @ [m]"
  by (simp_all add: taken_def)

interpretation requests: relay_loop "forward_step P" reqTaken reqGiven "\<lambda>s. fwReq s = ReqReceive" "\<lambda>s m. fwReq s = ReqSend m"
  for P :: "('q, 'p, 'd, 'u) peers"
proof
  fix s s' :: "('q, 'p, 'd, 'u) forwardState"
  assume "forward_step P s s'"
  then show "reqTaken s' = reqTaken s \<and> reqGiven s' = reqGiven s \<and> (fwReq s' = ReqReceive \<longrightarrow> fwReq s = ReqReceive) \<and>
      (\<forall>m. fwReq s' = ReqSend m \<longrightarrow> fwReq s = ReqSend m) \<or>
    (\<exists>m. fwReq s = ReqReceive \<and> reqTaken s' = reqTaken s @ [m] \<and> reqGiven s' = reqGiven s \<and> fwReq s' \<noteq> ReqReceive \<and>
      (\<forall>m'. fwReq s' = ReqSend m' \<longrightarrow> m' = m)) \<or>
    (\<exists>m. fwReq s = ReqSend m \<and> reqTaken s' = reqTaken s \<and> reqGiven s' = reqGiven s @ [m] \<and> (\<forall>m'. fwReq s' \<noteq> ReqSend m'))"
  proof cases
    case (req_receive r d)
    then show ?thesis by (cases r) auto
  next
    case (req_send m e u)
    then show ?thesis by (cases e) auto
  qed auto
qed

text \<open>A response that was received and whose metadata is being copied is held, too.\<close>

definition rspHolds :: "('q, 'p, 'd, 'u) forwardState \<Rightarrow> 'p \<Rightarrow> bool" where
  "rspHolds s m \<longleftrightarrow> fwRsp s = RspCopy (Inr m) \<or> fwRsp s = RspSend m"

interpretation responses: relay_loop "forward_step P" rspTaken "\<lambda>s. map fst (rspGiven s)" "\<lambda>s. fwRsp s = RspReceive" rspHolds
  for P :: "('q, 'p, 'd, 'u) peers"
proof
  fix s s' :: "('q, 'p, 'd, 'u) forwardState"
  assume "forward_step P s s'"
  then show "rspTaken s' = rspTaken s \<and> map fst (rspGiven s') = map fst (rspGiven s) \<and>
      (fwRsp s' = RspReceive \<longrightarrow> fwRsp s = RspReceive) \<and> (\<forall>m. rspHolds s' m \<longrightarrow> rspHolds s m) \<or>
    (\<exists>m. fwRsp s = RspReceive \<and> rspTaken s' = rspTaken s @ [m] \<and> map fst (rspGiven s') = map fst (rspGiven s) \<and>
      fwRsp s' \<noteq> RspReceive \<and> (\<forall>m'. rspHolds s' m' \<longrightarrow> m' = m)) \<or>
    (\<exists>m. rspHolds s m \<and> rspTaken s' = rspTaken s \<and> map fst (rspGiven s') = map fst (rspGiven s) @ [m] \<and>
      (\<forall>m'. \<not> rspHolds s' m'))"
  proof cases
    case (rsp_receive r u)
    then show ?thesis by (cases r) (auto simp: rspHolds_def)
  next
    case (rsp_send m e d)
    then show ?thesis by (cases e) (auto simp: rspHolds_def)
  qed (auto simp: rspHolds_def)
qed

lemma forward_start:
  assumes "forward call info downstream = Inr s"
  shows "fwReq s = ReqReceive" "fwRsp s = RspReceive" "reqTaken s = []" "reqGiven s = []" "rspTaken s = []"
    "rspGiven s = []" "rspEnd s = None" "headersCopied s = False" "fwInfo s = map_option snd info"
  using assms by (auto simp: forward_def Let_def split: sum.splits)

lemma forward_relayed:
  assumes "forward call info downstream = Inr s0" and "forward_run P s0 s"
  shows "relayed (reqTaken s) (reqGiven s) (fwReq s = ReqReceive) (\<lambda>m. fwReq s = ReqSend m)"
    and "relayed (rspTaken s) (map fst (rspGiven s)) (fwRsp s = RspReceive) (rspHolds s)"
proof -
  note start = forward_start [OF assms(1)]
  show "relayed (reqTaken s) (reqGiven s) (fwReq s = ReqReceive) (\<lambda>m. fwReq s = ReqSend m)"
    by (rule requests.relayed_run [OF assms(2)]) (simp add: relayed_def start)
  show "relayed (rspTaken s) (map fst (rspGiven s)) (fwRsp s = RspReceive) (rspHolds s)"
    by (rule responses.relayed_run [OF assms(2)]) (simp add: relayed_def start rspHolds_def)
qed

section \<open>The verdict\<close>

lemma withDetails:
  "foldl (\<lambda>forwarded detail. withDetail detail forwarded) e ds =
     ConnectError (code e) (message e) (details e @ ds) (remote e) (cause e)"
proof (induction ds arbitrary: e)
  case Nil
  then show ?case by (cases e) simp
next
  case (Cons d ds)
  then show ?case by (simp add: withDetail_def)
qed

lemma forwardError_simps:
  "forwardError None = None"
  "forwardError (Some e) = Some (case asType e of None \<Rightarrow> e | Some ce \<Rightarrow> Conn (ConnectError (code ce) (message ce) (details ce) False None))"
  by (auto simp: forwardError_def withDetails newError_def split: option.split)

text \<open>An error that is not the verdict of another server.\<close>

definition local_error :: "goError option \<Rightarrow> bool" where
  "local_error e \<longleftrightarrow>
     (case e of
        None \<Rightarrow> True
      | Some err \<Rightarrow> (case asType err of None \<Rightarrow> True | Some ce \<Rightarrow> \<not> remote ce))"

lemma local_simps [simp]: "local_error None" "local_error (forwardError e)"
  by (cases e; auto simp: local_error_def forwardError_simps split: option.split)+

lemma local_join: "local_error a \<Longrightarrow> local_error b \<Longrightarrow> local_error (errorsJoin ct a b)"
  by (auto simp: local_error_def errorsJoin_def split: option.splits)

text \<open>What the response loop has decided, once it has ended.\<close>

definition rspVerdict :: "('q, 'p, 'd, 'u) forwardState \<Rightarrow> goError option \<Rightarrow> bool" where
  "rspVerdict s r \<longleftrightarrow>
     (case rspEnd s of
        None \<Rightarrow> r \<noteq> None
      | Some err \<Rightarrow> r = (if errorsIs err EOF then None else forwardError (Some err)) \<and> rspTaken s = map fst (rspGiven s))"

definition decided :: "('q, 'p, 'd, 'u) forwardState \<Rightarrow> goError option \<Rightarrow> bool" where
  "decided s r \<longleftrightarrow> rspVerdict s r \<or> (\<exists>e. fwReq s = ReqSent (Some e) \<and> r = Some e)"

definition verdict_ok :: "('q, 'p, 'd, 'u) peers \<Rightarrow> ('q, 'p, 'd, 'u) forwardState \<Rightarrow> bool" where
  "verdict_ok P s \<longleftrightarrow>
     (case fwRsp s of
        RspReceive \<Rightarrow> rspEnd s = None \<and> rspTaken s = map fst (rspGiven s)
      | RspSend m \<Rightarrow> rspEnd s = None
      | RspCopy (Inr m) \<Rightarrow> rspEnd s = None
      | RspCopy (Inl err) \<Rightarrow> rspEnd s = Some err \<and> rspTaken s = map fst (rspGiven s)
      | RspSelect r \<Rightarrow> rspVerdict s r
      | RspClose r \<Rightarrow> decided s r
      | RspDone r \<Rightarrow> (\<exists>r0 u e u'. decided s r0 \<and> upClose P u e u' \<and> r = errorsJoin (peerText P) r0 e))"

text \<open>A step of the request loop leaves all this alone.\<close>

lemma verdict_frame:
  assumes "verdict_ok P s" and "fwRsp s' = fwRsp s" and "rspEnd s' = rspEnd s" and "rspTaken s' = rspTaken s"
    and "rspGiven s' = rspGiven s" and "\<And>e. fwReq s = ReqSent e \<Longrightarrow> fwReq s' = ReqSent e"
  shows "verdict_ok P s'"
proof -
  have v: "rspVerdict s' r = rspVerdict s r" for r
    by (simp only: rspVerdict_def assms(3-5))
  then have d: "decided s r \<Longrightarrow> decided s' r" for r
    using assms(6) by (auto simp: decided_def)
  show ?thesis
    using assms(1) v d unfolding verdict_ok_def assms(2-5)
    by (cases "fwRsp s") (auto split: sum.splits)
qed

lemma verdict_step:
  assumes "forward_step P s s'" and "verdict_ok P s"
    and "relayed (rspTaken s) (map fst (rspGiven s)) (fwRsp s = RspReceive) (rspHolds s)"
  shows "verdict_ok P s'"
  using assms(1)
proof cases
  case (rsp_receive r u)
  then show ?thesis
    using assms(2) by (cases r) (auto simp: verdict_ok_def)
next
  case (rsp_copy r)
  show ?thesis
  proof (cases r)
    case (Inl err)
    then show ?thesis
      using rsp_copy assms(2) by (auto simp: verdict_ok_def receivedResponse_def rspVerdict_def)
  qed (use rsp_copy assms(2) in \<open>auto simp: verdict_ok_def receivedResponse_def\<close>)
next
  case (rsp_send m e d)
  then show ?thesis
    using assms(2,3)
    by (cases e) (auto simp: verdict_ok_def sentResponse_def rspVerdict_def relayed_def rspHolds_def split: option.split)
next
  case (rsp_select err)
  then show ?thesis
    using assms(2)
    by (cases "fwReq s") (auto simp: verdict_ok_def decided_def rspVerdict_def selectSent_def split: option.splits)
next
  case (rsp_close err e u)
  then have "decided s' err"
    using assms(2) by (cases "rspEnd s") (auto simp: verdict_ok_def decided_def rspVerdict_def)
  then show ?thesis
    using rsp_close unfolding verdict_ok_def by auto
qed (auto intro!: verdict_frame [OF assms(2)])

lemma verdict_run:
  assumes "forward call info downstream = Inr s0" and "forward_run P s0 s"
  shows "verdict_ok P s"
  using assms(2)
proof (induction rule: rtranclp_induct)
  case base
  then show ?case
    using forward_start [OF assms(1)] by (simp add: verdict_ok_def)
next
  case (step s s')
  then show ?case
    using verdict_step forward_relayed(2) [OF assms(1)] by blast
qed

lemma decided_done:
  assumes "forward call info downstream = Inr s0" and "forward_run P s0 s" and "fwRsp s = RspDone r"
  obtains r0 u e u' where "decided s r0" and "upClose P u e u'" and "r = errorsJoin (peerText P) r0 e"
  using verdict_run [OF assms(1,2)] assms(3) by (auto simp: verdict_ok_def)

text \<open>Where the errors come from.\<close>

definition local_peers :: "('q, 'p, 'd, 'u) peers \<Rightarrow> bool" where
  "local_peers P \<longleftrightarrow>
     (\<forall>d err d'. downReceive P d (Inl err) d' \<longrightarrow> local_error (Some err)) \<and>
     (\<forall>d i m e d'. downSend P d i m e d' \<longrightarrow> local_error e) \<and>
     (\<forall>u e u'. upClose P u e u' \<longrightarrow> local_error e)"

definition errors_local :: "('q, 'p, 'd, 'u) forwardState \<Rightarrow> bool" where
  "errors_local s \<longleftrightarrow>
     (case fwReq s of ReqCancel e \<Rightarrow> local_error (Some e) | ReqReturn r \<Rightarrow> local_error r | ReqSent r \<Rightarrow> local_error r | _ \<Rightarrow> True) \<and>
     (case fwRsp s of RspSelect r \<Rightarrow> local_error r | RspClose r \<Rightarrow> local_error r | RspDone r \<Rightarrow> local_error r | _ \<Rightarrow> True)"

lemma errors_local_step:
  assumes "forward_step P s s'" and "errors_local s" and "local_peers P"
  shows "errors_local s'"
  using assms(1)
proof cases
  case (req_receive r d)
  then show ?thesis
    using assms(2,3) by (cases r) (auto simp: errors_local_def receivedRequest_def local_peers_def)
next
  case (req_send m e u)
  then show ?thesis
    using assms(2) by (cases e) (auto simp: errors_local_def sentRequest_def)
next
  case (rsp_copy r)
  then show ?thesis
    using assms(2) by (cases r) (auto simp: errors_local_def receivedResponse_def)
next
  case (rsp_send m e d)
  then have "local_error e"
    using assms(3) unfolding local_peers_def by blast
  then show ?thesis
    using rsp_send assms(2) by (cases e) (auto simp: errors_local_def sentResponse_def)
next
  case (rsp_select err)
  then show ?thesis
    using assms(2) by (cases "fwReq s") (auto simp: errors_local_def selectSent_def split: option.split)
next
  case (rsp_close err e u)
  then have "local_error e" "local_error err"
    using assms(2,3) unfolding local_peers_def by (blast, simp add: errors_local_def)
  then have "local_error (errorsJoin (peerText P) err e)"
    by (simp add: local_join)
  then show ?thesis
    using rsp_close assms(2) by (simp add: errors_local_def)
qed (use assms(2) in \<open>auto simp: errors_local_def closedRequests_def\<close>)

lemma errors_local_run:
  "forward_run P s s' \<Longrightarrow> errors_local s \<Longrightarrow> local_peers P \<Longrightarrow> errors_local s'"
  by (induction rule: rtranclp_induct) (auto intro: errors_local_step)

section \<open>The header of the upstream response\<close>

text \<open>
  The contract of an upstream stream: once a response was received, the header of the response
  is known, and it stays.
\<close>

locale settled_upstream =
  fixes P :: "('q, 'p, 'd, 'u) peers"
    and settled :: "'u \<Rightarrow> bool"
  assumes receive_settles: "upReceive P u (Inr m) u' \<Longrightarrow> settled u'"
    and receive_keeps: "settled u \<Longrightarrow> upReceive P u r u' \<Longrightarrow> settled u' \<and> mdHeader (upMetadata P u') = mdHeader (upMetadata P u)"
    and send_keeps: "settled u \<Longrightarrow> upSend P u q e u' \<Longrightarrow> settled u' \<and> mdHeader (upMetadata P u') = mdHeader (upMetadata P u)"
    and close_start_keeps: "settled u \<Longrightarrow> settled (upCloseStart P u) \<and> mdHeader (upMetadata P (upCloseStart P u)) = mdHeader (upMetadata P u)"
    and close_send_keeps: "settled u \<Longrightarrow> upCloseSend P u e u' \<Longrightarrow> settled u' \<and> mdHeader (upMetadata P u') = mdHeader (upMetadata P u)"
    and close_keeps: "settled u \<Longrightarrow> upClose P u e u' \<Longrightarrow> settled u' \<and> mdHeader (upMetadata P u') = mdHeader (upMetadata P u)"
    and cancel_keeps: "settled u \<Longrightarrow> settled (upCancel P u) \<and> mdHeader (upMetadata P (upCancel P u)) = mdHeader (upMetadata P u)"
    and moves_keep: "settled u \<Longrightarrow> upMoves P u u' \<Longrightarrow> settled u' \<and> mdHeader (upMetadata P u') = mdHeader (upMetadata P u)"

text \<open>
  The header downstream at the moments that matter: \<open>h0\<close> is the header of the downstream call
  before the first copy.
\<close>

definition header_ok :: "('q, 'p, 'd, 'u) peers \<Rightarrow> ('u \<Rightarrow> bool) \<Rightarrow> headers \<Rightarrow> ('q, 'p, 'd, 'u) forwardState \<Rightarrow> bool" where
  "header_ok P settled h0 s \<longleftrightarrow>
     (let h = copyHeader h0 (mdHeader (upMetadata P (fwUp s))) in
      (rspGiven s \<noteq> [] \<longrightarrow> settled (fwUp s)) \<and>
      list_all (\<lambda>(m, i). map_option mdHeader i = Some h) (rspGiven s) \<and>
      (case fwInfo s of
         None \<Rightarrow> False
       | Some info \<Rightarrow>
           (\<not> headersCopied s \<longrightarrow> mdHeader info = h0) \<and>
           (case fwRsp s of
              RspReceive \<Rightarrow> headersCopied s \<longrightarrow> settled (fwUp s) \<and> mdHeader info = h
            | RspCopy (Inr m) \<Rightarrow> settled (fwUp s) \<and> (headersCopied s \<longrightarrow> mdHeader info = h)
            | RspSend m \<Rightarrow> settled (fwUp s) \<and> headersCopied s \<and> mdHeader info = h
            | _ \<Rightarrow> True)))"

context settled_upstream begin

lemma header_up:
  assumes "header_ok P settled h0 s" and "settled (fwUp s) \<Longrightarrow> settled u \<and> mdHeader (upMetadata P u) = mdHeader (upMetadata P (fwUp s))"
    and "fwUp s' = u" and "fwInfo s' = fwInfo s" and "headersCopied s' = headersCopied s" and "rspGiven s' = rspGiven s"
    and "fwRsp s' = fwRsp s \<or> (\<forall>m. fwRsp s' \<noteq> RspReceive \<and> fwRsp s' \<noteq> RspCopy (Inr m) \<and> fwRsp s' \<noteq> RspSend m)"
  shows "header_ok P settled h0 s'"
proof (cases "settled (fwUp s)")
  case True
  then show ?thesis
    using assms unfolding header_ok_def Let_def
    by (auto split: option.splits rspPhase.splits sum.splits)
next
  case False
  then have "rspGiven s = []" "\<not> headersCopied s \<or> fwRsp s' \<noteq> RspReceive" "fwRsp s' \<noteq> RspCopy (Inr m)" "fwRsp s' \<noteq> RspSend m" for m
    using assms(1,7) unfolding header_ok_def Let_def
    by (auto split: option.splits rspPhase.splits sum.splits)
  then show ?thesis
    using assms(1,4-6) unfolding header_ok_def Let_def
    by (auto split: option.splits rspPhase.splits sum.splits)
qed

lemma header_step:
  assumes "forward_step P s s'" and "header_ok P settled h0 s"
  shows "header_ok P settled h0 s'"
  using assms(1)
proof cases
  case (req_send m e u)
  then show ?thesis using send_keeps by (intro header_up [OF assms(2), where u = u]) auto
next
  case req_close_start
  then show ?thesis using close_start_keeps by (intro header_up [OF assms(2), where u = "upCloseStart P (fwUp s)"]) auto
next
  case (req_close e u)
  then show ?thesis using close_send_keeps by (intro header_up [OF assms(2), where u = u]) auto
next
  case (req_cancel err)
  then show ?thesis using cancel_keeps by (intro header_up [OF assms(2), where u = "upCancel P (fwUp s)"]) auto
next
  case (up_moves u)
  then show ?thesis using moves_keep by (intro header_up [OF assms(2), where u = u]) auto
next
  case (rsp_close err e u)
  then show ?thesis
    using close_keeps [of "fwUp s" e u] cancel_keeps [of u] by (intro header_up [OF assms(2), where u = "upCancel P u"]) auto
next
  case (rsp_receive r u)
  show ?thesis
  proof (cases r)
    case (Inl err)
    then show ?thesis
      using rsp_receive receive_keeps by (intro header_up [OF assms(2), where u = u]) auto
  next
    case (Inr m)
    have "settled u"
      using rsp_receive(3) Inr receive_settles by blast
    moreover have "mdHeader (upMetadata P u) = mdHeader (upMetadata P (fwUp s))" if "settled (fwUp s)"
      using receive_keeps [OF that rsp_receive(3)] by simp
    ultimately show ?thesis
      using rsp_receive(1,2) assms(2) Inr by (auto simp: header_ok_def Let_def split: option.splits)
  qed
next
  case (rsp_copy r)
  then show ?thesis
    using assms(2)
    by (cases r) (auto simp: header_ok_def Let_def copyMetadata_def receivedResponse_def split: option.splits)
next
  case (rsp_send m e d)
  then show ?thesis
    using assms(2) by (cases e) (auto simp: header_ok_def Let_def sentResponse_def split: option.splits)
qed (use assms(2) in \<open>auto simp: header_ok_def Let_def split: option.splits rspPhase.splits sum.splits\<close>)

lemma header_run: "forward_run P s s' \<Longrightarrow> header_ok P settled h0 s \<Longrightarrow> header_ok P settled h0 s'"
  by (induction rule: rtranclp_induct) (auto intro: header_step)

lemma given_header:
  assumes "forward call (Some (h, md)) downstream = Inr s0" and "forward_run P s0 s" and "(m, i) \<in> set (rspGiven s)"
  shows "\<exists>md'. i = Some md' \<and> mdHeader md' = copyHeader (mdHeader md) (mdHeader (upMetadata P (fwUp s)))"
proof -
  have "header_ok P settled (mdHeader md) s0"
    using forward_start [OF assms(1)] by (simp add: header_ok_def)
  from header_run [OF assms(2) this] have "list_all (\<lambda>(m, i). map_option mdHeader i =
      Some (copyHeader (mdHeader md) (mdHeader (upMetadata P (fwUp s))))) (rspGiven s)"
    unfolding header_ok_def Let_def by (elim conjE)
  then show ?thesis
    using assms(3) by (auto simp: list_all_iff)
qed

end

section \<open>How a call ends\<close>

lemma forward_last: "forward_step P s s' \<Longrightarrow> forward_run P s s'"
  by (rule r_into_rtranclp)

lemma forward_into: "forward_step P s s1 \<Longrightarrow> forward_run P s1 s' \<Longrightarrow> forward_run P s s'"
  by (rule converse_rtranclp_into_rtranclp)

text \<open>An error of the upstream stream leads to the end of the call, whatever the requests do.\<close>

lemma rsp_finish:
  assumes "fwRsp s = RspReceive" and "upReceive P (fwUp s) (Inl err) u" and "upClose P u e u'"
  shows "\<exists>s'. forward_run P s s' \<and> rspEnd s' = Some err \<and> rspTaken s' = rspTaken s \<and> rspGiven s' = rspGiven s \<and>
    fwReq s' = fwReq s \<and> fwRsp s' = RspDone (errorsJoin (peerText P)
      (selectSent (fwReq s) (if errorsIs err EOF then None else forwardError (Some err))) e)"
proof -
  define s1 where "s1 = s\<lparr>fwUp := u, fwRsp := RspCopy (Inl err), rspTaken := taken (rspTaken s) (Inl err),
      rspEnd := Some err\<rparr>"
  define s2 where "s2 = s1\<lparr>fwRsp := receivedResponse (Inl err),
      fwInfo := map_option (\<lambda>info. copyMetadata info (headersCopied s1) (upMetadata P (fwUp s1))) (fwInfo s1),
      headersCopied := (fwInfo s1 \<noteq> None \<or> headersCopied s1)\<rparr>"
  define v where "v = (if errorsIs err EOF then None else forwardError (Some err))"
  define s3 where "s3 = s2\<lparr>fwRsp := RspClose (selectSent (fwReq s2) v)\<rparr>"
  define s4 where "s4 = s3\<lparr>fwUp := upCancel P u', fwRsp := RspDone (errorsJoin (peerText P) (selectSent (fwReq s2) v) e)\<rparr>"
  have a: "forward_step P s s1"
    using forward_step.rsp_receive [OF assms(1,2)] by (simp add: s1_def)
  have b: "forward_step P s1 s2"
    unfolding s2_def by (rule forward_step.rsp_copy) (simp add: s1_def)
  have c: "forward_step P s2 s3"
    unfolding s3_def by (rule forward_step.rsp_select) (simp add: s2_def receivedResponse_def v_def)
  have d: "forward_step P s3 s4"
    unfolding s4_def by (rule forward_step.rsp_close) (simp_all add: s3_def s2_def s1_def assms(3))
  show ?thesis
    by (intro exI [of _ s4] conjI forward_into [OF a] forward_into [OF b] forward_into [OF c] forward_last [OF d])
      (simp_all add: s4_def s3_def s2_def s1_def v_def)
qed

section \<open>Sample streams\<close>

text \<open>A downstream that receives \<open>inc\<close>, an upstream that answers once and then ends with \<open>fin\<close>.\<close>

definition samplePeers :: "goError + string \<Rightarrow> goError \<Rightarrow> (string, string, nat, nat) peers" where
  "samplePeers inc fin =
     \<lparr>downReceive = (\<lambda>d r d'. d = 0 \<and> r = inc \<and> d' = 1), downSend = (\<lambda>d i m e d'. e = None \<and> d' = d),
      upSend = (\<lambda>u m e u'. e = None \<and> u' = u), upCloseStart = (\<lambda>u. u), upCloseSend = (\<lambda>u e u'. e = None \<and> u' = u),
      upReceive = (\<lambda>u r u'. (if u = 0 then r = Inr ''p'' else r = Inl fin) \<and> u' = 1),
      upClose = (\<lambda>u e u'. e = None \<and> u' = u), upCancel = (\<lambda>u. 1), upMoves = (\<lambda>u u'. False),
      upMetadata = (\<lambda>u. \<lparr>mdHeader = [''X-Id'' \<mapsto> [''7''], ''Te'' \<mapsto> [''gzip'']], mdTrailer = (\<lambda>k. None)\<rparr>), peerText = message\<rparr>"

definition sampleForward :: "(string, string, nat, nat) forwardState" where
  "sampleForward =
     \<lparr>fwReq = ReqReceive, fwRsp = RspReceive, fwDown = 0, fwUp = 0, fwInfo = None, headersCopied = False,
      reqTaken = [], reqGiven = [], rspTaken = [], rspGiven = [], rspEnd = None\<rparr>"

lemma sample_forward: "forward (\<lambda>h. Inr 0) None 0 = Inr sampleForward"
  by (simp add: forward_def sampleForward_def)

lemma sample_relay:
  "\<exists>s. forward_run (samplePeers inc fin) sampleForward s \<and> fwRsp s = RspReceive \<and> fwUp s = 1 \<and>
     rspTaken s = [''p''] \<and> map fst (rspGiven s) = [''p''] \<and> fwReq s = ReqReceive"
proof -
  let ?P = "samplePeers inc fin" and ?s = sampleForward
  let ?s1 = "?s\<lparr>fwUp := 1, fwRsp := RspCopy (Inr ''p''), rspTaken := [''p'']\<rparr>"
  let ?s2 = "?s1\<lparr>fwRsp := RspSend ''p''\<rparr>"
  let ?s3 = "?s2\<lparr>fwRsp := RspReceive, rspGiven := [(''p'', None)]\<rparr>"
  have a: "forward_step ?P ?s ?s1"
    using forward_step.rsp_receive [where s = ?s and P = ?P and r = "Inr ''p''" and u = 1]
    by (simp add: sampleForward_def samplePeers_def)
  have b: "forward_step ?P ?s1 ?s2"
    using forward_step.rsp_copy [where s = ?s1 and P = ?P and r = "Inr ''p''"]
    by (simp add: sampleForward_def receivedResponse_def)
  have c: "forward_step ?P ?s2 ?s3"
    using forward_step.rsp_send [where s = ?s2 and P = ?P and m = "''p''" and e = None and d = 0]
    by (simp add: sampleForward_def samplePeers_def sentResponse_def)
  show ?thesis
    by (intro exI [of _ ?s3] conjI forward_into [OF a forward_into [OF b forward_last [OF c]]])
      (simp_all add: sampleForward_def)
qed

text \<open>The call as it ends when the upstream ends with \<open>fin\<close>.\<close>

lemma sample_ends:
  "\<exists>s. forward_run (samplePeers inc fin) sampleForward s \<and> rspEnd s = Some fin \<and> rspTaken s = [''p''] \<and>
     map fst (rspGiven s) = [''p''] \<and> fwReq s = ReqReceive \<and>
     fwRsp s = RspDone (errorsJoin message (if errorsIs fin EOF then None else forwardError (Some fin)) None)"
proof -
  obtain s where s: "forward_run (samplePeers inc fin) sampleForward s" "fwRsp s = RspReceive" "fwUp s = 1"
      "rspTaken s = [''p'']" "map fst (rspGiven s) = [''p'']" "fwReq s = ReqReceive"
    using sample_relay [of inc fin] by (elim exE conjE) (rule that)
  have "upReceive (samplePeers inc fin) (fwUp s) (Inl fin) 1" "upClose (samplePeers inc fin) 1 None 1"
    using s(3) by (simp_all add: samplePeers_def)
  from rsp_finish [OF s(2) this] obtain t where t: "forward_run (samplePeers inc fin) s t" "rspEnd t = Some fin"
      "rspTaken t = rspTaken s" "rspGiven t = rspGiven s" "fwReq t = fwReq s"
      "fwRsp t = RspDone (errorsJoin (peerText (samplePeers inc fin))
        (selectSent (fwReq s) (if errorsIs fin EOF then None else forwardError (Some fin))) None)"
    by (elim exE conjE) (rule that)
  have "peerText (samplePeers inc fin) = message"
    by (simp add: samplePeers_def)
  then show ?thesis
    using rtranclp_trans [OF s(1) t(1)] t(2-6) s(4-6) by (intro exI [of _ t]) (simp add: selectSent_def)
qed

section \<open>Properties\<close>

text \<open>C17: A proxy relays in order: whatever the interleaving of its two loops and of the two streams,
  the requests it has sent upstream are the requests it has received downstream, in the same
  order and without gaps or repetitions, except for at most one it still holds, and so are the
  responses it has sent downstream the responses it has received upstream.\<close>

theorem forward_in_order:
  assumes "forward call info downstream = Inr s0" and "forward_run P s0 s"
  shows "(reqTaken s = reqGiven s \<or> (\<exists>m. reqTaken s = reqGiven s @ [m])) \<and>
    (rspTaken s = map fst (rspGiven s) \<or> (\<exists>m. rspTaken s = map fst (rspGiven s) @ [m]))"
  using forward_relayed [OF assms] by (simp add: relayed_def)

theorem forward_in_order_witness:
  "\<exists>s. forward_run (samplePeers (Inr ''q'') EOF) sampleForward s \<and> rspTaken s = [''p''] \<and>
     (rspTaken s = map fst (rspGiven s) \<or> (\<exists>m. rspTaken s = map fst (rspGiven s) @ [m]))"
proof -
  obtain s where s: "forward_run (samplePeers (Inr ''q'') EOF) sampleForward s" "rspTaken s = [''p'']"
    using sample_relay [of "Inr ''q''" EOF] by (elim exE conjE) (rule that)
  then show ?thesis
    using forward_in_order [OF sample_forward s(1)] by blast
qed

text \<open>C18: A call that a proxy reports as successful is complete: the upstream stream has ended with an
  error that is io.EOF, every response that was received upstream was sent downstream, in
  order, and closing the upstream stream gave no error.\<close>

theorem forward_success_complete:
  assumes "forward call info downstream = Inr s0" and "forward_run P s0 s" and "fwRsp s = RspDone None"
  shows "rspTaken s = map fst (rspGiven s) \<and> (\<exists>err. rspEnd s = Some err \<and> errorsIs err EOF) \<and>
    (\<exists>u u'. upClose P u None u')"
proof -
  obtain r0 u e u' where d: "decided s r0" "upClose P u e u'" "None = errorsJoin (peerText P) r0 e"
    by (rule decided_done [OF assms])
  then have "r0 = None" "e = None"
    by (auto simp: errorsJoin_def split: option.splits)
  then have "rspVerdict s None"
    using d(1) by (simp add: decided_def)
  then show ?thesis
    using d(2) \<open>e = None\<close> by (auto simp: rspVerdict_def forwardError_simps split: option.splits if_splits)
qed

theorem forward_success_complete_witness:
  "\<exists>s. forward_run (samplePeers (Inr ''q'') EOF) sampleForward s \<and> fwRsp s = RspDone None \<and> rspTaken s = [''p''] \<and>
     map fst (rspGiven s) = [''p'']"
proof -
  obtain s where s: "forward_run (samplePeers (Inr ''q'') EOF) sampleForward s" "fwRsp s = RspDone None" "rspTaken s = [''p'']"
    using sample_ends [of "Inr ''q''" EOF] by (auto simp: errorsJoin_def)
  then show ?thesis
    using forward_success_complete [OF sample_forward s(1,2)] by auto
qed

lemma error_kept:
  assumes "forward call info downstream = Inr s0" and "forward_run P s0 s" and "fwRsp s = RspDone r"
    and "rspEnd s = Some err" and "asType err = Some cerr" and "\<not> errorsIs err EOF"
    and "\<And>u e u'. upClose P u e u' \<Longrightarrow> e = None" and "\<And>e. fwReq s \<noteq> ReqSent (Some e)"
  shows "\<exists>e. r = Some e \<and> asConnectError ct e = ConnectError (code cerr) (message cerr) (details cerr) False None"
proof -
  obtain r0 u e u' where d: "decided s r0" "upClose P u e u'" "r = errorsJoin (peerText P) r0 e"
    by (rule decided_done [OF assms(1-3)])
  then have "e = None" "rspVerdict s r0"
    using assms(7,8) by (auto simp: decided_def)
  then have "r0 = Some (Conn (ConnectError (code cerr) (message cerr) (details cerr) False None))"
    using assms(4-6) by (simp add: rspVerdict_def forwardError_simps)
  then show ?thesis
    using d(3) \<open>e = None\<close> by (simp add: errorsJoin_def asConnectError_def)
qed

text \<open>C19: A proxy passes an upstream error on as its own: when the responses ended with an upstream
  error that is not io.EOF, the upstream stream closes without an error and the goroutine of
  the requests has reported none, the handler returns an error that the server answers with
  the upstream error's code, message and details; taken as it is, an error that came from
  another server would be answered as internal, with an empty message.\<close>

theorem forward_keeps_error:
  assumes "forward call info downstream = Inr s0" and "forward_run P s0 s" and "fwRsp s = RspDone r"
    and "rspEnd s = Some err" and "asType err = Some cerr" and "\<not> errorsIs err EOF"
    and "\<And>u e u'. upClose P u e u' \<Longrightarrow> e = None" and "\<And>e. fwReq s \<noteq> ReqSent (Some e)"
  shows "(\<exists>e. r = Some e \<and> asConnectError ct e = ConnectError (code cerr) (message cerr) (details cerr) False None) \<and>
    (if remote cerr then asConnectError ct err = withCause err (newError CodeInternal []) else asConnectError ct err = cerr)"
  using error_kept [OF assms, where ct = ct] assms(5) by (simp add: asConnectError_def)

theorem forward_keeps_error_witness:
  "\<exists>s e. forward_run (samplePeers (Inr ''q'') (Conn (ConnectError CodeNotFound ''gone'' [] True None))) sampleForward s \<and>
     fwRsp s = RspDone (Some e) \<and> asConnectError message e = ConnectError CodeNotFound ''gone'' [] False None"
proof -
  let ?err = "Conn (ConnectError CodeNotFound ''gone'' [] True None)"
  let ?P = "samplePeers (Inr ''q'') ?err"
  obtain s r where s: "forward_run ?P sampleForward s" "fwRsp s = RspDone r" "rspEnd s = Some ?err" "fwReq s = ReqReceive"
    using sample_ends [of "Inr ''q''" ?err] by (elim exE conjE) (rule that)
  have "\<And>u e u'. upClose ?P u e u' \<Longrightarrow> e = None" "\<And>e. fwReq s \<noteq> ReqSent (Some e)" "asType ?err = Some (ConnectError CodeNotFound ''gone'' [] True None)"
      "\<not> errorsIs ?err EOF"
    using s(4) by (simp_all add: samplePeers_def)
  from forward_keeps_error [OF sample_forward s(1-3) this(3,4,1,2), where ct = message] show ?thesis
    using s(1,2) by auto
qed

text \<open>The cancellation of the upstream call can hide why it was cancelled: when receiving a request
  fails, forwardRequests cancels the upstream call before it reports its error, and if the
  cancelled upstream call fails first, the handler returns that failure; in another order it
  returns the error of the request.\<close>

theorem forward_cancel_race:
  assumes "forward call info downstream = Inr s0" and "downReceive P (fwDown s0) (Inl err) d" and "\<not> errorsIs err EOF"
    and "upReceive P (upCancel P (fwUp s0)) (Inl err') u" and "\<not> errorsIs err' EOF" and "upClose P u None u'"
  shows "(\<exists>s. forward_run P s0 s \<and> fwRsp s = RspDone (errorsJoin (peerText P) (forwardError (Some err')) None)) \<and>
    (\<exists>s. forward_run P s0 s \<and> fwRsp s = RspDone (errorsJoin (peerText P) (Some err) None))"
proof -
  note start = forward_start [OF assms(1)]
  define s1 where "s1 = s0\<lparr>fwDown := d, fwReq := receivedRequest (Inl err), reqTaken := taken (reqTaken s0) (Inl err)\<rparr>"
  define s2 where "s2 = s1\<lparr>fwUp := upCancel P (fwUp s1), fwReq := ReqReturn (Some err)\<rparr>"
  have a: "forward_step P s0 s1"
    unfolding s1_def by (rule forward_step.req_receive [OF start(1) assms(2)])
  have b: "forward_step P s1 s2"
    unfolding s2_def by (rule forward_step.req_cancel) (simp add: s1_def receivedRequest_def assms(3))
  note run = forward_into [OF a forward_last [OF b]]
  have s2: "fwRsp s2 = RspReceive" "fwUp s2 = upCancel P (fwUp s0)" "fwReq s2 = ReqReturn (Some err)"
    using start by (simp_all add: s2_def s1_def)
  obtain s where s: "forward_run P s2 s" "fwRsp s = RspDone (errorsJoin (peerText P) (forwardError (Some err')) None)"
    using rsp_finish [where s = s2 and P = P and err = err' and u = u and e = None and u' = u'] s2 assms(4-6)
    by (auto simp: selectSent_def)
  let ?s3 = "s2\<lparr>fwReq := ReqSent (Some err)\<rparr>"
  have c: "forward_step P s2 ?s3"
    by (rule forward_step.req_return [OF s2(3)])
  obtain t where t: "forward_run P ?s3 t" "fwRsp t = RspDone (errorsJoin (peerText P) (Some err) None)"
    using rsp_finish [where s = ?s3 and P = P and err = err' and u = u and e = None and u' = u'] s2 assms(4,6)
    by (auto simp: selectSent_def)
  show ?thesis
    using rtranclp_trans [OF run s(1)] s(2) rtranclp_trans [OF run forward_into [OF c t(1)]] t(2) by blast
qed

theorem forward_cancel_race_witness:
  "\<exists>s. forward_run (samplePeers (Inl (Conn (newError CodeInvalidArgument ''bad''))) (Conn (contextError message ContextCanceled)))
       sampleForward s \<and>
     (case fwRsp s of RspDone (Some e) \<Rightarrow> code (asConnectError message e) = CodeCanceled | _ \<Rightarrow> False)"
proof -
  let ?err = "Conn (newError CodeInvalidArgument ''bad'')" and ?fin = "Conn (contextError message ContextCanceled)"
  let ?P = "samplePeers (Inl ?err) ?fin"
  have a: "downReceive ?P (fwDown sampleForward) (Inl ?err) 1" "upReceive ?P (upCancel ?P (fwUp sampleForward)) (Inl ?fin) 1"
      "upClose ?P 1 None 1"
    by (simp_all add: samplePeers_def sampleForward_def)
  have b: "\<not> errorsIs ?err EOF" "\<not> errorsIs ?fin EOF"
    by (simp_all add: newError_def contextError_def withCause_def)
  obtain s where "forward_run ?P sampleForward s" "fwRsp s = RspDone (errorsJoin (peerText ?P) (forwardError (Some ?fin)) None)"
    using forward_cancel_race [OF sample_forward a(1) b(1) a(2) b(2) a(3)] by blast
  then show ?thesis
    by (intro exI [of _ s])
      (simp add: errorsJoin_def forwardError_simps contextError_def newError_def withCause_def asConnectError_def)
qed

lemma map_Some_map:
  "map f xs = map Some ys \<Longrightarrow> (\<And>x y. x \<in> set xs \<Longrightarrow> f x = Some y \<Longrightarrow> h y = g x) \<Longrightarrow> map h ys = map g xs"
  by (induction xs arbitrary: ys) (auto simp: Cons_eq_map_conv)

text \<open>C39: A relayed method that is mounted again has the types its handler uses: the method that a
  server resolves from the spec of a relayed method, without a resolver of its own, has the
  same descriptor and the same message types as the relaying handler, and all relayed methods
  of a service whose methods have distinct names have distinct procedures.\<close>

theorem forward_types_agree:
  assumes "Forward D M desc = Some f"
  shows "methodFromSpec M (spec.truncate (fwSpec f)) None =
      Some \<lparr>spec = spec.truncate (fwSpec f), descriptor = desc, requestT = requestType f, responseT = responseType f\<rparr> \<and>
    (\<forall>service fs. ForwardService D M service = map Some fs \<longrightarrow> distinct (map (MtdName D) (Methods (meRegistries M) service)) \<longrightarrow>
       (\<forall>m \<in> set (Methods (meRegistries M) service). ParentName D m = SvcName service) \<longrightarrow>
       distinct (map (Procedure \<circ> fwSpec) fs))"
proof (intro conjI allI impI)
  show "methodFromSpec M (spec.truncate (fwSpec f)) None =
      Some \<lparr>spec = spec.truncate (fwSpec f), descriptor = desc, requestT = requestType f, responseT = responseType f\<rparr>"
    using assms
    by (auto simp: Forward_def methodFromSpec_def specFromDescriptor_def spec.truncate_def Let_def split: option.splits)
  fix service fs
  assume fs: "ForwardService D M service = map Some fs"
    and d: "distinct (map (MtdName D) (Methods (meRegistries M) service))"
    and svc: "\<forall>m \<in> set (Methods (meRegistries M) service). ParentName D m = SvcName service"
  let ?ms = "Methods (meRegistries M) service"
  have "map (Procedure \<circ> fwSpec) fs = map (\<lambda>m. ''/'' @ SvcName service @ ''/'' @ MtdName D m) ?ms"
    by (rule map_Some_map [OF fs [unfolded ForwardService_def]])
      (use svc in \<open>auto simp: Forward_def specFromDescriptor_def split: option.splits\<close>)
  then show "distinct (map (Procedure \<circ> fwSpec) fs)"
    using d by (simp add: distinct_map inj_on_def)
qed

definition sampleMethods :: "string methodlib" where
  "sampleMethods =
     \<lparr>ParentName = (\<lambda>m. ''library.Library''), MtdName = (\<lambda>m. m), IsStreamingClient = (\<lambda>m. m = ''Upload''),
      IsStreamingServer = (\<lambda>m. False), Idempotency = (\<lambda>m. if m = ''GetBook'' then Some NO_SIDE_EFFECTS else None)\<rparr>"

definition relayed_env :: "(unit, string, string, string, nat, unit, unit) methodEnv" where
  "relayed_env =
     \<lparr>meReflect = meReflect sample_env, meFiles = meFiles sample_env,
      meRegistries = \<lparr>ParentFile = (\<lambda>s. None), Methods = (\<lambda>s. [''GetBook'', ''Upload'']), GlobalFiles = (\<lambda>p. None),
        GlobalTypes = sample_types, dynamicTypes = (\<lambda>fs. sample_types)\<rparr>,
      meParent = (\<lambda>m. None), meDynamic = (\<lambda>m. ()), meDepth = 3,
      meExtension = meExtension sample_env, meUnmarshal = meUnmarshal sample_env\<rparr>"

theorem forward_types_agree_witness:
  "case ForwardService sampleMethods relayed_env () of
     [Some f, Some g] \<Rightarrow>
       map_option descriptor (methodFromSpec relayed_env (spec.truncate (fwSpec f)) None) = Some ''GetBook'' \<and>
       map_option requestT (methodFromSpec relayed_env (spec.truncate (fwSpec f)) None) = Some (requestType f) \<and>
       Procedure (fwSpec f) \<noteq> Procedure (fwSpec g)
   | _ \<Rightarrow> False"
proof -
  obtain f g where fs: "ForwardService sampleMethods relayed_env () = [Some f, Some g]"
      "Forward sampleMethods relayed_env ''GetBook'' = Some f"
    by (simp add: ForwardService_def Forward_def relayed_env_def sample_env_def specFromDescriptor_def sampleMethods_def)
  have "distinct (map (Procedure \<circ> fwSpec) [f, g])"
    using forward_types_agree [OF fs(2), THEN conjunct2, where SvcName1 = "\<lambda>u. ''library.Library''",
        rule_format, of "()" "[f, g]"] fs(1)
    by (simp add: sampleMethods_def relayed_env_def)
  then show ?thesis
    using forward_types_agree [OF fs(2)] by (simp add: fs(1))
qed

end
