(* ===== verification/Proxy.thy ===== *)
theory Proxy
  imports Forward
begin

text \<open>
  A proxy over REST on both sides: the relaying handler of \<open>Forward\<close> between the server stream
  and the client stream of this library.  \<open>q0\<close> and \<open>p0\<close> are the fresh messages that the two
  loops receive into.
\<close>

section \<open>The streams of this library as peers\<close>

definition vanguardPeers ::
  "('mtd, 'typ, 'msg, 'fld, 'f, 'v, 'c, 'w) serverEnv \<Rightarrow> ('mtd2, 'typ2, 'msg, 'fld, 'f, 'v, 'c2, 'w2) clientEnv \<Rightarrow> 'v \<Rightarrow> 'v \<Rightarrow>
   ('v, 'v, ('mtd, 'typ, 'fld, 'c, 'w) serverStream, ('mtd2, 'typ2, 'fld, 'w2) clientStream) peers"
where
  "vanguardPeers S E q0 p0 =
     \<lparr>downReceive = (\<lambda>d r d'.
        case Receive S (ProtoMessage q0) d of
          Some (None, ProtoMessage m, d1) \<Rightarrow> r = Inr m \<and> d' = d1
        | Some (Some err, _, d1) \<Rightarrow> r = Inl err \<and> d' = d1
        | _ \<Rightarrow> False),
      downSend = (\<lambda>d i m e d'.
        Send S (ProtoMessage m) (case i of None \<Rightarrow> d | Some i \<Rightarrow> d\<lparr>ssInfo := mdHeader i\<rparr>) = (e, d')),
      upSend = (\<lambda>u m e u'. clientSend E (ProtoMessage m) u = (Returns e, u')),
      upCloseStart = (\<lambda>u. snd (closeSend E u)),
      upCloseSend = (\<lambda>u e u'. closeSend E u = (Returns e, u')),
      upReceive = (\<lambda>u r u'.
        case clientReceive E (ProtoMessage p0) u of
          (Returns (None, ProtoMessage m), u1) \<Rightarrow> r = Inr m \<and> u' = u1
        | (Returns (Some err, _), u1) \<Rightarrow> r = Inl err \<and> u' = u1
        | _ \<Rightarrow> False),
      upClose = (\<lambda>u e u'. e = None \<and> u' = clientClose u),
      upCancel = (\<lambda>u. u\<lparr>csCtxErr := (case csCtxErr u of None \<Rightarrow> Some ContextCanceled | Some e \<Rightarrow> Some e)\<rparr>),
      upMoves = (\<lambda>u u'. \<exists>op. (case op of RequestReturns r \<Rightarrow> True | ContextEnds err \<Rightarrow> True | ReaderCloses err \<Rightarrow> True | _ \<Rightarrow> False) \<and>
        client_step E u op (Returns None) u'),
      upMetadata = (\<lambda>u. \<lparr>mdHeader = (case csInfo u of None \<Rightarrow> (\<lambda>k. None) | Some i \<Rightarrow> ciResponseHeader i), mdTrailer = (\<lambda>k. None)\<rparr>),
      peerText = connText (texts S)\<rparr>"

lemma moves_settled:
  "moves u u' \<Longrightarrow> responded u \<Longrightarrow> responded u' \<and>
   mdHeader (upMetadata (vanguardPeers S E q0 p0) u') = mdHeader (upMetadata (vanguardPeers S E q0 p0) u)"
  by (simp add: moves_def keeps_def vanguardPeers_def)

lemma upReceive_cases:
  assumes "upReceive (vanguardPeers S E q0 p0) u r u'"
  obtains e msg where "clientReceive E (ProtoMessage p0) u = (Returns (e, msg), u')"
    and "(case r of Inl err \<Rightarrow> e = Some err | Inr m \<Rightarrow> e = None \<and> msg = ProtoMessage m)"
  using assms
  by (auto simp: vanguardPeers_def split: prod.splits progress.splits option.splits anyMessage.splits)

lemma received_responded:
  "clientReceive E msg u = (Returns (None, msg'), u') \<Longrightarrow> responded u"
  by (auto simp: clientReceive_def awaitResponse_def Let_def split: if_splits option.splits prod.splits anyMessage.splits)

text \<open>The client stream keeps the contract of an upstream stream: its header is known once it has
  a response.\<close>

interpretation vanguard: settled_upstream "vanguardPeers S E q0 p0" responded
  for S :: "('mtd, 'typ, 'msg, 'fld, 'f, 'v, 'c, 'w) serverEnv"
    and E :: "('mtd2, 'typ2, 'msg, 'fld, 'f, 'v, 'c2, 'w2) clientEnv" and q0 p0 :: 'v
proof
  fix u u' :: "('mtd2, 'typ2, 'fld, 'w2) clientStream" and m
  assume "upReceive (vanguardPeers S E q0 p0) u (Inr m) u'"
  then obtain msg where r: "clientReceive E (ProtoMessage p0) u = (Returns (None, msg), u')"
    by (auto elim: upReceive_cases)
  then have "responded u" by (rule received_responded)
  then show "responded u'"
    using clientReceive_moves [OF r] by (simp add: moves_def keeps_def)
next
  fix u u' :: "('mtd2, 'typ2, 'fld, 'w2) clientStream" and r
  assume s: "responded u" and "upReceive (vanguardPeers S E q0 p0) u r u'"
  from this(2) obtain e msg where r: "clientReceive E (ProtoMessage p0) u = (Returns (e, msg), u')"
    by (rule upReceive_cases)
  show "responded u' \<and> mdHeader (upMetadata (vanguardPeers S E q0 p0) u') = mdHeader (upMetadata (vanguardPeers S E q0 p0) u)"
    by (rule moves_settled [OF clientReceive_moves [OF r] s])
next
  fix u u' :: "('mtd2, 'typ2, 'fld, 'w2) clientStream" and q e
  assume s: "responded u" and "upSend (vanguardPeers S E q0 p0) u q e u'"
  then have "clientSend E (ProtoMessage q) u = (Returns e, u')"
    by (simp add: vanguardPeers_def)
  then show "responded u' \<and> mdHeader (upMetadata (vanguardPeers S E q0 p0) u') = mdHeader (upMetadata (vanguardPeers S E q0 p0) u)"
    by (rule moves_settled [OF clientSend_moves s])
next
  fix u :: "('mtd2, 'typ2, 'fld, 'w2) clientStream"
  assume s: "responded u"
  obtain r u' where c: "closeSend E u = (r, u')" by fastforce
  then show "responded (upCloseStart (vanguardPeers S E q0 p0) u) \<and>
      mdHeader (upMetadata (vanguardPeers S E q0 p0) (upCloseStart (vanguardPeers S E q0 p0) u)) =
      mdHeader (upMetadata (vanguardPeers S E q0 p0) u)"
    using moves_settled [OF closeSend_moves [OF c] s] by (simp add: vanguardPeers_def)
next
  fix u u' :: "('mtd2, 'typ2, 'fld, 'w2) clientStream" and e
  assume s: "responded u" and "upCloseSend (vanguardPeers S E q0 p0) u e u'"
  then have "closeSend E u = (Returns e, u')"
    by (simp add: vanguardPeers_def)
  then show "responded u' \<and> mdHeader (upMetadata (vanguardPeers S E q0 p0) u') = mdHeader (upMetadata (vanguardPeers S E q0 p0) u)"
    by (rule moves_settled [OF closeSend_moves s])
next
  fix u u' :: "('mtd2, 'typ2, 'fld, 'w2) clientStream" and e
  assume s: "responded u" and "upClose (vanguardPeers S E q0 p0) u e u'"
  then have "u' = clientClose u"
    by (simp add: vanguardPeers_def)
  then show "responded u' \<and> mdHeader (upMetadata (vanguardPeers S E q0 p0) u') = mdHeader (upMetadata (vanguardPeers S E q0 p0) u)"
    using moves_settled [OF clientClose_moves s] by simp
next
  fix u :: "('mtd2, 'typ2, 'fld, 'w2) clientStream"
  assume "responded u"
  then show "responded (upCancel (vanguardPeers S E q0 p0) u) \<and>
      mdHeader (upMetadata (vanguardPeers S E q0 p0) (upCancel (vanguardPeers S E q0 p0) u)) =
      mdHeader (upMetadata (vanguardPeers S E q0 p0) u)"
    by (simp add: vanguardPeers_def)
next
  fix u u' :: "('mtd2, 'typ2, 'fld, 'w2) clientStream"
  assume s: "responded u" and "upMoves (vanguardPeers S E q0 p0) u u'"
  then obtain op where "client_step E u op (Returns None) u'"
    by (auto simp: vanguardPeers_def)
  then show "responded u' \<and> mdHeader (upMetadata (vanguardPeers S E q0 p0) u') = mdHeader (upMetadata (vanguardPeers S E q0 p0) u)"
    by (rule moves_settled [OF step_moves s])
qed

section \<open>What ends a call\<close>

lemma vanguard_simps [simp]:
  "upClose (vanguardPeers S E q0 p0) u e u' \<longleftrightarrow> e = None \<and> u' = clientClose u"
  "peerText (vanguardPeers S E q0 p0) = connText (texts S)"
  by (simp_all add: vanguardPeers_def)

lemma receive_dispatch:
  assumes "\<not> received u" and "responded u" and "csDispatch u = Some err"
  shows "upReceive (vanguardPeers S E q0 p0) u (Inl err) (u\<lparr>received := True\<rparr>)"
  using assms by (simp add: vanguardPeers_def clientReceive_def awaitResponse_def)

section \<open>Properties\<close>

text \<open>C21: A proxy hands the upstream response header on: with the streams of this library on both
  sides, every response is sent downstream with metadata whose header has, for each key, the
  value of the upstream response, and for hop-by-hop keys and keys the upstream response does
  not have the value it had before; whatever the interleaving of the two loops, the results of
  the HTTP request and the end of the context.\<close>

theorem proxy_metadata:
  assumes "forward call (Some (h, md)) downstream = Inr s0" and "forward_run (vanguardPeers S E q0 p0) s0 s"
    and "csInfo (fwUp s) = Some info"
  shows "list_all (\<lambda>(m, i). case i of
      None \<Rightarrow> False
    | Some md' \<Rightarrow> mdHeader md' = (\<lambda>k. if k \<in> set hopByHopHeaders then mdHeader md k
        else case ciResponseHeader info k of Some vals \<Rightarrow> Some vals | None \<Rightarrow> mdHeader md k)) (rspGiven s)"
proof -
  have up: "mdHeader (upMetadata (vanguardPeers S E q0 p0) (fwUp s)) = ciResponseHeader info"
    using assms(3) by (simp add: vanguardPeers_def)
  show ?thesis
    using vanguard.given_header [OF assms(1,2)] by (fastforce simp: list_all_iff copyHeader_def up)
qed

text \<open>A proxy reports a broken connection as a regular end: when the round trip of the upstream call
  failed because the other server closed the connection, so that the error has io.EOF as its
  cause, Receive returns it as unavailable, but forwardResponses takes it for the end of the
  stream, and the handler returns no error.\<close>

theorem proxy_hides_failure:
  assumes "fwRsp s = RspReceive" and "\<not> received (fwUp s)" and "responded (fwUp s)"
    and "csDispatch (fwUp s) = Some (doError E err u)" and "csCtxErr u = None" and "errorsIs err EOF"
    and "\<And>e. fwReq s \<noteq> ReqSent (Some e)"
  shows "\<exists>s' e cerr. forward_run (vanguardPeers S E q0 p0) s s' \<and> fwRsp s' = RspDone None \<and> rspGiven s' = rspGiven s \<and>
    rspEnd s' = Some e \<and> asType e = Some cerr \<and> code cerr = CodeUnavailable"
proof -
  let ?P = "vanguardPeers S E q0 p0"
  obtain cerr where e: "doError E err u = Conn cerr" "code cerr = CodeUnavailable" "cause cerr = Some err"
    using assms(5) by (simp add: doError_def withCause_def)
  then have eof: "errorsIs (Conn cerr) EOF"
    using assms(6) by (cases cerr) simp
  have recv: "upReceive ?P (fwUp s) (Inl (Conn cerr)) ((fwUp s)\<lparr>received := True\<rparr>)"
    using receive_dispatch [OF assms(2,3)] assms(4) e(1) by metis
  obtain s' where s': "forward_run ?P s s'" "rspEnd s' = Some (Conn cerr)" "rspGiven s' = rspGiven s"
      "fwRsp s' = RspDone (errorsJoin (peerText ?P) (selectSent (fwReq s) (if errorsIs (Conn cerr) EOF then None else forwardError (Some (Conn cerr)))) None)"
    using rsp_finish [OF assms(1) recv, of None "clientClose ((fwUp s)\<lparr>received := True\<rparr>)"] by auto
  have "selectSent (fwReq s) None = None"
    using assms(7) by (auto simp: selectSent_def split: reqPhase.split option.split)
  then have "fwRsp s' = RspDone None"
    using s'(4) eof by (simp add: errorsJoin_def)
  then show ?thesis
    using s' e(2) by (intro exI [of _ s'] exI [of _ "Conn cerr"] exI [of _ cerr]) simp
qed


section \<open>A sample proxy\<close>

definition brokenCall :: "(string, unit, string, unit) clientStream" where
  "brokenCall = respond errorClient (Inl (doError errorClient (Wrapped ''Post: '' EOF) (sampleCall StreamTypeUnary)))
     (sampleCall StreamTypeUnary)"

definition proxyState ::
  "(string, unit, string, unit, unit) serverStream \<Rightarrow> (string, unit, string, unit) clientStream \<Rightarrow> metadata option \<Rightarrow>
   (typedMsg, typedMsg, (string, unit, string, unit, unit) serverStream, (string, unit, string, unit) clientStream) forwardState"
where
  "proxyState ss u i =
     \<lparr>fwReq = ReqReceive, fwRsp = RspReceive, fwDown = ss, fwUp = u, fwInfo = i, headersCopied = False,
      reqTaken = [], reqGiven = [], rspTaken = [], rspGiven = [], rspEnd = None\<rparr>"

definition proxied :: "(string, unit, string, unit, unit) serverStream" where
  "proxied = startStream download_target (upload_request\<lparr>rqPattern := pattern download_target\<rparr>) emptyResponse None None"

lemma proxy_started: "forward (\<lambda>h. Inr u) (map_option (Pair h) i) ss = Inr (proxyState ss u i)"
  by (cases i) (simp_all add: forward_def proxyState_def)

theorem proxy_hides_failure_witness:
  "\<exists>s e cerr. forward_run (vanguardPeers uploadEnv errorClient uploadMsg uploadMsg) (proxyState proxied brokenCall None) s \<and>
     fwRsp s = RspDone None \<and> rspEnd s = Some e \<and> asType e = Some cerr \<and> code cerr = CodeUnavailable"
proof -
  let ?s = "proxyState proxied brokenCall None" and ?u = "sampleCall StreamTypeUnary"
  have a: "fwRsp ?s = RspReceive" "\<not> received (fwUp ?s)" "responded (fwUp ?s)"
      "csDispatch (fwUp ?s) = Some (doError errorClient (Wrapped ''Post: '' EOF) ?u)" "csCtxErr ?u = None"
    by (simp_all add: proxyState_def brokenCall_def respond_def sampleCall_def newClientStream_def)
  have b: "errorsIs (Wrapped ''Post: '' EOF) EOF" "\<And>e. fwReq ?s \<noteq> ReqSent (Some e)"
    by (simp_all add: proxyState_def)
  from proxy_hides_failure [OF a b(1) b(2), where S = uploadEnv and ?q0.0 = uploadMsg and ?p0.0 = uploadMsg]
  show ?thesis
    by (elim exE conjE) (intro exI conjI)
qed

text \<open>An upstream that has answered a download, with a header of its own.\<close>

definition answeredCall :: "(string, unit, string, unit) clientStream" where
  "answeredCall =
     respond (sampleClient (Inl EOF))
       (Inr \<lparr>hrId = 1, hrStatus = 200, hrHeader = [''Content-Type'' \<mapsto> [''text/plain''], ''X-Id'' \<mapsto> [''7''], ''Te'' \<mapsto> [''gzip'']],
             hrBody = \<lparr>rdData = ''abc'', rdErr = EOF\<rparr>\<rparr>)
       (newClientStream (Some \<lparr>ciRequestHeader = (\<lambda>k. None), ciResponseEncoding = [], ciResponseHeader = (\<lambda>k. None)\<rparr>) None None
         (Some download_target) (spec (sample_method ''Upload'' StreamTypeServer)))"

lemma answered_receives:
  obtains m u where "clientReceive (sampleClient (Inl EOF)) (ProtoMessage uploadMsg) answeredCall = (Returns (None, ProtoMessage m), u)"
    and "body_response uploadEnv [''file''] m"
    and "csInfo u = Some \<lparr>ciRequestHeader = (\<lambda>k. None), ciResponseEncoding = CompressionNameIdentity,
      ciResponseHeader = [''Content-Type'' \<mapsto> [''text/plain''], ''X-Id'' \<mapsto> [''7''], ''Te'' \<mapsto> [''gzip'']]\<rparr>"
proof -
  let ?E = "sampleClient (Inl EOF)"
  let ?resp = "\<lparr>hrId = 1, hrStatus = 200, hrHeader = [''Content-Type'' \<mapsto> [''text/plain''], ''X-Id'' \<mapsto> [''7''], ''Te'' \<mapsto> [''gzip'']],
             hrBody = \<lparr>rdData = ''abc'', rdErr = EOF\<rparr>\<rparr>"
  let ?m = "putMessage uploadLib uploadMsg [''file''] (setHTTPBody uploadReflect uploadLib typeName (foldl (childMessage uploadLib) uploadMsg [''file'']) ''text/plain'' ''abc'')"
  have a: "csResponse answeredCall = Some ?resp" "csDispatch answeredCall = None" "responded answeredCall" "\<not> received answeredCall"
    "csRule answeredCall = Some download_target" "csSpec answeredCall = spec (sample_method ''Upload'' StreamTypeServer)"
    using respond_plain [where resp = ?resp and E = ?E and s = "newClientStream (Some \<lparr>ciRequestHeader = (\<lambda>k. None), ciResponseEncoding = [], ciResponseHeader = (\<lambda>k. None)\<rparr>) None None
         (Some download_target) (spec (sample_method ''Upload'' StreamTypeServer))"]
    by (simp_all add: answeredCall_def header_get_def sampleClient_def newClientStream_def)
  have info: "csInfo answeredCall = Some \<lparr>ciRequestHeader = (\<lambda>k. None), ciResponseEncoding = CompressionNameIdentity,
      ciResponseHeader = [''Content-Type'' \<mapsto> [''text/plain''], ''X-Id'' \<mapsto> [''7''], ''Te'' \<mapsto> [''gzip'']]\<rparr>"
    by (simp add: answeredCall_def respond_def finishResponse_def responseBody_def header_get_def newClientStream_def
      closeResponse_def Let_def fun_eq_iff)
  have m: "setBodyHTTPBody plainTexts uploadReflect uploadLib typeName [''file''] uploadMsg ''text/plain'' ''abc'' = (None, ?m)"
    by (simp add: setBodyHTTPBody_def hostPath_def walk_messages [OF upload_path(1)])
  have body: "body_response uploadEnv [''file''] ?m"
    by (simp add: body_response_def uploadEnv_def uploadReflect_def uploadLib_def sample_def isHTTPBodyPath_def uploadMsg_def
      httpBodyTypeName_def setHTTPBody_def setNamed_def childMessage_def Let_def)
  have chunk: "readChunk \<lparr>rdData = ''abc'', rdErr = EOF\<rparr> = (Inr ''abc'', \<lparr>rdData = [], rdErr = EOF\<rparr>)"
    by code_simp
  show thesis
    by (rule that [of ?m "answeredCall\<lparr>csResponse := Some (?resp\<lparr>hrBody := \<lparr>rdData = [], rdErr = EOF\<rparr>\<rparr>)\<rparr>"])
     (use a m body info chunk in \<open>simp_all add: clientReceive_def awaitResponse_def sample_method_def serverStreaming_def receiveChunk_def download_target_def
       upload_target_def header_get_def sampleClient_def Let_def\<close>)
qed

lemma proxied_open: "download_open [''file''] [] (proxied\<lparr>ssInfo := h\<rparr>)"
  by (simp add: proxied_def download_open_def startStream_def newServerStream_def head_ok_def emptyResponse_def
      download_target_def upload_target_def sample_method_def serverStreaming_def)

theorem proxy_metadata_witness:
  "\<exists>s m md. forward_run (vanguardPeers uploadEnv (sampleClient (Inl EOF)) uploadMsg uploadMsg)
       (proxyState proxied answeredCall (Some \<lparr>mdHeader = [''Te'' \<mapsto> [''trailers'']], mdTrailer = (\<lambda>k. None)\<rparr>)) s \<and>
     rspGiven s = [(m, Some md)] \<and> mdHeader md ''X-Id'' = Some [''7''] \<and> mdHeader md ''Te'' = Some [''trailers'']"
proof -
  let ?E = "sampleClient (Inl EOF)" and ?md = "\<lparr>mdHeader = [''Te'' \<mapsto> [''trailers'']], mdTrailer = (\<lambda>k. None)\<rparr>"
  obtain m u where r: "clientReceive ?E (ProtoMessage uploadMsg) answeredCall = (Returns (None, ProtoMessage m), u)"
      "body_response uploadEnv [''file''] m"
      "csInfo u = Some \<lparr>ciRequestHeader = (\<lambda>k. None), ciResponseEncoding = CompressionNameIdentity,
        ciResponseHeader = [''Content-Type'' \<mapsto> [''text/plain''], ''X-Id'' \<mapsto> [''7''], ''Te'' \<mapsto> [''gzip'']]\<rparr>"
    by (rule answered_receives)
  define P where "P = (vanguardPeers uploadEnv ?E uploadMsg uploadMsg ::
    (typedMsg, typedMsg, (string, unit, string, unit, unit) serverStream, (string, unit, string, unit) clientStream) peers)"
  define s where "s = proxyState proxied answeredCall (Some ?md)"
  define s1 where "s1 = s\<lparr>fwUp := u, fwRsp := RspCopy (Inr m), rspTaken := taken (rspTaken s) (Inr m), rspEnd := rspEnd s\<rparr>"
  define md where "md = copyMetadata ?md False (upMetadata P u)"
  define s2 where "s2 = s1\<lparr>fwRsp := RspSend m, fwInfo := Some md, headersCopied := True\<rparr>"
  obtain d where send: "Send uploadEnv (ProtoMessage m) (proxied\<lparr>ssInfo := mdHeader md\<rparr>) = (None, d)"
    by (rule plain_Send [OF proxied_open r(2)])
  define s3 where "s3 = s2\<lparr>fwDown := d, fwRsp := RspReceive, rspGiven := [(m, Some md)]\<rparr>"
  have a: "forward_step P s s1"
    using forward_step.rsp_receive [where s = s and P = P and r = "Inr m" and u = u] r(1)
    by (simp add: s1_def s_def proxyState_def P_def vanguardPeers_def)
  have b: "forward_step P s1 s2"
    using forward_step.rsp_copy [where s = s1 and P = P and r = "Inr m"]
    by (simp add: s2_def s1_def s_def proxyState_def receivedResponse_def md_def)
  have c: "forward_step P s2 s3"
    using forward_step.rsp_send [where s = s2 and P = P and m = m and e = None and d = d] send
    by (simp add: s3_def s2_def s1_def s_def proxyState_def P_def vanguardPeers_def sentResponse_def)
  have run: "forward_run P s s3"
    by (intro forward_into [OF a] forward_into [OF b] forward_last [OF c])
  have start: "forward (\<lambda>h. Inr answeredCall) (Some ((\<lambda>k. None), ?md)) proxied = Inr s"
    using proxy_started [of answeredCall "\<lambda>k. None" "Some ?md"] by (simp add: s_def)
  have up: "csInfo (fwUp s3) = Some \<lparr>ciRequestHeader = (\<lambda>k. None), ciResponseEncoding = CompressionNameIdentity,
        ciResponseHeader = [''Content-Type'' \<mapsto> [''text/plain''], ''X-Id'' \<mapsto> [''7''], ''Te'' \<mapsto> [''gzip'']]\<rparr>"
    using r(3) by (simp add: s3_def s2_def s1_def)
  from proxy_metadata [OF start run [unfolded P_def] up]
  have "mdHeader md = (\<lambda>k. if k \<in> set hopByHopHeaders then mdHeader ?md k
      else case ciResponseHeader \<lparr>ciRequestHeader = (\<lambda>k. None), ciResponseEncoding = CompressionNameIdentity,
        ciResponseHeader = [''Content-Type'' \<mapsto> [''text/plain''], ''X-Id'' \<mapsto> [''7''], ''Te'' \<mapsto> [''gzip'']]\<rparr> k of
        Some vals \<Rightarrow> Some vals | None \<Rightarrow> mdHeader ?md k)"
    by (simp add: s3_def del: fun_upd_apply)
  then have "mdHeader md ''X-Id'' = Some [''7'']" "mdHeader md ''Te'' = Some [''trailers'']"
    by (simp_all add: hopByHopHeaders_def)
  then show ?thesis
    using run by (intro exI [of _ s3] exI [of _ m] exI [of _ md]) (simp add: P_def s_def s3_def)
qed

text \<open>An upstream that has answered with the error of a sample handler.\<close>

definition failedCall :: "response \<Rightarrow> (string, unit, string, unit) clientStream" where
  "failedCall r = respond errorClient (Inr (deliveredResponse r)) (sampleCall StreamTypeUnary)"


end
