(* ===== verification/Grpc.thy ===== *)
theory Grpc
  imports EndToEnd Forward Base64
begin

text \<open>
  The bridge from grpc-go stubs: \<open>vanguardgrpc/vanguardgrpc.go\<close>.  The handlers of the stubs are
  arguments; they act on the call through the adapter, so a stub handler is a function of the
  context that takes the adapter's state to a result and the state after it (\<open>None\<close> for a
  panic).  The state is the server stream, whose \<open>ssInfo\<close> is the response metadata, and the
  response trailer.  What belongs to grpc-go and to connect is the record \<open>grpclib\<close>: the
  binary header encoding, the key under which \<open>connect.Header\<close> keeps a header, its
  enumeration \<open>All\<close>, \<open>status.FromError\<close>, and the parser of addresses.  Header keys are ASCII.
\<close>

section \<open>Metadata\<close>

record 'addr grpclib =
  EncodeBinaryHeader :: "string \<Rightarrow> string"
  DecodeBinaryHeader :: "string \<Rightarrow> goError + string"
  headerKey :: "string \<Rightarrow> string"
  headerAll :: "headers \<Rightarrow> (string \<times> string list) list"
  statusFromError :: "goError \<Rightarrow> status option"
  ParseAddrPort :: "string \<Rightarrow> 'addr option"
  quote :: "string \<Rightarrow> string"
  errText :: "connectError \<Rightarrow> string"

definition binaryHeaderSuffix :: string where
  "binaryHeaderSuffix = ''-bin''"

definition reservedHeaders :: "string list" where
  "reservedHeaders =
     [''grpc-message-type'', ''grpc-encoding'', ''grpc-message'', ''grpc-status'', ''grpc-timeout'', ''te'']"

definition lowerByte :: "char \<Rightarrow> char" where
  "lowerByte c = (let n = of_char c :: nat in if 65 \<le> n \<and> n \<le> 90 then char_of (n + 32) else c)"

definition toLower :: "string \<Rightarrow> string" where
  "toLower s = map lowerByte s"

text \<open>\<open>metadata.MD\<close> and its \<open>Append\<close> of one value; \<open>Add\<close> of \<open>connect.Header\<close>.\<close>

type_synonym md = headers

definition headerValues :: "headers \<Rightarrow> string \<Rightarrow> string list" where
  "headerValues h k = (case h k of None \<Rightarrow> [] | Some vals \<Rightarrow> vals)"

definition mdAppend :: "string \<Rightarrow> string \<Rightarrow> md \<Rightarrow> md" where
  "mdAppend key value m = m(toLower key \<mapsto> headerValues m (toLower key) @ [value])"

definition headerAdd :: "'addr grpclib \<Rightarrow> string \<Rightarrow> string \<Rightarrow> headers \<Rightarrow> headers" where
  "headerAdd G key value h = h(headerKey G key \<mapsto> headerValues h (headerKey G key) @ [value])"

text \<open>The two loops of \<open>incomingMetadata\<close>.\<close>

fun incomingValues :: "'addr grpclib \<Rightarrow> string \<Rightarrow> string list \<Rightarrow> md \<Rightarrow> goError + md" where
  "incomingValues G key [] m = Inr m"
| "incomingValues G key (value # vals) m =
     (if has_suffix key binaryHeaderSuffix then
        (case DecodeBinaryHeader G value of
           Inl err \<Rightarrow>
             Inl (Conn (withCause err (newError CodeInternal
               (''malformed binary metadata '' @ quote G value @ '' in header '' @ quote G key @ '': '' @
                errorText (errText G) err))))
         | Inr decoded \<Rightarrow> incomingValues G key vals (mdAppend key decoded m))
      else incomingValues G key vals (mdAppend key value m))"

fun incomingEntries :: "'addr grpclib \<Rightarrow> (string \<times> string list) list \<Rightarrow> md \<Rightarrow> goError + md" where
  "incomingEntries G [] m = Inr m"
| "incomingEntries G ((key, vals) # entries) m =
     (let key = toLower key in
      if List.member reservedHeaders key then incomingEntries G entries m
      else
        (case incomingValues G key vals m of
           Inl err \<Rightarrow> Inl err
         | Inr m \<Rightarrow> incomingEntries G entries m))"

definition incomingMetadata :: "'addr grpclib \<Rightarrow> headers \<Rightarrow> goError + md" where
  "incomingMetadata G h = incomingEntries G (headerAll G h) (\<lambda>k. None)"

definition mergeEntry :: "'addr grpclib \<Rightarrow> string \<times> string list \<Rightarrow> headers \<Rightarrow> headers" where
  "mergeEntry G entry h =
     (let (key, vals) = entry; binary = has_suffix (toLower key) binaryHeaderSuffix in
      fold (\<lambda>value. headerAdd G key (if binary then EncodeBinaryHeader G value else value)) vals h)"

text \<open>A \<open>metadata.MD\<close> is a Go map: \<open>meta\<close> lists its entries in the order of the iteration.\<close>

definition mergeMetadata :: "'addr grpclib \<Rightarrow> headers \<Rightarrow> (string \<times> string list) list \<Rightarrow> headers" where
  "mergeMetadata G h meta = fold (mergeEntry G) meta h"

section \<open>The call of a stub\<close>

datatype 'addr netAddr = TCPAddr 'addr | StringAddr string

definition peerAddr :: "'addr grpclib \<Rightarrow> string \<Rightarrow> 'addr netAddr" where
  "peerAddr G addr = (case ParseAddrPort G addr of Some addrPort \<Rightarrow> TCPAddr addrPort | None \<Rightarrow> StringAddr addr)"

definition addrNetwork :: "'addr netAddr \<Rightarrow> string" where
  "addrNetwork a = (case a of TCPAddr x \<Rightarrow> ''tcp'' | StringAddr s \<Rightarrow> ''unknown'')"

record ('mtd, 'typ, 'fld, 'c, 'w) transportStream =
  tsMethod :: string
  tsTrailer :: headers
  tsStream :: "('mtd, 'typ, 'fld, 'c, 'w) serverStream"

record 'addr grpcContext =
  ctxIncoming :: md
  ctxPeer :: "'addr netAddr option"

text \<open>\<open>info\<close> is the \<open>CallInfo\<close> of the context, if it has one.\<close>

definition newGRPCContext ::
  "'addr grpclib \<Rightarrow> 'mtd spec \<Rightarrow> 'mtd callInfo option \<Rightarrow> ('mtd, 'typ, 'fld, 'c, 'w) serverStream \<Rightarrow>
   goError + ('addr grpcContext \<times> ('mtd, 'typ, 'fld, 'c, 'w) transportStream)"
where
  "newGRPCContext G sp info stream =
     (case incomingMetadata G (case info of None \<Rightarrow> (\<lambda>k. None) | Some i \<Rightarrow> RequestHeader i) of
        Inl err \<Rightarrow> Inl err
      | Inr incoming \<Rightarrow>
          (let addr = (case info of None \<Rightarrow> [] | Some i \<Rightarrow> PeerAddr i) in
           Inr (\<lparr>ctxIncoming = incoming, ctxPeer = (if addr \<noteq> [] then Some (peerAddr G addr) else None)\<rparr>,
                \<lparr>tsMethod = Procedure sp, tsTrailer = (\<lambda>k. None), tsStream = stream\<rparr>)))"

text \<open>The methods of \<open>transportStream\<close>; those of \<open>serverStreamAdapter\<close> forward to them.\<close>

definition SetHeader ::
  "'addr grpclib \<Rightarrow> (string \<times> string list) list \<Rightarrow> ('mtd, 'typ, 'fld, 'c, 'w) transportStream \<Rightarrow>
   goError option \<times> ('mtd, 'typ, 'fld, 'c, 'w) transportStream"
where
  "SetHeader G meta t =
     (None, t\<lparr>tsStream := (tsStream t)\<lparr>ssInfo := mergeMetadata G (ssInfo (tsStream t)) meta\<rparr>\<rparr>)"

definition SendHeader ::
  "'addr grpclib \<Rightarrow> ('mtd, 'typ, 'msg, 'fld, 'f, 'v, 'c, 'w) serverEnv \<Rightarrow> (string \<times> string list) list \<Rightarrow>
   ('mtd, 'typ, 'fld, 'c, 'w) transportStream \<Rightarrow> goError option \<times> ('mtd, 'typ, 'fld, 'c, 'w) transportStream"
where
  "SendHeader G E meta t =
     (let t = snd (SetHeader G meta t); (e, s) = SendHeaders E (tsStream t) in (e, t\<lparr>tsStream := s\<rparr>))"

definition SetTrailer ::
  "'addr grpclib \<Rightarrow> (string \<times> string list) list \<Rightarrow> ('mtd, 'typ, 'fld, 'c, 'w) transportStream \<Rightarrow>
   goError option \<times> ('mtd, 'typ, 'fld, 'c, 'w) transportStream"
where
  "SetTrailer G meta t = (None, t\<lparr>tsTrailer := mergeMetadata G (tsTrailer t) meta\<rparr>)"

definition SendMsg ::
  "('mtd, 'typ, 'msg, 'fld, 'f, 'v, 'c, 'w) serverEnv \<Rightarrow> 'v anyMessage \<Rightarrow>
   ('mtd, 'typ, 'fld, 'c, 'w) transportStream \<Rightarrow> goError option \<times> ('mtd, 'typ, 'fld, 'c, 'w) transportStream"
where
  "SendMsg E m t = (let (e, s) = Send E m (tsStream t) in (e, t\<lparr>tsStream := s\<rparr>))"

definition RecvMsg ::
  "('mtd, 'typ, 'msg, 'fld, 'f, 'v, 'c, 'w) serverEnv \<Rightarrow> 'v anyMessage \<Rightarrow>
   ('mtd, 'typ, 'fld, 'c, 'w) transportStream \<Rightarrow>
   (goError option \<times> 'v anyMessage \<times> ('mtd, 'typ, 'fld, 'c, 'w) transportStream) option"
where
  "RecvMsg E m t =
     (case Receive E m (tsStream t) of
        None \<Rightarrow> None
      | Some (e, m, s) \<Rightarrow> Some (e, m, t\<lparr>tsStream := s\<rparr>))"

section \<open>Errors\<close>

definition typeNameFromURL_grpc :: "string \<Rightarrow> string" where
  "typeNameFromURL_grpc url =
     (case last_index_byte CHR ''/'' url of Some i \<Rightarrow> drop (i + 1) url | None \<Rightarrow> url)"

definition convertError :: "'addr grpclib \<Rightarrow> goError \<Rightarrow> goError" where
  "convertError G err =
     (case asType err of
        Some connectErr \<Rightarrow> err
      | None \<Rightarrow>
          (case statusFromError G err of
             Some st \<Rightarrow>
               if statusCode st \<noteq> 0 then
                 Conn (withCause err
                   (fold (\<lambda>(url, v). withDetail (typeNameFromURL_grpc url, v)) (statusDetails st)
                     (newError (statusCode st) (statusMessage st))))
               else err
           | None \<Rightarrow> err))"

type_synonym ('mtd, 'typ, 'fld, 'c, 'w) serverFunc =
  "'mtd callInfo option \<Rightarrow> 'mtd spec \<Rightarrow> ('mtd, 'typ, 'fld, 'c, 'w) serverStream \<Rightarrow>
   (goError option \<times> ('mtd, 'typ, 'fld, 'c, 'w) serverStream) option"

type_synonym ('mtd, 'typ, 'fld, 'c, 'w, 'v, 'addr) methodHandler =
  "'addr grpcContext \<Rightarrow> ('mtd, 'typ, 'fld, 'c, 'w) transportStream \<Rightarrow>
   ((goError + 'v anyMessage) \<times> ('mtd, 'typ, 'fld, 'c, 'w) transportStream) option"

type_synonym ('mtd, 'typ, 'fld, 'c, 'w, 'addr) streamHandler =
  "'addr grpcContext \<Rightarrow> ('mtd, 'typ, 'fld, 'c, 'w) transportStream \<Rightarrow>
   (goError option \<times> ('mtd, 'typ, 'fld, 'c, 'w) transportStream) option"

definition unaryServerFunc ::
  "'addr grpclib \<Rightarrow> ('mtd, 'typ, 'msg, 'fld, 'f, 'v, 'c, 'w) serverEnv \<Rightarrow>
   ('mtd, 'typ, 'fld, 'c, 'w, 'v, 'addr) methodHandler \<Rightarrow> ('mtd, 'typ, 'fld, 'c, 'w) serverFunc"
where
  "unaryServerFunc G E handler info sp stream =
     (case newGRPCContext G sp info stream of
        Inl err \<Rightarrow> Some (Some err, stream)
      | Inr (ctx, transport) \<Rightarrow>
          (case handler ctx transport of
             None \<Rightarrow> None
           | Some (Inl err, t) \<Rightarrow> Some (Some (convertError G err), tsStream t)
           | Some (Inr resp, t) \<Rightarrow> Some (Send E resp (tsStream t))))"

definition streamServerFunc ::
  "'addr grpclib \<Rightarrow> ('mtd, 'typ, 'fld, 'c, 'w, 'addr) streamHandler \<Rightarrow> ('mtd, 'typ, 'fld, 'c, 'w) serverFunc"
where
  "streamServerFunc G handler info sp stream =
     (case newGRPCContext G sp info stream of
        Inl err \<Rightarrow> Some (Some err, stream)
      | Inr (ctx, transport) \<Rightarrow>
          (case handler ctx transport of
             None \<Rightarrow> None
           | Some (e, t) \<Rightarrow> Some (map_option (convertError G) e, tsStream t)))"

section \<open>Registration\<close>

record ('d, 'svc, 'mtd) grpcRegistry =
  FindDescriptorByName :: "string \<Rightarrow> goError + 'd"
  asService :: "'d \<Rightarrow> 'svc option"
  MethodByName :: "'svc \<Rightarrow> string \<Rightarrow> 'mtd option"

record ('mtd, 'typ, 'fld, 'c, 'w, 'v, 'addr) methodDesc =
  MethodName :: string
  MethodHandler :: "('mtd, 'typ, 'fld, 'c, 'w, 'v, 'addr) methodHandler"

record ('mtd, 'typ, 'fld, 'c, 'w, 'addr) streamDesc =
  StreamName :: string
  ClientStreams :: bool
  ServerStreams :: bool
  StreamHandler :: "('mtd, 'typ, 'fld, 'c, 'w, 'addr) streamHandler"

text \<open>\<open>Implements\<close> is the check of the handler type, \<open>None\<close> when there is nothing to check.\<close>

record ('mtd, 'typ, 'fld, 'c, 'w, 'v, 'addr) serviceDesc =
  ServiceName :: string
  Implements :: "bool option"
  DescMethods :: "('mtd, 'typ, 'fld, 'c, 'w, 'v, 'addr) methodDesc list"
  DescStreams :: "('mtd, 'typ, 'fld, 'c, 'w, 'addr) streamDesc list"

definition findService :: "('d, 'svc, 'mtd) grpcRegistry \<Rightarrow> string \<Rightarrow> 'svc option" where
  "findService R name =
     (case FindDescriptorByName R name of
        Inl err \<Rightarrow> None
      | Inr desc \<Rightarrow> asService R desc)"

definition makeSpec ::
  "'mtd methodlib \<Rightarrow> ('d, 'svc, 'mtd) grpcRegistry \<Rightarrow> string \<Rightarrow> string \<Rightarrow> StreamType \<Rightarrow> 'svc option \<Rightarrow> 'mtd fullSpec"
where
  "makeSpec D R svcName methodName st svcDesc =
     (let sp = \<lparr>Procedure = ''/'' @ svcName @ ''/'' @ methodName, streamType = st, Schema = None,
                IdempotencyLevel = IdempotencyUnknown\<rparr> in
      case svcDesc of
        None \<Rightarrow> sp
      | Some svc \<Rightarrow>
          (case MethodByName R svc methodName of
             None \<Rightarrow> sp
           | Some md \<Rightarrow>
               (let sp = sp\<lparr>Schema := Some md\<rparr> in
                case Idempotency D md of
                  None \<Rightarrow> sp
                | Some NO_SIDE_EFFECTS \<Rightarrow> sp\<lparr>IdempotencyLevel := IdempotencyNoSideEffects\<rparr>
                | Some IDEMPOTENT \<Rightarrow> sp\<lparr>IdempotencyLevel := IdempotencyIdempotent\<rparr>
                | Some IDEMPOTENCY_UNKNOWN \<Rightarrow> sp\<lparr>IdempotencyLevel := IdempotencyUnknown\<rparr>)))"

definition descStreamType :: "('mtd, 'typ, 'fld, 'c, 'w, 'addr) streamDesc \<Rightarrow> StreamType" where
  "descStreamType sd =
     (if ClientStreams sd \<and> ServerStreams sd then StreamTypeBidi
      else if ClientStreams sd then StreamTypeClient
      else if ServerStreams sd then StreamTypeServer
      else StreamTypeUnary)"

text \<open>The methods that are registered, or a panic.\<close>

definition buildMethods ::
  "'addr grpclib \<Rightarrow> ('mtd, 'typ, 'msg, 'fld, 'f, 'v, 'c, 'w) serverEnv \<Rightarrow> 'mtd methodlib \<Rightarrow> ('d, 'svc, 'mtd) grpcRegistry \<Rightarrow>
   ('mtd, 'typ, 'fld, 'c, 'w, 'v, 'addr) serviceDesc \<Rightarrow>
   ('mtd fullSpec \<times> ('mtd, 'typ, 'fld, 'c, 'w) serverFunc) list option"
where
  "buildMethods G E D R desc =
     (if Implements desc = Some False then None
      else
        (let svcDesc = findService R (ServiceName desc) in
         Some (map (\<lambda>m. (makeSpec D R (ServiceName desc) (MethodName m) StreamTypeUnary svcDesc,
                         unaryServerFunc G E (MethodHandler m))) (DescMethods desc) @
               map (\<lambda>sd. (makeSpec D R (ServiceName desc) (StreamName sd) (descStreamType sd) svcDesc,
                          streamServerFunc G (StreamHandler sd))) (DescStreams desc))))"

section \<open>The codec\<close>

text \<open>\<open>NewCodec\<close> wraps a codec of connect as one of grpc-go.\<close>

definition notProto :: "string \<Rightarrow> goError" where
  "notProto ty = OtherError (''value is not a proto.Message: '' @ ty)"

definition grpcMarshal :: "('fld, 'v) restCodec \<Rightarrow> 'v anyMessage \<Rightarrow> goError + string" where
  "grpcMarshal C v = (case v of OtherType ty \<Rightarrow> Inl (notProto ty) | ProtoMessage msg \<Rightarrow> marshalWrite C msg)"

definition grpcUnmarshal :: "('fld, 'v) restCodec \<Rightarrow> string \<Rightarrow> 'v anyMessage \<Rightarrow> goError option \<times> 'v anyMessage" where
  "grpcUnmarshal C data v =
     (case v of
        OtherType ty \<Rightarrow> (Some (notProto ty), v)
      | ProtoMessage msg \<Rightarrow>
          (let (e, msg) = unmarshalRead C \<lparr>rdData = data, rdErr = EOF\<rparr> msg in (e, ProtoMessage msg)))"

definition grpcName :: "('fld, 'v) restCodec \<Rightarrow> string" where
  "grpcName C = codecName C"

section \<open>What the bridge does to metadata\<close>

lemma concat_single:
  assumes "distinct (map fst xs)" and "\<And>key v. (key, v) \<in> set xs \<Longrightarrow> P key \<Longrightarrow> key = k"
  shows "concat (map (\<lambda>(key, v). if P key then f key v else []) xs) =
    (case map_of xs k of Some v \<Rightarrow> if P k then f k v else [] | None \<Rightarrow> [])"
  using assms
proof (induction xs)
  case (Cons x xs)
  obtain key v where x: "x = (key, v)" by fastforce
  have rest: "concat (map (\<lambda>(key, v). if P key then f key v else []) xs) =
      (case map_of xs k of Some v \<Rightarrow> if P k then f k v else [] | None \<Rightarrow> [])"
    using Cons.prems by (intro Cons.IH) auto
  have fresh: "map_of xs key = None"
    using Cons.prems(1) by (auto simp: x map_of_eq_None_iff)
  show ?case
  proof (cases "P key")
    case True
    then have "key = k"
      using Cons.prems(2) [of key v] by (simp add: x)
    then show ?thesis
      using True rest fresh by (simp add: x)
  next
    case False
    then show ?thesis
      using rest fresh by (cases "key = k") (simp_all add: x)
  qed
qed simp

lemma headerValues_upd [simp]: "headerValues (h(k \<mapsto> vals)) k' = (if k' = k then vals else headerValues h k')"
  by (simp add: headerValues_def)

lemma headerValues_empty [simp]: "headerValues (\<lambda>k. None) k = []"
  by (simp add: headerValues_def)

text \<open>A header in which every key has a value is given by its values.\<close>

definition no_empty :: "headers \<Rightarrow> bool" where
  "no_empty h \<longleftrightarrow> (\<forall>k. h k \<noteq> Some [])"

lemma no_empty_iff: "no_empty h \<Longrightarrow> h k = (if headerValues h k = [] then None else Some (headerValues h k))"
  by (auto simp: no_empty_def headerValues_def split: option.splits)

lemma no_empty_simps [simp]: "no_empty (\<lambda>k. None)" "no_empty (headerAdd G key value h) \<longleftrightarrow> (\<forall>k. k \<noteq> headerKey G key \<longrightarrow> h k \<noteq> Some [])"
    "no_empty (mdAppend key value h) \<longleftrightarrow> (\<forall>k. k \<noteq> toLower key \<longrightarrow> h k \<noteq> Some [])"
  by (auto simp: no_empty_def headerAdd_def mdAppend_def)

definition encodeValue :: "'addr grpclib \<Rightarrow> string \<Rightarrow> string \<Rightarrow> string" where
  "encodeValue G key value =
     (if has_suffix (toLower key) binaryHeaderSuffix then EncodeBinaryHeader G value else value)"

definition decodeValue :: "'addr grpclib \<Rightarrow> string \<Rightarrow> string \<Rightarrow> goError + string" where
  "decodeValue G key value = (if has_suffix key binaryHeaderSuffix then DecodeBinaryHeader G value else Inr value)"

lemma toLower_idem [simp]: "toLower (toLower s) = toLower s"
proof -
  have "lowerByte (lowerByte c) = lowerByte c" for c
    by (auto simp: lowerByte_def Let_def)
  then show ?thesis
    by (simp add: toLower_def)
qed

lemma fold_headerAdd:
  "headerValues (fold (\<lambda>value. headerAdd G key (f value)) vals h) k = headerValues h k @ (if headerKey G key = k then map f vals else [])"
  "no_empty h \<Longrightarrow> no_empty (fold (\<lambda>value. headerAdd G key (f value)) vals h)"
  by (induction vals arbitrary: h) (auto simp: headerAdd_def no_empty_def)

lemma mergeEntry_values:
  "headerValues (mergeEntry G (key, vals) h) k = headerValues h k @ (if headerKey G key = k then map (encodeValue G key) vals else [])"
  "no_empty h \<Longrightarrow> no_empty (mergeEntry G (key, vals) h)"
  by (simp_all add: mergeEntry_def encodeValue_def [abs_def] fold_headerAdd Let_def)

lemma mergeMetadata_values:
  "headerValues (mergeMetadata G h meta) k =
     headerValues h k @ concat (map (\<lambda>(key, vals). if headerKey G key = k then map (encodeValue G key) vals else []) meta)"
  "no_empty h \<Longrightarrow> no_empty (mergeMetadata G h meta)"
proof (induction meta arbitrary: h)
  case (Cons entry meta)
  obtain key vals where e: "entry = (key, vals)" by fastforce
  {
    case 1
    show ?case
      using Cons.IH(1) [of "mergeEntry G entry h"] by (simp add: mergeMetadata_def e mergeEntry_values)
  next
    case 2
    show ?case
      using Cons.IH(2) [of "mergeEntry G entry h"] 2 by (simp add: mergeMetadata_def e mergeEntry_values)
  }
qed (simp_all add: mergeMetadata_def)

text \<open>The values of one key, if they can all be decoded.\<close>

lemma incomingValues_Inr:
  assumes "list_all (\<lambda>v. \<exists>d. decodeValue G key v = Inr d) vals"
  obtains m' where "incomingValues G key vals m = Inr m'"
    and "\<And>k. headerValues m' k = headerValues m k @ (if toLower key = k then map (projr \<circ> decodeValue G key) vals else [])"
    and "no_empty m \<longrightarrow> no_empty m'"
proof -
  have "\<exists>m'. incomingValues G key vals m = Inr m' \<and>
      (\<forall>k. headerValues m' k = headerValues m k @ (if toLower key = k then map (projr \<circ> decodeValue G key) vals else [])) \<and>
      (no_empty m \<longrightarrow> no_empty m')"
    using assms
  proof (induction vals arbitrary: m)
    case (Cons v vals)
    obtain d where d: "decodeValue G key v = Inr d"
      using Cons.prems by auto
    have step: "incomingValues G key (v # vals) m = incomingValues G key vals (mdAppend key d m)"
      using d by (simp add: decodeValue_def split: if_splits)
    from Cons.IH [of "mdAppend key d m"] Cons.prems obtain m' where m': "incomingValues G key vals (mdAppend key d m) = Inr m'"
        "\<And>k. headerValues m' k = headerValues (mdAppend key d m) k @ (if toLower key = k then map (projr \<circ> decodeValue G key) vals else [])"
        "no_empty (mdAppend key d m) \<longrightarrow> no_empty m'"
      by auto
    show ?case
      unfolding step using m' by (intro exI [of _ m']) (simp add: d mdAppend_def no_empty_def)
  qed simp
  then show thesis
    using that by blast
qed

lemma incomingValues_error:
  "incomingValues G key vals m = Inl err \<Longrightarrow> \<exists>v \<in> set vals. \<exists>e. decodeValue G key v = Inl e \<and>
     (\<exists>cerr. err = Conn cerr \<and> code cerr = CodeInternal \<and> cause cerr = Some e)"
  by (induction vals arbitrary: m) (auto simp: decodeValue_def withCause_def split: if_splits sum.splits)

definition decodable :: "'addr grpclib \<Rightarrow> string \<times> string list \<Rightarrow> bool" where
  "decodable G entry =
     (let (key, vals) = entry; key = toLower key in
      key \<in> set reservedHeaders \<or> list_all (\<lambda>v. \<exists>d. decodeValue G key v = Inr d) vals)"

definition readEntry :: "'addr grpclib \<Rightarrow> string \<Rightarrow> string \<times> string list \<Rightarrow> string list" where
  "readEntry G k entry =
     (let (key, vals) = entry in
      if toLower key = k \<and> k \<notin> set reservedHeaders then map (projr \<circ> decodeValue G k) vals else [])"

lemma incomingEntries_Inr:
  assumes "list_all (decodable G) entries"
  obtains m' where "incomingEntries G entries m = Inr m'"
    and "\<And>k. headerValues m' k = headerValues m k @ concat (map (readEntry G k) entries)"
    and "no_empty m \<longrightarrow> no_empty m'"
proof -
  have "\<exists>m'. incomingEntries G entries m = Inr m' \<and> (\<forall>k. headerValues m' k = headerValues m k @ concat (map (readEntry G k) entries)) \<and>
      (no_empty m \<longrightarrow> no_empty m')"
    using assms
  proof (induction entries arbitrary: m)
    case (Cons entry entries)
    obtain key vals where e: "entry = (key, vals)" by fastforce
    show ?case
    proof (cases "toLower key \<in> set reservedHeaders")
      case True
      then have "incomingEntries G (entry # entries) m = incomingEntries G entries m" "readEntry G k entry = []" for k
        by (auto simp: e readEntry_def)
      then show ?thesis
        using Cons by simp
    next
      case False
      then have "list_all (\<lambda>v. \<exists>d. decodeValue G (toLower key) v = Inr d) vals"
        using Cons.prems by (simp add: e decodable_def)
      then obtain m1 where m1: "incomingValues G (toLower key) vals m = Inr m1"
          "\<And>k. headerValues m1 k = headerValues m k @ (if toLower key = k then map (projr \<circ> decodeValue G (toLower key)) vals else [])"
          "no_empty m \<longrightarrow> no_empty m1"
        using incomingValues_Inr [of G "toLower key" vals m] by (metis toLower_idem)
      obtain m' where m': "incomingEntries G entries m1 = Inr m'"
          "\<And>k. headerValues m' k = headerValues m1 k @ concat (map (readEntry G k) entries)" "no_empty m1 \<longrightarrow> no_empty m'"
        using Cons.IH [of m1] Cons.prems by auto
      have "readEntry G k entry = (if toLower key = k then map (projr \<circ> decodeValue G (toLower key)) vals else [])" for k
        using False by (auto simp: e readEntry_def)
      then show ?thesis
        using False m1 m' by (intro exI [of _ m']) (auto simp: e)
    qed
  qed simp
  then show thesis
    using that by blast
qed

lemma incomingEntries_error:
  "incomingEntries G entries m = Inl err \<Longrightarrow> \<not> list_all (decodable G) entries \<and>
     (\<exists>cerr. err = Conn cerr \<and> code cerr = CodeInternal)"
proof (induction entries arbitrary: m)
  case (Cons entry entries)
  obtain key vals where e: "entry = (key, vals)" by fastforce
  show ?case
  proof (cases "toLower key \<in> set reservedHeaders")
    case True
    then show ?thesis
      using Cons by (simp add: e)
  next
    case False
    show ?thesis
    proof (cases "incomingValues G (toLower key) vals m")
      case (Inl err')
      then have "\<not> decodable G entry"
        using False incomingValues_error [OF Inl] by (force simp: e decodable_def list_all_iff)
      then show ?thesis
        using Cons.prems False Inl incomingValues_error [OF Inl] by (auto simp: e)
    next
      case (Inr m1)
      then show ?thesis
        using Cons False by (simp add: e)
    qed
  qed
qed simp

lemma incomingValues_decodable:
  "incomingValues G key vals m = Inr m' \<Longrightarrow> list_all (\<lambda>v. \<exists>d. decodeValue G key v = Inr d) vals"
  by (induction vals arbitrary: m) (auto simp: decodeValue_def split: if_splits sum.splits)

lemma incomingEntries_decodable: "incomingEntries G entries m = Inr m' \<Longrightarrow> list_all (decodable G) entries"
  by (induction entries arbitrary: m)
    (auto simp: decodable_def Let_def dest: incomingValues_decodable split: if_splits sum.splits)

section \<open>What a stub can do\<close>

text \<open>A stub acts through the adapter.\<close>

inductive adapter_run ::
  "'addr grpclib \<Rightarrow> ('mtd, 'typ, 'msg, 'fld, 'f, 'v, 'c, 'w) serverEnv \<Rightarrow> ('mtd, 'typ, 'fld, 'c, 'w) transportStream \<Rightarrow>
   ('mtd, 'typ, 'fld, 'c, 'w) transportStream \<Rightarrow> bool"
  for G E where
  returns: "adapter_run G E t t"
| recvs: "RecvMsg E m t = Some (e, m', t1) \<Longrightarrow> adapter_run G E t1 t' \<Longrightarrow> adapter_run G E t t'"
| sends: "SendMsg E m t = (e, t1) \<Longrightarrow> adapter_run G E t1 t' \<Longrightarrow> adapter_run G E t t'"
| sets_header: "SetHeader G meta t = (e, t1) \<Longrightarrow> adapter_run G E t1 t' \<Longrightarrow> adapter_run G E t t'"
| sends_header: "SendHeader G E meta t = (e, t1) \<Longrightarrow> adapter_run G E t1 t' \<Longrightarrow> adapter_run G E t t'"
| sets_trailer: "SetTrailer G meta t = (e, t1) \<Longrightarrow> adapter_run G E t1 t' \<Longrightarrow> adapter_run G E t t'"

lemma adapter_stream: "adapter_run G E t t' \<Longrightarrow> \<exists>log. stream_run E (tsStream t) log (tsStream t')"
proof (induction rule: adapter_run.induct)
  case (returns t)
  then show ?case by (blast intro: stream_run.stop)
next
  case (recvs m t e m' t1 t')
  then obtain s where "Receive E m (tsStream t) = Some (e, m', s)" "tsStream t1 = s"
    by (auto simp: RecvMsg_def split: option.splits)
  then show ?case
    using recvs.IH by (blast intro: stream_run.step stream_step.receive)
next
  case (sends m t e t1 t')
  then have "Send E m (tsStream t) = (e, tsStream t1)"
    by (auto simp: SendMsg_def split: prod.splits)
  then show ?case
    using sends.IH by (blast intro: stream_run.step stream_step.send)
next
  case (sets_header meta t e t1 t')
  then have "tsStream t1 = (tsStream t)\<lparr>ssInfo := mergeMetadata G (ssInfo (tsStream t)) meta\<rparr>"
    by (auto simp: SetHeader_def)
  then show ?case
    using sets_header.IH by (metis stream_run.step stream_step.metadata)
next
  case (sends_header meta t e t1 t')
  then have "SendHeaders E ((tsStream t)\<lparr>ssInfo := mergeMetadata G (ssInfo (tsStream t)) meta\<rparr>) = (e, tsStream t1)"
    by (auto simp: SendHeader_def SetHeader_def split: prod.splits)
  then show ?case
    using sends_header.IH by (blast intro: stream_run.step stream_step.metadata stream_step.headers)
next
  case (sets_trailer meta t e t1 t')
  then have "tsStream t1 = tsStream t"
    by (auto simp: SetTrailer_def)
  then show ?case
    using sets_trailer.IH by simp
qed

definition stub_ok ::
  "'addr grpclib \<Rightarrow> ('mtd, 'typ, 'msg, 'fld, 'f, 'v, 'c, 'w) serverEnv \<Rightarrow> ('mtd, 'typ, 'fld, 'c, 'w, 'v, 'addr) serviceDesc \<Rightarrow> bool"
where
  "stub_ok G E desc \<longleftrightarrow>
     (\<forall>m \<in> set (DescMethods desc). \<forall>ctx t r t'. MethodHandler m ctx t = Some (r, t') \<longrightarrow> adapter_run G E t t') \<and>
     (\<forall>sd \<in> set (DescStreams desc). \<forall>ctx t r t'. StreamHandler sd ctx t = Some (r, t') \<longrightarrow> adapter_run G E t t')"

lemma newGRPCContext_stream: "newGRPCContext G sp info s = Inr (ctx, t) \<Longrightarrow> tsStream t = s"
  by (auto simp: newGRPCContext_def Let_def split: sum.splits)

lemma stream_run_snoc:
  "stream_run E s log s' \<Longrightarrow> stream_step E s' op e s'' \<Longrightarrow> \<exists>log. stream_run E s log s''"
  by (induction rule: stream_run.induct) (blast intro: stream_run.intros)+

lemma unary_runs:
  assumes "\<And>ctx t r t'. handler ctx t = Some (r, t') \<Longrightarrow> adapter_run G E t t'"
    and "unaryServerFunc G E handler info sp s = Some (e, s')"
  shows "\<exists>log. stream_run E s log s'"
proof (cases "newGRPCContext G sp info s")
  case (Inl err)
  then show ?thesis
    using assms(2) by (auto simp: unaryServerFunc_def intro: stream_run.stop)
next
  case (Inr ct)
  obtain ctx t where ct: "ct = (ctx, t)" by fastforce
  obtain r t' where h: "handler ctx t = Some (r, t')"
    using assms(2) Inr ct by (auto simp: unaryServerFunc_def split: option.splits)
  obtain log where log: "stream_run E s log (tsStream t')"
    using adapter_stream [OF assms(1) [OF h]] newGRPCContext_stream Inr ct by metis
  show ?thesis
    using assms(2) Inr ct h log stream_run_snoc [OF log stream_step.send]
    by (auto simp: unaryServerFunc_def split: sum.splits)
qed

lemma stream_runs:
  assumes "\<And>ctx t r t'. handler ctx t = Some (r, t') \<Longrightarrow> adapter_run G E t t'"
    and "streamServerFunc G handler info sp s = Some (e, s')"
  shows "\<exists>log. stream_run E s log s'"
proof (cases "newGRPCContext G sp info s")
  case (Inl err)
  then show ?thesis
    using assms(2) by (auto simp: streamServerFunc_def intro: stream_run.stop)
next
  case (Inr ct)
  obtain ctx t where ct: "ct = (ctx, t)" by fastforce
  then obtain r t' where h: "handler ctx t = Some (r, t')" "s' = tsStream t'"
    using assms(2) Inr by (auto simp: streamServerFunc_def split: option.splits)
  then show ?thesis
    using adapter_stream [OF assms(1) [OF h(1)]] newGRPCContext_stream Inr ct by metis
qed

text \<open>A REST handler whose server has the methods of a stub service.\<close>

definition serves_stub ::
  "'addr grpclib \<Rightarrow> 'mtd methodlib \<Rightarrow> ('d, 'svc, 'mtd) grpcRegistry \<Rightarrow>
   ('mtd, 'typ, 'fld, 'c, 'w, 'v, 'addr) serviceDesc \<Rightarrow> ('mtd, 'typ, 'msg, 'fld, 'f, 'v, 'c, 'w) restHandler \<Rightarrow> bool"
where
  "serves_stub G D R desc H \<longleftrightarrow>
     stub_ok G (hEnv H) desc \<and>
     (\<exists>ms. buildMethods G (hEnv H) D R desc = Some ms \<and>
       (\<forall>procedure info timeout s r. hCall H procedure info timeout s = Some r \<longrightarrow>
         (\<exists>(sp, f) \<in> set ms. Procedure sp = procedure \<and> f (Some info) (spec.truncate sp) s = Some r)))"

lemma stub_handler_runs:
  assumes "serves_stub G D R desc H"
  shows "handler_runs H"
proof -
  obtain ms where ms: "buildMethods G (hEnv H) D R desc = Some ms"
    and call: "\<And>procedure info timeout s r. hCall H procedure info timeout s = Some r \<Longrightarrow>
      \<exists>(sp, f) \<in> set ms. Procedure sp = procedure \<and> f (Some info) (spec.truncate sp) s = Some r"
    and ok: "stub_ok G (hEnv H) desc"
    using assms by (auto simp: serves_stub_def)
  have "\<exists>log. stream_run (hEnv H) s log s'" if f: "(sp, f) \<in> set ms" "f info sp' s = Some (e, s')" for sp f info sp' s e s'
  proof -
    from f(1) ms consider m where "m \<in> set (DescMethods desc)" "f = unaryServerFunc G (hEnv H) (MethodHandler m)"
      | sd where "sd \<in> set (DescStreams desc)" "f = streamServerFunc G (StreamHandler sd)"
      by (auto simp: buildMethods_def Let_def split: if_splits)
    then show ?thesis
    proof cases
      case 1
      have "\<And>ctx t r t'. MethodHandler m ctx t = Some (r, t') \<Longrightarrow> adapter_run G (hEnv H) t t'"
        using ok 1(1) unfolding stub_ok_def by blast
      from unary_runs [OF this f(2) [unfolded 1(2)]] show ?thesis .
    next
      case 2
      have "\<And>ctx t r t'. StreamHandler sd ctx t = Some (r, t') \<Longrightarrow> adapter_run G (hEnv H) t t'"
        using ok 2(1) unfolding stub_ok_def by blast
      from stream_runs [OF this f(2) [unfolded 2(2)]] show ?thesis .
    qed
  qed
  then show ?thesis
    unfolding handler_runs_def using call by fastforce
qed

section \<open>Errors of a stub\<close>

lemma typeName_plain: "CHR ''/'' \<notin> set (typeNameFromURL_grpc url)"
  using last_index_byte_Some [of "CHR ''/''" url] by (auto simp: typeNameFromURL_grpc_def split: option.splits)

lemma fold_withDetail:
  "fold (\<lambda>(url, v). withDetail (f url, v)) ds e =
     ConnectError (code e) (message e) (details e @ map (\<lambda>(url, v). (f url, v)) ds) (remote e) (cause e)"
proof (induction ds arbitrary: e)
  case Nil
  then show ?case by (cases e) simp
next
  case (Cons d ds)
  then show ?case by (cases d) (simp add: withDetail_def)
qed

definition statusError :: "status \<Rightarrow> connectError" where
  "statusError st =
     ConnectError (statusCode st) (statusMessage st)
       (map (\<lambda>(url, v). (typeNameFromURL_grpc url, v)) (statusDetails st)) False None"

lemma convertError_status:
  assumes "asType err = None" and "statusFromError G err = Some st" and "statusCode st \<noteq> 0"
  shows "asConnectError ct (convertError G err) = withCause err (statusError st)"
  using assms by (simp add: convertError_def fold_withDetail newError_def statusError_def asConnectError_def withCause_def)

section \<open>Registered methods\<close>

text \<open>A method of a stub and the method of the service's descriptor that it is generated from.\<close>

definition stub_descriptor :: "'mtd methodlib \<Rightarrow> ('d, 'svc, 'mtd) grpcRegistry \<Rightarrow> string \<Rightarrow> string \<Rightarrow> bool \<Rightarrow> bool \<Rightarrow> 'mtd \<Rightarrow> bool" where
  "stub_descriptor D R svcName name client server md \<longleftrightarrow>
     (\<exists>svc. findService R svcName = Some svc \<and> MethodByName R svc name = Some md) \<and>
     ParentName D md = svcName \<and> MtdName D md = name \<and> IsStreamingClient D md = client \<and> IsStreamingServer D md = server"

lemma makeSpec_descriptor:
  assumes "stub_descriptor D R svcName name client server md"
    and "st = (if client then if server then StreamTypeBidi else StreamTypeClient else if server then StreamTypeServer else StreamTypeUnary)"
  shows "makeSpec D R svcName name st (findService R svcName) = specFromDescriptor D md"
  using assms by (auto simp: stub_descriptor_def makeSpec_def specFromDescriptor_def Let_def split: option.splits idempotencyLevel.splits)

section \<open>Metadata there and back\<close>

lemma merged_values:
  assumes keys: "\<And>k. toLower (headerKey G k) = toLower k"
    and meta: "distinct (map fst meta)" "\<And>key vals. (key, vals) \<in> set meta \<Longrightarrow> toLower key = key"
  shows "headerValues (mergeMetadata G (\<lambda>k. None) meta) c = (case map_of meta (toLower c) of
      Some vals \<Rightarrow> if headerKey G (toLower c) = c then map (encodeValue G (toLower c)) vals else [] | None \<Rightarrow> [])"
  using keys meta(2) by (subst concat_single [OF meta(1), where P = "\<lambda>key. headerKey G key = c" and
      f = "\<lambda>key. map (encodeValue G key)" and k = "toLower c", symmetric]) (auto simp: mergeMetadata_values(1))

text \<open>An enumeration of a header.\<close>

definition enumerates :: "(string \<times> string list) list \<Rightarrow> headers \<Rightarrow> bool" where
  "enumerates entries h \<longleftrightarrow> map_of entries = h \<and> distinct (map fst entries)"

lemma merged_entry:
  assumes keys: "\<And>k. toLower (headerKey G k) = toLower k"
    and meta: "distinct (map fst meta)" "\<And>key vals. (key, vals) \<in> set meta \<Longrightarrow> toLower key = key"
    and all: "enumerates entries (mergeMetadata G (\<lambda>k. None) meta)" "(key, vals) \<in> set entries"
  obtains vals' where "vals = map (encodeValue G (toLower key)) vals'" and "key = headerKey G (toLower key)"
proof -
  have listed: "map_of entries = mergeMetadata G (\<lambda>k. None) meta" "distinct (map fst entries)"
    using all(1) by (simp_all add: enumerates_def)
  have "mergeMetadata G (\<lambda>k. None) meta key = Some vals"
    using map_of_is_SomeI [OF listed(2) all(2)] by (simp add: listed(1))
  moreover have "no_empty (mergeMetadata G (\<lambda>k. None) meta)"
    by (rule mergeMetadata_values(2)) simp
  ultimately have "headerValues (mergeMetadata G (\<lambda>k. None) meta) key = vals" "vals \<noteq> []"
    by (auto simp: headerValues_def no_empty_def)
  then show thesis
    using that merged_values [OF keys meta, where c = key] by (auto split: option.splits if_splits)
qed

lemma merged_read:
  assumes keys: "\<And>k. toLower (headerKey G k) = toLower k"
    and meta: "distinct (map fst meta)" "\<And>key vals. (key, vals) \<in> set meta \<Longrightarrow> toLower key = key"
    and all: "enumerates entries (mergeMetadata G (\<lambda>k. None) meta)"
    and coding: "\<And>s. DecodeBinaryHeader G (EncodeBinaryHeader G s) = Inr s"
  shows "list_all (decodable G) entries"
    and "concat (map (readEntry G k) entries) = (if k \<in> set reservedHeaders then [] else headerValues (map_of meta) k)"
proof -
  have read: "decodeValue G k (encodeValue G k v) = Inr v" if "toLower k = k" for k v
    using coding that by (simp add: decodeValue_def encodeValue_def)
  have "decodable G (key, vals)" if e: "(key, vals) \<in> set entries" for key vals
  proof -
    obtain vals' where "vals = map (encodeValue G (toLower key)) vals'"
      by (rule merged_entry [OF keys meta all e])
    then show ?thesis
      using read [of "toLower key"] by (auto simp: decodable_def list_all_iff)
  qed
  then show "list_all (decodable G) entries"
    by (auto simp: list_all_iff)
  have only: "key = headerKey G k" if "(key, vals) \<in> set entries" "toLower key = k" for key vals
  proof (rule merged_entry [OF keys meta all that(1)])
    show ?thesis if "key = headerKey G (toLower key)"
      using that \<open>toLower key = k\<close> by simp
  qed
  let ?h = "mergeMetadata G (\<lambda>k. None) meta"
  have "concat (map (readEntry G k) entries) =
      concat (map (\<lambda>(key, vals). if toLower key = k \<and> k \<notin> set reservedHeaders then map (projr \<circ> decodeValue G k) vals else []) entries)"
    by (simp add: readEntry_def [abs_def])
  also have "\<dots> = (case map_of entries (headerKey G k) of
      Some vals \<Rightarrow> if toLower (headerKey G k) = k \<and> k \<notin> set reservedHeaders then map (projr \<circ> decodeValue G k) vals else []
    | None \<Rightarrow> [])"
    using only all by (intro concat_single) (auto simp: enumerates_def)
  also have "\<dots> = (if toLower k = k \<and> k \<notin> set reservedHeaders then map (projr \<circ> decodeValue G k) (headerValues ?h (headerKey G k)) else [])"
    using keys [of k] all by (auto simp: enumerates_def headerValues_def split: option.splits)
  also have "\<dots> = (if k \<in> set reservedHeaders then [] else headerValues (map_of meta) k)"
  proof (cases "toLower k = k")
    case True
    then have "map (projr \<circ> decodeValue G k) (headerValues ?h (headerKey G k)) = headerValues (map_of meta) k"
      using read [OF True] keys [of k]
      by (cases "map_of meta k") (simp_all add: merged_values [OF keys meta] headerValues_def [of "map_of meta"] o_def)
    then show ?thesis
      using True by simp
  next
    case False
    then have "map_of meta k = None"
      using meta(2) by (auto simp: map_of_eq_None_iff)
    then show ?thesis
      using False by (simp add: headerValues_def)
  qed
  finally show "concat (map (readEntry G k) entries) = (if k \<in> set reservedHeaders then [] else headerValues (map_of meta) k)" .
qed

section \<open>Properties\<close>

text \<open>C24: A stub sees the request header as grpc-go would show it: incomingMetadata fails exactly when a
  value under a -bin key that is not reserved does not decode, then as an internal error, and
  otherwise gives under each key, in lower case, the values of all header keys that are equal
  up to case, in order, decoded for -bin keys, and nothing under reserved keys.\<close>

theorem incoming_metadata:
  "case incomingMetadata G h of
     Inl err \<Rightarrow> \<not> list_all (decodable G) (headerAll G h) \<and> (\<exists>cerr. err = Conn cerr \<and> code cerr = CodeInternal)
   | Inr m \<Rightarrow> list_all (decodable G) (headerAll G h) \<and>
       (\<forall>k. m k = (let vals = concat (map (readEntry G k) (headerAll G h)) in if vals = [] then None else Some vals))"
proof (cases "list_all (decodable G) (headerAll G h)")
  case True
  then obtain m where m: "incomingEntries G (headerAll G h) (\<lambda>k. None) = Inr m"
      "\<And>k. headerValues m k = headerValues (\<lambda>k. None) k @ concat (map (readEntry G k) (headerAll G h))"
      "no_empty (\<lambda>k. None) \<longrightarrow> no_empty m"
    by (rule incomingEntries_Inr [where m = "\<lambda>k. None"]) (rule that)
  then have "m k = (if headerValues m k = [] then None else Some (headerValues m k))" for k
    by (intro no_empty_iff) simp
  then show ?thesis
    using True m(1,2) by (simp add: incomingMetadata_def Let_def)
next
  case False
  then obtain err where err: "incomingEntries G (headerAll G h) (\<lambda>k. None) = Inl err"
    using incomingEntries_decodable by (cases "incomingEntries G (headerAll G h) (\<lambda>k. None)") auto
  then show ?thesis
    using False incomingEntries_error [OF err] by (simp add: incomingMetadata_def)
qed

text \<open>C23: Metadata survives the bridge: what a stub sets as metadata is read back from the header by
  incomingMetadata, for keys that grpc-go has put into lower case and for every -bin value
  whatever its bytes, except under the reserved keys and keys without values, if the binary
  header encoding reads back what it writes, the header keeps keys that are equal up to case
  under the same key, and All lists the header.\<close>

theorem grpc_metadata_roundtrip:
  assumes "\<And>s. DecodeBinaryHeader G (EncodeBinaryHeader G s) = Inr s"
    and "\<And>k. toLower (headerKey G k) = toLower k"
    and "distinct (map fst meta)" and "\<And>key vals. (key, vals) \<in> set meta \<Longrightarrow> toLower key = key"
    and "enumerates (headerAll G (mergeMetadata G (\<lambda>k. None) meta)) (mergeMetadata G (\<lambda>k. None) meta)"
  shows "\<exists>m. incomingMetadata G (mergeMetadata G (\<lambda>k. None) meta) = Inr m \<and>
    (\<forall>k. m k = (if k \<in> set reservedHeaders then None
               else case map_of meta k of Some (v # vals) \<Rightarrow> Some (v # vals) | _ \<Rightarrow> None))"
proof -
  have readable: "list_all (decodable G) (headerAll G (mergeMetadata G (\<lambda>k. None) meta))"
    by (rule merged_read(1)) (use assms in auto)
  have read: "concat (map (readEntry G k) (headerAll G (mergeMetadata G (\<lambda>k. None) meta))) =
      (if k \<in> set reservedHeaders then [] else headerValues (map_of meta) k)" for k
    by (rule merged_read(2)) (use assms in auto)
  obtain m where raw: "incomingEntries G (headerAll G (mergeMetadata G (\<lambda>k. None) meta)) (\<lambda>k. None) = Inr m"
      "\<And>k. headerValues m k = headerValues (\<lambda>k. None) k @
        concat (map (readEntry G k) (headerAll G (mergeMetadata G (\<lambda>k. None) meta)))"
      "no_empty (\<lambda>k. None) \<longrightarrow> no_empty m"
    by (rule incomingEntries_Inr [OF readable, where m = "\<lambda>k. None"]) (rule that)
  then have m: "incomingMetadata G (mergeMetadata G (\<lambda>k. None) meta) = Inr m" "no_empty m"
      "headerValues m k = (if k \<in> set reservedHeaders then [] else headerValues (map_of meta) k)" for k
    by (simp_all add: incomingMetadata_def read)
  have "m k = (if k \<in> set reservedHeaders then None
               else case map_of meta k of Some (v # vals) \<Rightarrow> Some (v # vals) | _ \<Rightarrow> None)" for k
    unfolding no_empty_iff [OF m(2), of k] m(3) by (simp add: headerValues_def split: option.splits list.splits)
  then show ?thesis
    using m(1) by simp
qed

text \<open>A grpc-go with the standard alphabet and a header that enumerates three keys.\<close>

definition sampleGrpc :: "nat grpclib" where
  "sampleGrpc =
     \<lparr>EncodeBinaryHeader = (\<lambda>s. unpad (encode64 StdEncoding s)),
      DecodeBinaryHeader = (\<lambda>s. case unmarshalBytes s of Some d \<Rightarrow> Inr d | None \<Rightarrow> Inl (OtherError ''illegal base64 data'')),
      headerKey = toLower,
      headerAll = (\<lambda>h. concat (map (\<lambda>k. case h k of None \<Rightarrow> [] | Some vals \<Rightarrow> [(k, vals)]) [''data-bin'', ''x-id'', ''te''])),
      statusFromError = (\<lambda>e. if e = OtherError ''gone''
        then Some \<lparr>statusCode = CodeUnknown, statusMessage = ''gone'', statusDetails = []\<rparr> else None),
      ParseAddrPort = (\<lambda>a. None), quote = (\<lambda>s. s), errText = message\<rparr>"

definition sampleMeta :: "(string \<times> string list) list" where
  "sampleMeta = [(''data-bin'', [[CHR 0xFF, CHR 0x00]]), (''x-id'', [''7'', ''8'']), (''te'', [''gzip''])]"

theorem grpc_metadata_roundtrip_witness:
  "\<exists>m. incomingMetadata sampleGrpc (mergeMetadata sampleGrpc (\<lambda>k. None) sampleMeta) = Inr m \<and>
     m ''data-bin'' = Some [[CHR 0xFF, CHR 0x00]] \<and> m ''x-id'' = Some [''7'', ''8''] \<and> m ''te'' = None"
proof -
  have lower: "toLower ''data-bin'' = ''data-bin''" "toLower ''x-id'' = ''x-id''" "toLower ''te'' = ''te''"
    by code_simp+
  let ?h = "mergeMetadata sampleGrpc (\<lambda>k. None) sampleMeta"
  have h: "?h = [''data-bin'' \<mapsto> [EncodeBinaryHeader sampleGrpc [CHR 0xFF, CHR 0x00]], ''x-id'' \<mapsto> [''7'', ''8''], ''te'' \<mapsto> [''gzip'']]"
    by (simp add: mergeMetadata_def mergeEntry_def headerAdd_def sampleMeta_def sampleGrpc_def lower headerValues_def
      binaryHeaderSuffix_def has_suffix_def fun_eq_iff)
  have all: "headerAll sampleGrpc ?h =
      [(''data-bin'', [EncodeBinaryHeader sampleGrpc [CHR 0xFF, CHR 0x00]]), (''x-id'', [''7'', ''8'']), (''te'', [''gzip''])]"
    unfolding h by (simp add: sampleGrpc_def)
  have "\<exists>m. incomingMetadata sampleGrpc ?h = Inr m \<and>
    (\<forall>k. m k = (if k \<in> set reservedHeaders then None
               else case map_of sampleMeta k of Some (v # vals) \<Rightarrow> Some (v # vals) | _ \<Rightarrow> None))"
  proof (rule grpc_metadata_roundtrip)
    show "enumerates (headerAll sampleGrpc ?h) ?h"
      unfolding all by (simp add: enumerates_def h fun_eq_iff)
  qed (auto simp: sampleGrpc_def sampleMeta_def unmarshalBytes_unpadded lower)
  then show ?thesis
    by (auto simp: sampleMeta_def reservedHeaders_def)
qed


definition sampleStub :: "(string, unit, string, unit, unit, typedMsg, nat) serviceDesc" where
  "sampleStub =
     \<lparr>ServiceName = ''library.Library'', Implements = Some True,
      DescMethods = [\<lparr>MethodName = ''GetBook'', MethodHandler = (\<lambda>ctx t. None)\<rparr>],
      DescStreams = [\<lparr>StreamName = ''Upload'', ClientStreams = True, ServerStreams = False,
        StreamHandler = (\<lambda>ctx t. Some (Some (OtherError ''gone''), t))\<rparr>]\<rparr>"

definition sampleRegistry :: "(unit, unit, string) grpcRegistry" where
  "sampleRegistry =
     \<lparr>FindDescriptorByName = (\<lambda>n. if n = ''library.Library'' then Inr () else Inl (OtherError ''not found'')),
      asService = Some, MethodByName = (\<lambda>s n. if n \<in> {''GetBook'', ''Upload''} then Some n else None)\<rparr>"

definition stubHandler :: "(string, unit, string, string, unit, typedMsg, unit, unit) restHandler" where
  "stubHandler =
     (sample_handler False None)\<lparr>hCall := (\<lambda>p info timeout s.
        if p = ''/library.Library/Upload''
        then streamServerFunc sampleGrpc (StreamHandler (hd (DescStreams sampleStub))) (Some info) (Spec info) s else None)\<rparr>"

lemma sample_serves: "serves_stub sampleGrpc sampleMethods sampleRegistry sampleStub stubHandler"
proof -
  let ?md = "makeSpec sampleMethods sampleRegistry ''library.Library'' ''Upload'' StreamTypeClient (Some ())"
  let ?f = "streamServerFunc sampleGrpc (StreamHandler (hd (DescStreams sampleStub)))"
  have "stub_ok sampleGrpc (hEnv stubHandler) sampleStub"
    by (auto simp: stub_ok_def sampleStub_def intro: adapter_run.returns)
  moreover obtain ms where ms: "buildMethods sampleGrpc (hEnv stubHandler) sampleMethods sampleRegistry sampleStub = Some ms"
      "(?md, ?f) \<in> set ms"
    by (simp add: buildMethods_def sampleStub_def findService_def sampleRegistry_def descStreamType_def Let_def)
  moreover have "\<exists>(sp, f) \<in> set ms. Procedure sp = procedure \<and> f (Some info) (spec.truncate sp) s = Some r"
    if "hCall stubHandler procedure info timeout s = Some r" for procedure info timeout s r
  proof -
    have "Procedure ?md = procedure" "?f (Some info) (spec.truncate ?md) s = Some r"
      using that by (auto simp: stubHandler_def makeSpec_def sampleRegistry_def streamServerFunc_def newGRPCContext_def sampleStub_def
        Let_def split: if_splits sum.splits option.splits idempotencyLevel.splits)
    then show ?thesis
      using ms(2) by blast
  qed
  ultimately show ?thesis
    unfolding serves_stub_def by blast
qed


text \<open>C25: Registering a stub gives the same methods as its descriptor: when the descriptor of the service
  is known and its methods are as streaming as the stub says, the specs that buildMethods
  registers are those that a proxy derives from the descriptors, for unary methods first and
  then for streams, each in order, and so a server resolves each with its own descriptor.\<close>

theorem stub_specs_agree:
  assumes "Implements desc \<noteq> Some False"
    and "list_all2 (\<lambda>m md. stub_descriptor D R (ServiceName desc) (MethodName m) False False md) (DescMethods desc) mds"
    and "list_all2 (\<lambda>sd md. stub_descriptor D R (ServiceName desc) (StreamName sd) (ClientStreams sd) (ServerStreams sd) md)
      (DescStreams desc) sds"
  shows "\<exists>ms. buildMethods G E D R desc = Some ms \<and> map fst ms = map (specFromDescriptor D) (mds @ sds)"
proof -
  have "map (\<lambda>m. makeSpec D R (ServiceName desc) (MethodName m) StreamTypeUnary (findService R (ServiceName desc))) (DescMethods desc) =
      map (specFromDescriptor D) mds"
    using assms(2) by (induction rule: list_all2_induct) (auto simp: makeSpec_descriptor)
  moreover have "map (\<lambda>sd. makeSpec D R (ServiceName desc) (StreamName sd) (descStreamType sd) (findService R (ServiceName desc)))
      (DescStreams desc) = map (specFromDescriptor D) sds"
    using assms(3) by (induction rule: list_all2_induct) (auto simp: makeSpec_descriptor descStreamType_def)
  ultimately show ?thesis
    using assms(1) by (simp add: buildMethods_def Let_def o_def)
qed

theorem stub_specs_agree_witness:
  "case buildMethods sampleGrpc errorEnv sampleMethods sampleRegistry sampleStub of
     None \<Rightarrow> False
   | Some ms \<Rightarrow> map fst ms = [specFromDescriptor sampleMethods ''GetBook'', specFromDescriptor sampleMethods ''Upload''] \<and>
       map (streamType \<circ> fst) ms = [StreamTypeUnary, StreamTypeClient]"
proof -
  have "\<exists>ms. buildMethods sampleGrpc errorEnv sampleMethods sampleRegistry sampleStub = Some ms \<and>
      map fst ms = map (specFromDescriptor sampleMethods) ([''GetBook''] @ [''Upload''])"
    by (rule stub_specs_agree)
      (simp_all add: sampleStub_def stub_descriptor_def findService_def sampleRegistry_def sampleMethods_def)
  then obtain ms where ms: "buildMethods sampleGrpc errorEnv sampleMethods sampleRegistry sampleStub = Some ms"
      "map fst ms = map (specFromDescriptor sampleMethods) ([''GetBook''] @ [''Upload''])"
    by blast
  have "map (streamType \<circ> fst) ms = map streamType (map fst ms)"
    by simp
  then show ?thesis
    using ms by (simp add: specFromDescriptor_def sampleMethods_def)
qed

end
