(* ===== verification/Codec.thy ===== *)
theory Codec
  imports Bodies
begin

text \<open>
  The JSON codec: \<open>codec.go\<close>.  A field that is not a message is cut out of the JSON text of the
  whole message with \<open>encoding/json\<close>'s \<open>Decoder\<close>, whose scanner is modelled byte by byte:
  a mode and a stack of the objects and arrays around it.  What belongs to protobuf is the
  record \<open>protojson\<close>; \<open>quoteJSON\<close> and \<open>unquoteJSON\<close> are what \<open>encoding/json\<close> writes for a string
  and reads from a string literal.
\<close>

section \<open>The scanner of encoding/json\<close>

datatype frame = ObjectKey | ObjectValue | ArrayValue

datatype scanMode =
    BeginValue
  | BeginValueOrEmpty
  | BeginStringOrEmpty
  | BeginString
  | EndValue
  | InString
  | InStringEsc
  | InStringEscU nat
  | Neg
  | Digits
  | Zero
  | Dot
  | Dot0
  | Exp
  | ExpSign
  | Exp0
  | Literal string

datatype scanned = Continue scanMode "frame list" | Closed | ScanEnd | ScanError

definition isSpace :: "char \<Rightarrow> bool" where
  "isSpace c \<longleftrightarrow> c \<in> {CHR '' '', CHR 0x09, CHR 0x0D, CHR 0x0A}"

definition isDigit :: "char \<Rightarrow> bool" where
  "isDigit c \<longleftrightarrow> c \<in> set ''0123456789''"

definition isHex :: "char \<Rightarrow> bool" where
  "isHex c \<longleftrightarrow> c \<in> set ''0123456789abcdefABCDEF''"

definition maxNestingDepth :: nat where
  "maxNestingDepth = 10000"

definition push :: "frame \<Rightarrow> scanMode \<Rightarrow> frame list \<Rightarrow> scanned" where
  "push f mode st = (if length st < maxNestingDepth then Continue mode (f # st) else ScanError)"

definition pop :: "frame list \<Rightarrow> scanned" where
  "pop st = (if st = [] then Closed else Continue EndValue st)"

definition endValue :: "frame list \<Rightarrow> char \<Rightarrow> scanned" where
  "endValue st c =
     (case st of
        [] \<Rightarrow> ScanEnd
      | f # suff \<Rightarrow>
          if isSpace c then Continue EndValue st
          else
            (case f of
               ObjectKey \<Rightarrow> if c = CHR '':'' then Continue BeginValue (ObjectValue # suff) else ScanError
             | ObjectValue \<Rightarrow>
                 if c = CHR '','' then Continue BeginString (ObjectKey # suff)
                 else if c = CHR ''}'' then pop suff else ScanError
             | ArrayValue \<Rightarrow>
                 if c = CHR '','' then Continue BeginValue st
                 else if c = CHR '']'' then pop suff else ScanError))"

definition beginValue :: "frame list \<Rightarrow> char \<Rightarrow> scanned" where
  "beginValue st c =
     (if isSpace c then Continue BeginValue st
      else if c = CHR ''{'' then push ObjectKey BeginStringOrEmpty st
      else if c = CHR ''['' then push ArrayValue BeginValueOrEmpty st
      else if c = CHR 0x22 then Continue InString st
      else if c = CHR ''-'' then Continue Neg st
      else if c = CHR ''0'' then Continue Zero st
      else if c = CHR ''t'' then Continue (Literal ''rue'') st
      else if c = CHR ''f'' then Continue (Literal ''alse'') st
      else if c = CHR ''n'' then Continue (Literal ''ull'') st
      else if isDigit c then Continue Digits st
      else ScanError)"

definition beginString :: "frame list \<Rightarrow> char \<Rightarrow> scanned" where
  "beginString st c =
     (if isSpace c then Continue BeginString st
      else if c = CHR 0x22 then Continue InString st
      else ScanError)"

definition zero :: "frame list \<Rightarrow> char \<Rightarrow> scanned" where
  "zero st c =
     (if c = CHR ''.'' then Continue Dot st
      else if c = CHR ''e'' \<or> c = CHR ''E'' then Continue Exp st
      else endValue st c)"

definition expSign :: "frame list \<Rightarrow> char \<Rightarrow> scanned" where
  "expSign st c = (if isDigit c then Continue Exp0 st else ScanError)"

fun scanStep :: "scanMode \<Rightarrow> frame list \<Rightarrow> char \<Rightarrow> scanned" where
  "scanStep BeginValue st c = beginValue st c"
| "scanStep BeginValueOrEmpty st c =
     (if isSpace c then Continue BeginValueOrEmpty st
      else if c = CHR '']'' then endValue st c
      else beginValue st c)"
| "scanStep BeginStringOrEmpty st c =
     (if isSpace c then Continue BeginStringOrEmpty st
      else if c = CHR ''}'' then endValue (ObjectValue # tl st) c
      else beginString st c)"
| "scanStep BeginString st c = beginString st c"
| "scanStep EndValue st c = endValue st c"
| "scanStep InString st c =
     (if c = CHR 0x22 then Continue EndValue st
      else if c = CHR 0x5C then Continue InStringEsc st
      else if (of_char c :: nat) < 32 then ScanError
      else Continue InString st)"
| "scanStep InStringEsc st c =
     (if c \<in> set ''bfnrt/'' \<or> c = CHR 0x5C \<or> c = CHR 0x22 then Continue InString st
      else if c = CHR ''u'' then Continue (InStringEscU 3) st
      else ScanError)"
| "scanStep (InStringEscU n) st c =
     (if isHex c then Continue (if n = 0 then InString else InStringEscU (n - 1)) st else ScanError)"
| "scanStep Neg st c =
     (if c = CHR ''0'' then Continue Zero st
      else if isDigit c then Continue Digits st
      else ScanError)"
| "scanStep Digits st c = (if isDigit c then Continue Digits st else zero st c)"
| "scanStep Zero st c = zero st c"
| "scanStep Dot st c = (if isDigit c then Continue Dot0 st else ScanError)"
| "scanStep Dot0 st c =
     (if isDigit c then Continue Dot0 st
      else if c = CHR ''e'' \<or> c = CHR ''E'' then Continue Exp st
      else endValue st c)"
| "scanStep Exp st c = (if c = CHR ''+'' \<or> c = CHR ''-'' then Continue ExpSign st else expSign st c)"
| "scanStep ExpSign st c = expSign st c"
| "scanStep Exp0 st c = (if isDigit c then Continue Exp0 st else endValue st c)"
| "scanStep (Literal []) st c = endValue st c"
| "scanStep (Literal (x # xs)) st c =
     (if c = x then Continue (if xs = [] then EndValue else Literal xs) st else ScanError)"

text \<open>\<open>readValue\<close>: the number of bytes of the next value with the space before it.\<close>

fun scanValue :: "scanMode \<Rightarrow> frame list \<Rightarrow> string \<Rightarrow> nat option" where
  "scanValue mode st [] = (if scanStep mode st (CHR '' '') = ScanEnd then Some 0 else None)"
| "scanValue mode st (c # s) =
     (case scanStep mode st c of
        Continue mode st \<Rightarrow> map_option Suc (scanValue mode st s)
      | Closed \<Rightarrow> Some 1
      | ScanEnd \<Rightarrow> Some 0
      | ScanError \<Rightarrow> None)"

section \<open>The tokens of an object\<close>

definition skipSpace :: "string \<Rightarrow> string" where
  "skipSpace s = dropWhile isSpace s"

definition readValue :: "string \<Rightarrow> (string \<times> string) option" where
  "readValue s =
     (case scanValue BeginValue [] s of
        None \<Rightarrow> None
      | Some n \<Rightarrow> Some (skipSpace (take n s), drop n s))"

lemma readValue_shorter: "readValue s = Some (val, suff) \<Longrightarrow> length suff \<le> length s"
  by (auto simp: readValue_def split: option.splits)

section \<open>The codec\<close>

record marshalOptions =
  EmitUnpopulated :: bool
  UseProtoNames :: bool

text \<open>
  \<open>cleared\<close> is what \<open>proto.Reset\<close> leaves of a message; \<open>protojson\<close> clears the message it
  reads into.  \<open>decoderError\<close> is the error of the \<open>Decoder\<close> where it stands, \<open>firstToken\<close> its
  first token, as text, when that is not the brace of an object.
\<close>

record ('fld, 'v) protojson =
  pjMarshal :: "marshalOptions \<Rightarrow> 'v \<Rightarrow> goError + string"
  pjUnmarshal :: "string \<Rightarrow> 'v \<Rightarrow> goError option \<times> 'v"
  Has :: "'v \<Rightarrow> 'fld \<Rightarrow> bool"
  HasPresence :: "'fld \<Rightarrow> bool"
  IsExtension :: "'fld \<Rightarrow> bool"
  FieldFullName :: "'fld \<Rightarrow> string"
  cleared :: "'v \<Rightarrow> 'v"
  quoteJSON :: "string \<Rightarrow> string"
  unquoteJSON :: "string \<Rightarrow> string"
  decoderError :: "string \<Rightarrow> goError"
  firstToken :: "string \<Rightarrow> goError + string"

definition NewJSONCodec :: "marshalOptions \<Rightarrow> marshalOptions" where
  "NewJSONCodec opts = opts\<lparr>EmitUnpopulated := True\<rparr>"

definition fieldName :: "marshalOptions \<Rightarrow> ('mtd, 'msg, 'fld) reflect \<Rightarrow> ('fld, 'v) protojson \<Rightarrow> 'fld \<Rightarrow> string" where
  "fieldName opts R P field =
     (if \<not> UseProtoNames opts then JSONName R field
      else if IsExtension P field then ''['' @ FieldFullName P field @ '']''
      else FieldName R field)"

text \<open>
  The next member of an object, after its brace (\<open>fst\<close>) or after a member: \<open>More\<close>, the token of
  the key and the raw value.  \<open>None\<close> is the end of the object.
\<close>

definition nextMember ::
  "('fld, 'v) protojson \<Rightarrow> bool \<Rightarrow> string \<Rightarrow> (goError + string \<times> string \<times> string) option"
where
  "nextMember P first s =
     (let s = skipSpace s in
      if s = [] \<or> hd s = CHR '']'' \<or> hd s = CHR ''}'' then None
      else if \<not> first \<and> hd s \<noteq> CHR '','' then Some (Inl (decoderError P s))
      else
        (let s = (if first then s else skipSpace (tl s)) in
         if s = [] \<or> hd s \<noteq> CHR 0x22 then Some (Inl (decoderError P s))
         else
           (case readValue s of
              None \<Rightarrow> Some (Inl (decoderError P s))
            | Some (key, s) \<Rightarrow>
                (let s = skipSpace s in
                 if s = [] \<or> hd s \<noteq> CHR '':'' then Some (Inl (decoderError P s))
                 else
                   (case readValue (tl s) of
                      None \<Rightarrow> Some (Inl (decoderError P s))
                    | Some (val, s) \<Rightarrow> Some (Inr (unquoteJSON P key, val, s)))))))"

lemma skipSpace_shorter: "length (skipSpace s) \<le> length s"
  by (simp add: skipSpace_def length_dropWhile_le)

lemma nextMember_shorter:
  assumes "nextMember P first s = Some (Inr (key, val, suff))"
  shows "length suff < length s"
proof -
  let ?start = "skipSpace s"
  let ?s = "if first then ?start else skipSpace (tl ?start)"
  obtain lit s1 where k: "?start \<noteq> []" "readValue ?s = Some (lit, s1)" "skipSpace s1 \<noteq> []"
      "readValue (tl (skipSpace s1)) = Some (val, suff)"
    using assms by (auto simp: nextMember_def Let_def split: if_splits option.splits)
  have "length ?s \<le> length ?start"
    using skipSpace_shorter [of "tl ?start"] by auto
  moreover have "length (tl (skipSpace s1)) < length (skipSpace s1)"
    using k(3) by simp
  ultimately show ?thesis
    using readValue_shorter [OF k(4)] readValue_shorter [OF k(2)] skipSpace_shorter [of s1] skipSpace_shorter [of s]
    by linarith
qed

text \<open>The loop over the members.\<close>

function findMember :: "('fld, 'v) protojson \<Rightarrow> string \<Rightarrow> bool \<Rightarrow> string \<Rightarrow> goError + string" where
  "findMember P name first s =
     (case nextMember P first s of
        None \<Rightarrow> Inl (OtherError (''JSON does not contain key '' @ name))
      | Some (Inl err) \<Rightarrow> Inl err
      | Some (Inr (key, val, suff)) \<Rightarrow> if key = name then Inr val else findMember P name False suff)"
  by pat_completeness auto
termination
  by (relation "measure (\<lambda>(P, name, first, s). length s)") (auto dest: nextMember_shorter)

declare findMember.simps [simp del]

text \<open>The first token must be the brace of an object.\<close>

definition cutField :: "('fld, 'v) protojson \<Rightarrow> string \<Rightarrow> string \<Rightarrow> goError + string" where
  "cutField P name whole =
     (let s = skipSpace whole in
      if s = [] then Inl EOF
      else if hd s \<noteq> CHR ''{'' then
        Inl (case firstToken P s of
               Inl err \<Rightarrow> err
             | Inr tok \<Rightarrow> OtherError (''JSON should be an object and begin with {; instead got '' @ tok))
      else findMember P name True (tl s))"

text \<open>The result and the message, in which an unset field with presence gets its default.\<close>

definition MarshalAppendField ::
  "marshalOptions \<Rightarrow> ('mtd, 'msg, 'fld) reflect \<Rightarrow> ('f, 'fld, 'v) paramlib \<Rightarrow> ('fld, 'v) protojson \<Rightarrow>
   string \<Rightarrow> 'v \<Rightarrow> 'fld \<Rightarrow> (goError + string) \<times> 'v"
where
  "MarshalAppendField opts R L P base msg field =
     (if Message R field \<noteq> None \<and> \<not> Repeated R field then
        ((case pjMarshal P opts (childMessage L msg field) of Inl err \<Rightarrow> Inl err | Inr data \<Rightarrow> Inr (base @ data)), msg)
      else
        (let (opts', msg) =
           (if Has P msg field then (opts, msg)
            else if HasPresence P field then (opts, mset L msg field (mget L msg field))
            else (opts\<lparr>EmitUnpopulated := True\<rparr>, msg)) in
         ((case pjMarshal P opts' msg of
             Inl err \<Rightarrow> Inl err
           | Inr data \<Rightarrow> cutField P (fieldName opts R P field) (base @ data)), msg)))"

definition fieldObject :: "('fld, 'v) protojson \<Rightarrow> string \<Rightarrow> string \<Rightarrow> string" where
  "fieldObject P name data = ''{'' @ quoteJSON P name @ [newline] @ '':'' @ data @ ''}''"

definition UnmarshalField ::
  "marshalOptions \<Rightarrow> ('mtd, 'msg, 'fld) reflect \<Rightarrow> ('f, 'fld, 'v) paramlib \<Rightarrow> ('fld, 'v) protojson \<Rightarrow>
   string \<Rightarrow> 'v \<Rightarrow> 'fld \<Rightarrow> goError option \<times> 'v"
where
  "UnmarshalField opts R L P data msg field =
     (if Message R field \<noteq> None \<and> \<not> Repeated R field then
        (let (e, child) = pjUnmarshal P data (childMessage L msg field) in (e, mset L msg field (VMessage child)))
      else pjUnmarshal P (fieldObject P (fieldName opts R P field) data) msg)"

text \<open>The codec as the field \<open>codec\<close> of the streams, on top of the embedded codec.\<close>

definition withJSONFields ::
  "marshalOptions \<Rightarrow> ('mtd, 'msg, 'fld) reflect \<Rightarrow> ('f, 'fld, 'v) paramlib \<Rightarrow> ('fld, 'v) protojson \<Rightarrow>
   ('fld, 'v) restCodec \<Rightarrow> ('fld, 'v) restCodec"
where
  "withJSONFields opts R L P C =
     C\<lparr>marshalAppendField := (\<lambda>msg field. fst (MarshalAppendField opts R L P [] msg field)),
       unmarshalField := (\<lambda>data msg field. UnmarshalField opts R L P data msg field)\<rparr>"

section \<open>Reading values\<close>

text \<open>A text that is one JSON value without space around it, and what can follow a value.\<close>

definition jsonText :: "string \<Rightarrow> bool" where
  "jsonText v \<longleftrightarrow> v \<noteq> [] \<and> \<not> isSpace (hd v) \<and> scanValue BeginValue [] v = Some (length v)"

definition delimiter :: "char \<Rightarrow> bool" where
  "delimiter c \<longleftrightarrow> isSpace c \<or> c \<in> set '',:}]''"

lemma endValue_ends: "endValue st (CHR '' '') = ScanEnd \<longleftrightarrow> st = []" "endValue [] c = ScanEnd"
  by (auto simp: endValue_def isSpace_def split: list.splits)

lemma scan_end: "scanStep mode st (CHR '' '') = ScanEnd \<Longrightarrow> delimiter c \<Longrightarrow> scanStep mode st c = ScanEnd"
  by (induction mode st "CHR '' ''" rule: scanStep.induct)
    (auto simp: delimiter_def endValue_ends beginValue_def beginString_def zero_def expSign_def isSpace_def isDigit_def
      isHex_def push_def split: if_splits)

lemma scanValue_extend:
  "scanValue mode st v = Some (length v) \<Longrightarrow> delimiter c \<Longrightarrow> scanValue mode st (v @ c # r) = Some (length v)"
proof (induction v arbitrary: mode st)
  case Nil
  then have "scanStep mode st (CHR '' '') = ScanEnd"
    by (simp split: if_splits)
  from scan_end [OF this Nil(2)] show ?case
    by simp
next
  case (Cons a v)
  then show ?case
    by (auto split: scanned.splits)
qed

lemma scanValue_space:
  "list_all isSpace ws \<Longrightarrow> scanValue BeginValue [] (ws @ s) = map_option ((+) (length ws)) (scanValue BeginValue [] s)"
  by (induction ws) (auto simp: beginValue_def map_option_case split: option.splits)

lemma skipSpace_append: "list_all isSpace ws \<Longrightarrow> skipSpace (ws @ s) = skipSpace s"
  by (induction ws) (simp_all add: skipSpace_def)

lemma skipSpace_plain: "s \<noteq> [] \<Longrightarrow> \<not> isSpace (hd s) \<Longrightarrow> skipSpace s = s"
  by (cases s) (simp_all add: skipSpace_def)

lemma readValue_text:
  assumes "jsonText v" and "list_all isSpace ws" and "delimiter c"
  shows "readValue (ws @ v @ c # r) = Some (v, c # r)"
proof -
  have "scanValue BeginValue [] (ws @ v @ c # r) = Some (length ws + length v)"
    using assms by (simp add: scanValue_space jsonText_def scanValue_extend)
  moreover have "skipSpace (ws @ v) = v"
    using assms by (simp add: skipSpace_append skipSpace_plain jsonText_def)
  ultimately show ?thesis
    by (simp add: readValue_def)
qed

section \<open>The text of an object\<close>

text \<open>A member with the space around its parts.\<close>

record member =
  mbBefore :: string
  mbKey :: string
  mbAfterKey :: string
  mbAfterColon :: string
  mbValue :: string
  mbAfter :: string

definition memberText :: "member \<Rightarrow> string" where
  "memberText m = mbBefore m @ mbKey m @ mbAfterKey m @ '':'' @ mbAfterColon m @ mbValue m @ mbAfter m"

definition member_ok :: "member \<Rightarrow> bool" where
  "member_ok m \<longleftrightarrow>
     list_all isSpace (mbBefore m) \<and> list_all isSpace (mbAfterKey m) \<and> list_all isSpace (mbAfterColon m) \<and>
     list_all isSpace (mbAfter m) \<and> jsonText (mbKey m) \<and> hd (mbKey m) = CHR 0x22 \<and> jsonText (mbValue m)"

definition objectText :: "member list \<Rightarrow> string \<Rightarrow> string" where
  "objectText ms tail =
     ''{'' @ (case ms of [] \<Rightarrow> [] | m # ms \<Rightarrow> memberText m @ concat (map (\<lambda>m. '','' @ memberText m) ms)) @ ''}'' @ tail"

lemma delimited: "list_all isSpace ws \<Longrightarrow> delimiter c \<Longrightarrow> \<exists>d r'. ws @ c # r = d # r' \<and> delimiter d"
  by (cases ws) (auto simp: delimiter_def)

lemma delimiter_simps [simp]: "delimiter (CHR '','')" "delimiter (CHR '':'')" "delimiter (CHR ''}'')"
  by (simp_all add: delimiter_def)

lemma isSpace_simps [simp]: "\<not> isSpace (CHR '','')" "\<not> isSpace (CHR '':'')" "\<not> isSpace (CHR ''}'')" "\<not> isSpace (CHR 0x22)"
    "\<not> isSpace (CHR ''{'')"
  by (simp_all add: isSpace_def)

lemma nextMember_text:
  assumes "member_ok m" and "delimiter c" and "s = (if first then [] else ws @ '','') @ memberText m @ c # r" and "list_all isSpace ws"
  shows "nextMember P first s = Some (Inr (unquoteJSON P (mbKey m), mbValue m, mbAfter m @ c # r))"
proof -
  let ?val = "mbValue m @ mbAfter m @ c # r"
  let ?colon = "mbAfterKey m @ CHR '':'' # mbAfterColon m @ ?val"
  have ok: "list_all isSpace (mbBefore m)" "list_all isSpace (mbAfterKey m)" "list_all isSpace (mbAfterColon m)"
      "list_all isSpace (mbAfter m)" "jsonText (mbKey m)" "hd (mbKey m) = CHR 0x22" "jsonText (mbValue m)"
    using assms(1) by (simp_all add: member_ok_def)
  obtain d r' where d: "mbAfter m @ c # r = d # r'" "delimiter d"
    using delimited [OF ok(4) assms(2)] by blast
  obtain k r'' where k: "?colon = k # r''" "delimiter k"
    using delimited [OF ok(2) delimiter_simps(2), of "mbAfterColon m @ ?val"] by blast
  have key: "mbKey m \<noteq> []"
    using ok(5) by (simp add: jsonText_def)
  have tok: "skipSpace (memberText m @ c # r) = mbKey m @ ?colon"
    using ok(1,6) key by (simp add: memberText_def skipSpace_append skipSpace_plain)
  have readKey: "readValue (mbKey m @ ?colon) = Some (mbKey m, ?colon)"
    using readValue_text [OF ok(5), of "[]" k r''] k by simp
  have colon: "skipSpace ?colon = CHR '':'' # mbAfterColon m @ ?val"
    using ok(2) by (simp add: skipSpace_append skipSpace_plain)
  have readVal: "readValue (mbAfterColon m @ ?val) = Some (mbValue m, mbAfter m @ c # r)"
    using readValue_text [OF ok(7,3) d(2), of r'] d(1) by simp
  show ?thesis
  proof (cases first)
    case True
    then show ?thesis
      using assms(3) ok(6) key by (simp add: nextMember_def tok readKey colon readVal Let_def)
  next
    case False
    have "skipSpace s = CHR '','' # memberText m @ c # r"
      using False assms(3,4) by (simp add: skipSpace_append skipSpace_plain)
    then show ?thesis
      using False ok(6) key by (simp add: nextMember_def tok readKey colon readVal Let_def)
  qed
qed

definition memberNamed :: "('fld, 'v) protojson \<Rightarrow> string \<Rightarrow> member list \<Rightarrow> goError + string" where
  "memberNamed P name ms =
     (case find (\<lambda>m. unquoteJSON P (mbKey m) = name) ms of
        Some m \<Rightarrow> Inr (mbValue m)
      | None \<Rightarrow> Inl (OtherError (''JSON does not contain key '' @ name)))"

lemma findMember_rest:
  assumes "list_all member_ok ms" and "list_all isSpace ws"
  shows "findMember P name False (ws @ concat (map (\<lambda>m. '','' @ memberText m) ms) @ ''}'' @ tail) = memberNamed P name ms"
  using assms
proof (induction ms arbitrary: ws)
  case Nil
  then have "nextMember P False (ws @ ''}'' @ tail) = None"
    by (simp add: nextMember_def skipSpace_append skipSpace_plain Let_def)
  then show ?case
    by (simp add: findMember.simps memberNamed_def)
next
  case (Cons m ms)
  let ?suff = "concat (map (\<lambda>m. '','' @ memberText m) ms) @ ''}'' @ tail"
  obtain c r where c: "?suff = c # r" "delimiter c"
    by (cases ms) auto
  have step: "nextMember P False (ws @ concat (map (\<lambda>m. '','' @ memberText m) (m # ms)) @ ''}'' @ tail) =
      Some (Inr (unquoteJSON P (mbKey m), mbValue m, mbAfter m @ ?suff))"
    unfolding c(1) by (rule nextMember_text [where ws = ws]) (use Cons.prems c in auto)
  have after: "list_all isSpace (mbAfter m)"
    using Cons.prems(1) by (simp add: member_ok_def)
  show ?case
    by (subst findMember.simps, subst step) (use Cons.IH [OF _ after] Cons.prems(1) in \<open>simp add: memberNamed_def\<close>)
qed

lemma cutField_object:
  assumes "list_all member_ok ms"
  shows "cutField P name (objectText ms tail) = memberNamed P name ms"
proof (cases ms)
  case Nil
  have "nextMember P True (''}'' @ tail) = None"
    by (simp add: nextMember_def skipSpace_plain Let_def)
  then show ?thesis
    by (simp add: Nil cutField_def objectText_def skipSpace_plain findMember.simps memberNamed_def)
next
  case (Cons m ms')
  let ?suff = "concat (map (\<lambda>m. '','' @ memberText m) ms') @ ''}'' @ tail"
  obtain c r where c: "?suff = c # r" "delimiter c"
    by (cases ms') auto
  have ok: "member_ok m" "list_all member_ok ms'" "list_all isSpace (mbAfter m)"
    using assms Cons by (simp_all add: member_ok_def)
  have step: "nextMember P True (memberText m @ ?suff) = Some (Inr (unquoteJSON P (mbKey m), mbValue m, mbAfter m @ ?suff))"
    unfolding c(1) by (rule nextMember_text [where ws = "[]"]) (use ok c in auto)
  have "findMember P name True (memberText m @ ?suff) = memberNamed P name ms"
    by (subst findMember.simps, subst step) (use findMember_rest [OF ok(2,3), where P = P and name = name and tail = tail] in \<open>simp add: Cons memberNamed_def\<close>)
  then show ?thesis
    by (simp add: Cons cutField_def objectText_def skipSpace_plain)
qed

section \<open>Properties\<close>

text \<open>
  What \<open>protojson\<close> and \<open>encoding/json\<close> do, as documented: a message is written as an object
  with a member for each populated field, and for each other field too if these are emitted;
  an object with a member for one field sets this field of a cleared message to the value the
  member was written for.
\<close>

definition lawful_protojson ::
  "marshalOptions \<Rightarrow> ('mtd, 'msg, 'fld) reflect \<Rightarrow> ('f, 'fld, 'v) paramlib \<Rightarrow> ('fld, 'v) protojson \<Rightarrow> 'fld \<Rightarrow> bool"
where
  "lawful_protojson opts R L P f \<longleftrightarrow>
     (\<forall>m. mget L (mset L m f (mget L m f)) f = mget L m f \<and> Has P (mset L m f (mget L m f)) f = (Has P m f \<or> HasPresence P f)) \<and>
     (\<forall>o' m whole. UseProtoNames o' = UseProtoNames opts \<and> (Has P m f \<or> EmitUnpopulated o') \<and> pjMarshal P o' m = Inr whole \<longrightarrow>
        (\<exists>ms tail. whole = objectText ms tail \<and> list_all member_ok ms \<and>
           (\<exists>data. memberNamed P (fieldName opts R P f) ms = Inr data \<and>
             (\<forall>m0. pjUnmarshal P (fieldObject P (fieldName opts R P f) data) m0 = (None, mset L (cleared P m0) f (mget L m f))))))"

lemma field_roundtrip:
  assumes "lawful_protojson opts R L P f" and "Message R f = None \<or> Repeated R f"
    and "MarshalAppendField opts R L P [] msg f = (Inr data, msg')"
  shows "UnmarshalField opts R L P data msg0 f = (None, mset L (cleared P msg0) f (mget L msg f))"
proof -
  define opts' where "opts' = (if Has P msg f \<or> HasPresence P f then opts else opts\<lparr>EmitUnpopulated := True\<rparr>)"
  define m where "m = (if \<not> Has P msg f \<and> HasPresence P f then mset L msg f (mget L msg f) else msg)"
  have m: "mget L m f = mget L msg f" "Has P m f \<or> EmitUnpopulated opts'" "UseProtoNames opts' = UseProtoNames opts"
    using assms(1) by (auto simp: m_def opts'_def lawful_protojson_def)
  have "MarshalAppendField opts R L P [] msg f =
      ((case pjMarshal P opts' m of Inl err \<Rightarrow> Inl err | Inr data \<Rightarrow> cutField P (fieldName opts R P f) data), m)"
    using assms(2) by (auto simp: MarshalAppendField_def opts'_def m_def cong: sum.case_cong)
  then obtain whole where whole: "pjMarshal P opts' m = Inr whole" "cutField P (fieldName opts R P f) whole = Inr data"
    using assms(3) by (auto split: sum.splits)
  then obtain ms tail data' where obj: "whole = objectText ms tail" "list_all member_ok ms"
      "memberNamed P (fieldName opts R P f) ms = Inr data'"
      "\<And>m0. pjUnmarshal P (fieldObject P (fieldName opts R P f) data') m0 = (None, mset L (cleared P m0) f (mget L m f))"
    using assms(1) m(2,3) unfolding lawful_protojson_def by blast
  then have "data' = data"
    using whole(2) cutField_object [OF obj(2), where P = P and tail = tail] by simp
  then show ?thesis
    using obj(4) assms(2) m(1) by (auto simp: UnmarshalField_def)
qed

text \<open>
  \<open>base\<close> is not kept: it stands before the text the decoder reads, so it is skipped when it is
  space and breaks the text otherwise; for a message field the value is appended to it.
\<close>

lemma base_dropped:
  assumes "Message R f = None \<or> Repeated R f" and "list_all isSpace ws"
  shows "MarshalAppendField opts R L P ws msg f = MarshalAppendField opts R L P [] msg f"
  using assms by (auto simp: MarshalAppendField_def cutField_def skipSpace_append cong: sum.case_cong)


section \<open>A sample codec\<close>

text \<open>Strings without escapes.\<close>

definition plainChar :: "char \<Rightarrow> bool" where
  "plainChar c \<longleftrightarrow> c \<noteq> CHR 0x22 \<and> c \<noteq> CHR 0x5C \<and> 32 \<le> (of_char c :: nat)"

definition quoted :: "string \<Rightarrow> string" where
  "quoted s = [CHR 0x22] @ s @ [CHR 0x22]"

lemma scan_string: "list_all plainChar s \<Longrightarrow> scanValue InString [] (s @ [CHR 0x22]) = Some (Suc (length s))"
  by (induction s) (auto simp: plainChar_def endValue_ends)

lemma jsonText_quoted: "list_all plainChar s \<Longrightarrow> jsonText (quoted s)" "hd (quoted s) = CHR 0x22"
  by (simp_all add: jsonText_def quoted_def beginValue_def scan_string)

definition sampleMember :: "string \<Rightarrow> string \<Rightarrow> member" where
  "sampleMember key data =
     \<lparr>mbBefore = [], mbKey = quoted key, mbAfterKey = [], mbAfterColon = '' '', mbValue = quoted data, mbAfter = []\<rparr>"

definition sampleJSON :: "(string, typedMsg) protojson" where
  "sampleJSON =
     \<lparr>pjMarshal = (\<lambda>opts m. case typedField m ''name'' of
        VString s \<Rightarrow> if list_all plainChar s then Inr (objectText [sampleMember ''id'' ''7'', sampleMember ''name'' s] []) else Inl EOF
      | _ \<Rightarrow> Inl EOF),
      pjUnmarshal = (\<lambda>data m.
        (None, TypedMsg (typeName m) ((\<lambda>f. VString [])(''name'' := VString (butlast (tl (butlast (drop 9 data)))))))),
      Has = (\<lambda>m f. case typedField m f of VString s \<Rightarrow> s \<noteq> [] | _ \<Rightarrow> True), HasPresence = (\<lambda>f. False), IsExtension = (\<lambda>f. False),
      FieldFullName = (\<lambda>f. f), cleared = (\<lambda>m. TypedMsg (typeName m) (\<lambda>f. VString [])), quoteJSON = quoted,
      unquoteJSON = (\<lambda>s. butlast (tl s)), decoderError = (\<lambda>s. EOF), firstToken = (\<lambda>s. Inl EOF)\<rparr>"

lemma fieldObject_name: "fieldObject sampleJSON ''name'' (quoted s) = ''{'' @ quoted ''name'' @ [newline] @ '':'' @ quoted s @ ''}''"
  by (simp add: fieldObject_def sampleJSON_def)

lemma json_sample_lawful: "lawful_protojson opts uploadReflect uploadLib sampleJSON ''name''"
proof -
  have name: "fieldName opts uploadReflect sampleJSON ''name'' = ''name''"
    by (simp add: fieldName_def sampleJSON_def uploadReflect_def sample_def)
  have read: "pjUnmarshal sampleJSON (fieldObject sampleJSON ''name'' (quoted s)) m0 =
      (None, mset uploadLib (cleared sampleJSON m0) ''name'' (VString s))" for s m0
    by (simp add: fieldObject_name) (simp add: sampleJSON_def uploadLib_def quoted_def newline_def butlast_append fun_eq_iff)
  have "list_all member_ok [sampleMember ''id'' ''7'', sampleMember ''name'' s]" if "list_all plainChar s" for s
    using that by (simp add: member_ok_def sampleMember_def jsonText_quoted isSpace_def plainChar_def)
  moreover have "memberNamed sampleJSON ''name'' [sampleMember ''id'' ''7'', sampleMember ''name'' s] = Inr (quoted s)" for s
    by (simp add: memberNamed_def sampleMember_def sampleJSON_def quoted_def)
  moreover have "\<exists>s. mget uploadLib m ''name'' = VString s \<and> list_all plainChar s \<and>
      whole = objectText [sampleMember ''id'' ''7'', sampleMember ''name'' s] []" if "pjMarshal sampleJSON o' m = Inr whole" for o' m whole
    using that by (auto simp: sampleJSON_def uploadLib_def split: pvalue.splits if_splits)
  moreover have "mget uploadLib (mset uploadLib m f (mget uploadLib m f)) f = mget uploadLib m f \<and>
      Has sampleJSON (mset uploadLib m f (mget uploadLib m f)) f = (Has sampleJSON m f \<or> HasPresence sampleJSON f)" for m f
    by (simp add: uploadLib_def sampleJSON_def)
  ultimately show ?thesis
    unfolding lawful_protojson_def name using read by metis
qed

definition sampleCodec :: "(string, typedMsg) restCodec" where
  "sampleCodec = withJSONFields (NewJSONCodec \<lparr>EmitUnpopulated = False, UseProtoNames = False\<rparr>) uploadReflect uploadLib sampleJSON plainCodec"

definition namedMsg :: "string \<Rightarrow> typedMsg" where
  "namedMsg s = TypedMsg ''Book'' ((\<lambda>f. VString [])(''name'' := VString s))"


end
