(* ===== verification/FileServer.thy ===== *)
theory FileServer
  imports EndToEnd
begin

text \<open>
  A program on top of the library: the file server of
  \<open>internal/examples/fileserver/main.go\<close>.  A directory is a map from the names of its files
  to their content; what the operating system decides (where a path leads, whether a file can
  be created, how a write or read ends) is the record \<open>osRoot\<close>, an argument, like the generated
  message types (\<open>contentTypes\<close>), the type table of \<open>mime\<close> and the HTML template.  A handler
  that does not return is \<open>None\<close>.  Logging is left out.
\<close>

section \<open>The directory\<close>

datatype fileEntry = RegularFile string | Directory

type_synonym files = "string \<rightharpoonup> fileEntry"

record osRoot =
  rootOpen :: "files \<Rightarrow> string \<Rightarrow> goError + string"
  rootCreate :: "files \<Rightarrow> string \<Rightarrow> goError + string"
  rootReadDir :: "files \<Rightarrow> string \<Rightarrow> goError + string list"
  statErr :: "files \<Rightarrow> string \<Rightarrow> goError option"
  readErr :: "files \<Rightarrow> string \<Rightarrow> goError"
  writeErr :: "files \<Rightarrow> string \<Rightarrow> string \<Rightarrow> (nat \<times> goError) option"

text \<open>An open file is read from its content to the error at its end; \<open>Create\<close> truncates.\<close>

definition openedFile :: "osRoot \<Rightarrow> files \<Rightarrow> string \<Rightarrow> reader" where
  "openedFile dir files key =
     \<lparr>rdData = (case files key of Some (RegularFile data) \<Rightarrow> data | _ \<Rightarrow> []), rdErr = readErr dir files key\<rparr>"

definition createFile :: "osRoot \<Rightarrow> string \<Rightarrow> files \<Rightarrow> goError + string \<times> files" where
  "createFile dir name files =
     (case rootCreate dir files name of
        Inl err \<Rightarrow> Inl err
      | Inr key \<Rightarrow> Inr (key, files(key \<mapsto> RegularFile [])))"

text \<open>\<open>os.File.Write\<close> at the end of what was written so far; a failed write may be partial.\<close>

definition writeFile :: "osRoot \<Rightarrow> string \<Rightarrow> string \<Rightarrow> files \<Rightarrow> goError option \<times> files" where
  "writeFile dir key data files =
     (let old = (case files key of Some (RegularFile d) \<Rightarrow> d | _ \<Rightarrow> []) in
      case writeErr dir files key data of
        None \<Rightarrow> (None, files(key \<mapsto> RegularFile (old @ data)))
      | Some (n, err) \<Rightarrow> (Some err, files(key \<mapsto> RegularFile (old @ take n data))))"

text \<open>\<open>os.File.Read\<close> with a buffer of \<open>n\<close> bytes.\<close>

definition readFile :: "nat \<Rightarrow> reader \<Rightarrow> string \<times> goError option \<times> reader" where
  "readFile n r =
     (take n (rdData r), if rdData r = [] then Some (rdErr r) else None, r\<lparr>rdData := drop n (rdData r)\<rparr>)"

section \<open>The service\<close>

record 'v contentTypes =
  GetPage :: "'v \<Rightarrow> string"
  GetFilename :: "'v \<Rightarrow> string"
  GetFileData :: "'v \<Rightarrow> string"
  newHttpBody :: "string \<Rightarrow> string \<Rightarrow> 'v"
  newDownloadResponse :: "string \<Rightarrow> string \<Rightarrow> 'v"
  newEmpty :: 'v

text \<open>\<open>filepath.Ext\<close>: the suffix from the last dot of the last element on.\<close>

definition pathExt :: "string \<Rightarrow> string" where
  "pathExt name =
     (let base = (case last_index_byte CHR ''/'' name of Some i \<Rightarrow> drop (i + 1) name | None \<Rightarrow> name) in
      case last_index_byte CHR ''.'' base of Some i \<Rightarrow> drop i base | None \<Rightarrow> [])"

record page =
  typeByExtension :: "string \<Rightarrow> string"
  joinNames :: "string \<Rightarrow> string \<Rightarrow> string"
  indexHTML :: "string \<Rightarrow> (string \<rightharpoonup> string) \<Rightarrow> goError + string"

definition contentIndex :: "osRoot \<Rightarrow> 'v contentTypes \<Rightarrow> page \<Rightarrow> files \<Rightarrow> 'v \<Rightarrow> goError + 'v" where
  "contentIndex dir C P files req =
     (let name = (if GetPage C req = ''/'' \<or> GetPage C req = [] then ''.'' else GetPage C req) in
      case rootOpen dir files name of
        Inl err \<Rightarrow> Inl err
      | Inr key \<Rightarrow>
          (case statErr dir files key of
             Some err \<Rightarrow> Inl err
           | None \<Rightarrow>
               if files key \<noteq> Some Directory then
                 (let contentType = typeByExtension P (pathExt name);
                      contentType = (if contentType = [] then ''application/octet-stream'' else contentType) in
                  case readAll (openedFile dir files key) of
                    (data, Some err) \<Rightarrow> Inl err
                  | (data, None) \<Rightarrow> Inr (newHttpBody C contentType data))
               else
                 (case rootReadDir dir files name of
                    Inl err \<Rightarrow> Inl err
                  | Inr entries \<Rightarrow>
                      (case indexHTML P name (foldl (\<lambda>m e. m(joinNames P name e \<mapsto> e)) (\<lambda>k. None) entries) of
                         Inl err \<Rightarrow> Inl err
                       | Inr html \<Rightarrow> Inr (newHttpBody C ''text/html; charset=utf-8'' html)))))"

text \<open>The loop of \<open>Upload\<close>; \<open>file\<close> is the open file, \<open>m0\<close> a new message.\<close>

partial_function (option) uploadLoop ::
  "('mtd, 'typ, 'msg, 'fld, 'f, 'v, 'c, 'w) serverEnv \<Rightarrow> osRoot \<Rightarrow> 'v contentTypes \<Rightarrow> 'v \<Rightarrow> string option \<Rightarrow> files \<Rightarrow>
   ('mtd, 'typ, 'fld, 'c, 'w) serverStream \<Rightarrow>
   ((goError + string option) \<times> files \<times> ('mtd, 'typ, 'fld, 'c, 'w) serverStream) option"
where
  "uploadLoop E dir C m0 file files s =
     (case Receive E (ProtoMessage m0) s of
        None \<Rightarrow> None
      | Some (Some err, _, s) \<Rightarrow> Some (if errorsIs err EOF then Inr file else Inl err, files, s)
      | Some (None, OtherType ty, s) \<Rightarrow> None
      | Some (None, ProtoMessage msg, s) \<Rightarrow>
          (case (case file of Some key \<Rightarrow> Inr (key, files) | None \<Rightarrow> createFile dir (GetFilename C msg) files) of
             Inl err \<Rightarrow> Some (Inl err, files, s)
           | Inr (key, files) \<Rightarrow>
               (case writeFile dir key (GetFileData C msg) files of
                  (Some err, files) \<Rightarrow> Some (Inl err, files, s)
                | (None, files) \<Rightarrow> uploadLoop E dir C m0 (Some key) files s)))"

definition contentUpload ::
  "('mtd, 'typ, 'msg, 'fld, 'f, 'v, 'c, 'w) serverEnv \<Rightarrow> osRoot \<Rightarrow> 'v contentTypes \<Rightarrow> 'v \<Rightarrow> files \<Rightarrow>
   ('mtd, 'typ, 'fld, 'c, 'w) serverStream \<Rightarrow>
   ((goError + 'v) \<times> files \<times> ('mtd, 'typ, 'fld, 'c, 'w) serverStream) option"
where
  "contentUpload E dir C m0 files s =
     (case uploadLoop E dir C m0 None files s of
        None \<Rightarrow> None
      | Some (r, files, s) \<Rightarrow>
          Some (case r of
                  Inl err \<Rightarrow> Inl err
                | Inr None \<Rightarrow> Inl (Conn (newError CodeInvalidArgument ''no upload message received''))
                | Inr (Some key) \<Rightarrow> Inr (newEmpty C), files, s))"

definition downloadBuffer :: nat where
  "downloadBuffer = 32 * 1024"

function downloadLoop ::
  "('mtd, 'typ, 'msg, 'fld, 'f, 'v, 'c, 'w) serverEnv \<Rightarrow> 'v contentTypes \<Rightarrow> reader \<Rightarrow>
   ('mtd, 'typ, 'fld, 'c, 'w) serverStream \<Rightarrow> goError option \<times> ('mtd, 'typ, 'fld, 'c, 'w) serverStream"
where
  "downloadLoop E C file s =
     (let (data, readErr, file') = readFile downloadBuffer file;
          (err, s) =
            (if data \<noteq> [] then Send E (ProtoMessage (newDownloadResponse C ''application/octet-stream'' data)) s
             else (None, s)) in
      case err of
        Some err \<Rightarrow> (Some err, s)
      | None \<Rightarrow>
          (case readErr of
             None \<Rightarrow> downloadLoop E C file' s
           | Some err \<Rightarrow> (if errorsIs err EOF then None else Some err, s)))"
  by pat_completeness auto

termination
  by (relation "measure (\<lambda>(E, C, file, s). length (rdData file))")
    (auto simp: readFile_def downloadBuffer_def split: if_splits)

definition contentDownload ::
  "('mtd, 'typ, 'msg, 'fld, 'f, 'v, 'c, 'w) serverEnv \<Rightarrow> osRoot \<Rightarrow> 'v contentTypes \<Rightarrow> files \<Rightarrow> 'v \<Rightarrow>
   ('mtd, 'typ, 'fld, 'c, 'w) serverStream \<Rightarrow> goError option \<times> ('mtd, 'typ, 'fld, 'c, 'w) serverStream"
where
  "contentDownload E dir C files req s =
     (case rootOpen dir files (GetFilename C req) of
        Inl err \<Rightarrow> (Some err, s)
      | Inr key \<Rightarrow> downloadLoop E C (openedFile dir files key) s)"

section \<open>The generated handlers\<close>

text \<open>\<open>contentServiceHandler\<close> of the generated code: a message that goes through the stream on
  both sides of the service's methods.\<close>

definition withRequest ::
  "('mtd, 'typ, 'msg, 'fld, 'f, 'v, 'c, 'w) serverEnv \<Rightarrow> 'v \<Rightarrow>
   ('v \<Rightarrow> ('mtd, 'typ, 'fld, 'c, 'w) serverStream \<Rightarrow> (goError option \<times> ('mtd, 'typ, 'fld, 'c, 'w) serverStream)) \<Rightarrow>
   ('mtd, 'typ, 'fld, 'c, 'w) serverStream \<Rightarrow> (goError option \<times> ('mtd, 'typ, 'fld, 'c, 'w) serverStream) option"
where
  "withRequest E m0 call s =
     (case Receive E (ProtoMessage m0) s of
        Some (Some err, _, s) \<Rightarrow> Some (Some err, s)
      | Some (None, ProtoMessage req, s) \<Rightarrow> Some (call req s)
      | _ \<Rightarrow> None)"

definition sendResult ::
  "('mtd, 'typ, 'msg, 'fld, 'f, 'v, 'c, 'w) serverEnv \<Rightarrow> goError + 'v \<Rightarrow> ('mtd, 'typ, 'fld, 'c, 'w) serverStream \<Rightarrow>
   goError option \<times> ('mtd, 'typ, 'fld, 'c, 'w) serverStream"
where
  "sendResult E r s = (case r of Inl err \<Rightarrow> (Some err, s) | Inr res \<Rightarrow> Send E (ProtoMessage res) s)"

definition indexHandler ::
  "('mtd, 'typ, 'msg, 'fld, 'f, 'v, 'c, 'w) serverEnv \<Rightarrow> osRoot \<Rightarrow> 'v contentTypes \<Rightarrow> page \<Rightarrow> 'v \<Rightarrow> files \<Rightarrow>
   ('mtd, 'typ, 'fld, 'c, 'w) serverStream \<Rightarrow> (goError option \<times> ('mtd, 'typ, 'fld, 'c, 'w) serverStream) option"
where
  "indexHandler E dir C P m0 files s = withRequest E m0 (\<lambda>req. sendResult E (contentIndex dir C P files req)) s"

definition uploadHandler ::
  "('mtd, 'typ, 'msg, 'fld, 'f, 'v, 'c, 'w) serverEnv \<Rightarrow> osRoot \<Rightarrow> 'v contentTypes \<Rightarrow> 'v \<Rightarrow> files \<Rightarrow>
   ('mtd, 'typ, 'fld, 'c, 'w) serverStream \<Rightarrow>
   ((goError option \<times> ('mtd, 'typ, 'fld, 'c, 'w) serverStream) \<times> files) option"
where
  "uploadHandler E dir C m0 files s =
     map_option (\<lambda>(r, files, s). (sendResult E r s, files)) (contentUpload E dir C m0 files s)"

definition downloadHandler ::
  "('mtd, 'typ, 'msg, 'fld, 'f, 'v, 'c, 'w) serverEnv \<Rightarrow> osRoot \<Rightarrow> 'v contentTypes \<Rightarrow> 'v \<Rightarrow> files \<Rightarrow>
   ('mtd, 'typ, 'fld, 'c, 'w) serverStream \<Rightarrow> (goError option \<times> ('mtd, 'typ, 'fld, 'c, 'w) serverStream) option"
where
  "downloadHandler E dir C m0 files s = withRequest E m0 (contentDownload E dir C files) s"

section \<open>What the handlers rely on\<close>

text \<open>
  The generated messages: \<open>fs\<close> and \<open>fs'\<close> are the body fields of an upload and of a download,
  \<open>nfs\<close> is the path of the file name.
\<close>

definition lawful_content ::
  "('mtd, 'typ, 'msg, 'fld, 'f, 'v, 'c, 'w) serverEnv \<Rightarrow> 'v contentTypes \<Rightarrow> 'fld list \<Rightarrow> 'fld list \<Rightarrow> 'fld list \<Rightarrow> bool"
where
  "lawful_content E C fs nfs fs' \<longleftrightarrow>
     (\<forall>m. GetFileData C m = bodyData E fs m) \<and>
     (\<forall>m name. leafValue (lib E) m nfs = Some (VString name) \<longrightarrow> GetFilename C m = name) \<and>
     (\<forall>ct data. body_response E fs' (newDownloadResponse C ct data) \<and>
        bodyData E fs' (newDownloadResponse C ct data) = data)"

text \<open>A request whose path has the name of the file.\<close>

definition names_file ::
  "('mtd, 'typ, 'msg, 'fld, 'f, 'v, 'c, 'w) serverEnv \<Rightarrow> 'v \<Rightarrow> ('mtd, 'typ, 'fld, 'c, 'w) serverStream \<Rightarrow>
   'fld list \<Rightarrow> string \<Rightarrow> bool"
where
  "names_file E m0 s nfs name \<longleftrightarrow>
     (\<exists>x \<in> set (vars (ssTarget s)). flds x = nfs \<and> urlValue E m0 s x (VString name))"

section \<open>Uploading\<close>

lemma writeFile_ok:
  "writeErr dir files key data = None \<Longrightarrow> files key = Some (RegularFile old) \<Longrightarrow>
   writeFile dir key data files = (None, files(key \<mapsto> RegularFile (old @ data)))"
  by (simp add: writeFile_def)

lemma uploadLoop_open:
  assumes "\<And>files data. writeErr dir files key data = None"
  shows "receiveLoop n E m0 s = (ms, Some EOF) \<Longrightarrow> files key = Some (RegularFile old) \<Longrightarrow>
    \<exists>s'. uploadLoop E dir C m0 (Some key) files s =
      Some (Inr (Some key), files(key \<mapsto> RegularFile (old @ concat (map (GetFileData C) ms))), s')"
proof (induction n arbitrary: s ms files old)
  case (Suc n)
  from Suc.prems(1) consider (stop) msg s1 where "Receive E (ProtoMessage m0) s = Some (Some EOF, msg, s1)" "ms = []"
    | (step) m s1 ms1 where "Receive E (ProtoMessage m0) s = Some (None, ProtoMessage m, s1)"
        "receiveLoop n E m0 s1 = (ms1, Some EOF)" "ms = m # ms1"
    by (auto split: option.splits prod.splits anyMessage.splits)
  then show ?case
  proof cases
    case stop
    then show ?thesis
      using Suc.prems(2) by (subst uploadLoop.simps) (auto simp: fun_upd_idem)
  next
    case step
    let ?files = "files(key \<mapsto> RegularFile (old @ GetFileData C m))"
    have now: "?files key = Some (RegularFile (old @ GetFileData C m))"
      by simp
    obtain s' where "uploadLoop E dir C m0 (Some key) ?files s1 =
        Some (Inr (Some key), ?files(key \<mapsto> RegularFile ((old @ GetFileData C m) @ concat (map (GetFileData C) ms1))), s')"
      using Suc.IH [where files = ?files, OF step(2) now] by blast
    then show ?thesis
      using step(1,3) writeFile_ok [where files = files, OF assms Suc.prems(2), of "GetFileData C m"]
      by (subst uploadLoop.simps) simp
  qed
qed simp

text \<open>\<open>Upload\<close> writes the data of all messages into the file that the first one names.\<close>

lemma contentUpload_messages:
  assumes "receiveLoop n E m0 s = (m # ms, Some EOF)" and "rootCreate dir files (GetFilename C m) = Inr key"
    and "\<And>files data. writeErr dir files key data = None"
  shows "\<exists>s'. contentUpload E dir C m0 files s =
    Some (Inr (newEmpty C), files(key \<mapsto> RegularFile (concat (map (GetFileData C) (m # ms)))), s')"
proof -
  obtain k s1 where r: "Receive E (ProtoMessage m0) s = Some (None, ProtoMessage m, s1)"
      "receiveLoop k E m0 s1 = (ms, Some EOF)"
    using assms(1) by (cases n) (auto split: option.splits prod.splits anyMessage.splits)
  let ?files = "files(key \<mapsto> RegularFile (GetFileData C m))"
  have w: "writeFile dir key (GetFileData C m) (files(key \<mapsto> RegularFile [])) = (None, ?files)"
    using writeFile_ok [of dir "files(key \<mapsto> RegularFile [])" key "GetFileData C m" "[]"] assms(3) by simp
  have now: "?files key = Some (RegularFile (GetFileData C m))"
    by simp
  obtain s' where "uploadLoop E dir C m0 (Some key) ?files s1 =
      Some (Inr (Some key), ?files(key \<mapsto> RegularFile (GetFileData C m @ concat (map (GetFileData C) ms))), s')"
    using uploadLoop_open [where files = ?files, OF assms(3) r(2) now] by blast
  then have "uploadLoop E dir C m0 None files s =
      Some (Inr (Some key), files(key \<mapsto> RegularFile (concat (map (GetFileData C) (m # ms)))), s')"
    using r(1) w assms(2) by (subst uploadLoop.simps) (simp add: createFile_def)
  then show ?thesis
    by (simp add: contentUpload_def)
qed

lemma contentUpload_stores:
  assumes laws: "lawful_bodies (reflect E) (lib E) (Descriptor E)" and content: "lawful_content E C fs nfs fs'"
    and plain: "plain_upload E fs m0 s" and fresh: "\<not> ssDone s" "ssBody s = None" "requestCompressor s = None"
    and body: "rdErr (rqBody (ssRequest s)) = EOF"
      "0 < maxReadBytes E \<longrightarrow> int (length (rdData (rqBody (ssRequest s)))) \<le> maxReadBytes E"
    and named: "names_file E m0 s nfs name"
    and create: "rootCreate dir files name = Inr key" and writes: "\<And>files data. writeErr dir files key data = None"
  shows "\<exists>s'. contentUpload E dir C m0 files s =
    Some (Inr (newEmpty C), files(key \<mapsto> RegularFile (rdData (rqBody (ssRequest s)))), s')"
proof -
  let ?n = "length (rdData (rqBody (ssRequest s))) div bodyChunkSize + 2"
  from upload_lemma [OF laws plain fresh body order_refl]
  obtain ms where "receiveLoop ?n E m0 s = (ms, Some EOF)" "ms \<noteq> []" "url_set E m0 s (hd ms)"
      "concat (map (bodyData E fs) ms) = rdData (rqBody (ssRequest s))"
    by blast
  then obtain m ms' where ms: "receiveLoop ?n E m0 s = (m # ms', Some EOF)" "url_set E m0 s m"
      "concat (map (bodyData E fs) (m # ms')) = rdData (rqBody (ssRequest s))"
    by (cases ms) auto
  have "GetFilename C m = name"
    using ms(2) named content by (auto simp: url_set_def lawful_content_def names_file_def)
  moreover have "GetFileData C = bodyData E fs"
    using content by (auto simp: lawful_content_def)
  ultimately show ?thesis
    using contentUpload_messages [OF ms(1) _ writes, of files C] create ms(3) by simp
qed

section \<open>Downloading\<close>

lemma Receive_frame:
  assumes "Receive E msg s = Some (e, msg', s')"
  shows "recv_frame s s'"
proof (cases rule: Receive_cases [OF assms, case_names exhausted untyped unopened opened])
  case (opened s1 body pmsg m)
  then have "recv_frame s1 s'"
    using receiveUnary_frame [of E body pmsg s1 e m s'] receiveStream_frame [of E "ssBody s = None" body pmsg s1 e m s']
    by (auto split: if_splits)
  then show ?thesis
    using opened(2) recv_frame_trans by blast
qed (use recv_frame_refl openBody_frame [of E s e s'] in auto)

lemma downloadLoop_sends:
  assumes "\<And>ct data. body_response E fs (newDownloadResponse C ct data) \<and> bodyData E fs (newDownloadResponse C ct data) = data"
  shows "downloadLoop E C r s = (None, s') \<Longrightarrow>
    \<exists>ms. serverSendLoop E ms s = (True, s') \<and> concat (map (bodyData E fs) ms) = rdData r \<and>
      list_all (body_response E fs) ms"
proof (induction "length (rdData r)" arbitrary: r s rule: less_induct)
  case (less r s)
  show ?case
  proof (cases "rdData r = []")
    case True
    then have "s' = s"
      using less(2) by (subst (asm) downloadLoop.simps) (auto simp: readFile_def split: if_splits)
    then show ?thesis
      using True by (intro exI [of _ "[]"]) simp
  next
    case False
    let ?data = "take downloadBuffer (rdData r)" and ?file = "r\<lparr>rdData := drop downloadBuffer (rdData r)\<rparr>"
    let ?m = "newDownloadResponse C ''application/octet-stream'' ?data"
    have read: "readFile downloadBuffer r = (?data, None, ?file)" "?data \<noteq> []"
      and shorter: "length (rdData ?file) < length (rdData r)"
      using False by (simp_all add: readFile_def downloadBuffer_def)
    then obtain s1 where snd: "Send E (ProtoMessage ?m) s = (None, s1)" and more: "downloadLoop E C ?file s1 = (None, s')"
      using less(2) by (subst (asm) downloadLoop.simps) (auto split: prod.splits option.splits)
    then obtain ms where "serverSendLoop E ms s1 = (True, s')" "concat (map (bodyData E fs) ms) = rdData ?file"
        "list_all (body_response E fs) ms"
      using less(1) [OF shorter] by blast
    then show ?thesis
      using snd by (intro exI [of _ "?m # ms"]) (simp add: assms)
  qed
qed

lemma contentDownload_served:
  assumes "lawful_content (hEnv H) C fs nfs fs'" and "fresh_response w" and "routed H q target requestC None timeout"
    and "serverStreaming (streamType (spec (target_method target)))" and "responseBodyFields target = Some fs'"
    and "s = startStream target (q\<lparr>rqPattern := pattern target\<rparr>) w requestC None"
    and "callHandler H q w target requestC None timeout = downloadHandler (hEnv H) dir C m0 files s"
    and "Receive (hEnv H) (ProtoMessage m0) s = Some (None, ProtoMessage req, s1)"
    and "contentDownload (hEnv H) dir C files req s1 = (None, s2)"
  obtains r key h where "rootOpen dir files (GetFilename C req) = Inr key" and "serveHTTP H q w = Answered r"
    and "rspSent r = Some (200, h)" and "rspBody r = rdData (openedFile dir files key)"
proof -
  have "download_open fs' [] s" "\<not> headersSet s"
    using assms(2,4,5) by (simp_all add: assms(6) download_open_def startStream_def newServerStream_def head_ok_def fresh_response_def)
  moreover obtain a b c where "s1 = s\<lparr>ssRequest := a, ssBody := b, ssDone := c\<rparr>"
    using Receive_frame [OF assms(8)] unfolding recv_frame_def by blast
  ultimately have s1: "download_open fs' [] s1" "\<not> headersSet s1"
    by (simp_all add: download_open_def head_ok_def)
  obtain key where key: "rootOpen dir files (GetFilename C req) = Inr key"
      "downloadLoop (hEnv H) C (openedFile dir files key) s1 = (None, s2)"
    using assms(9) by (auto simp: contentDownload_def split: sum.splits)
  obtain ms where ms: "serverSendLoop (hEnv H) ms s1 = (True, s2)" "list_all (body_response (hEnv H) fs') ms"
      "concat (map (bodyData (hEnv H) fs') ms) = rdData (openedFile dir files key)"
    using downloadLoop_sends [OF _ key(2), of fs'] assms(1) by (auto simp: lawful_content_def)
  have call: "callHandler H q w target requestC None timeout = Some (None, s2)"
    using assms(7-9) by (simp add: downloadHandler_def withRequest_def)
  show thesis
    by (rule served_from [OF assms(2,3) call assms(4) s1 ms(2,1)]) (use that key(1) ms(3) in auto)
qed

section \<open>A body that was cut off\<close>

text \<open>
  \<open>readChunk\<close> takes the end of a body that was cut off for a short chunk, again and again, so
  \<open>Upload\<close> never returns when the reader keeps its error.
\<close>

definition cut_off :: "('mtd, 'typ, 'msg, 'fld, 'f, 'v, 'c, 'w) serverEnv \<Rightarrow> 'fld list \<Rightarrow> 'v \<Rightarrow>
    ('mtd, 'typ, 'fld, 'c, 'w) serverStream \<Rightarrow> bool" where
  "cut_off E fs m0 s \<longleftrightarrow> plain_upload E fs m0 s \<and> \<not> ssDone s \<and>
     (case ssBody s of None \<Rightarrow> False | Some b \<Rightarrow> errorsIs (rdErr b) UnexpectedEOF)"

lemma Receive_cut_off:
  assumes "lawful_bodies (reflect E) (lib E) (Descriptor E)" and "cut_off E fs m0 s"
  obtains m s' where "Receive E (ProtoMessage m0) s = Some (None, ProtoMessage m, s')" and "cut_off E fs m0 s'"
proof -
  obtain b where b: "ssBody s = Some b" "errorsIs (rdErr b) UnexpectedEOF"
    using assms(2) by (auto simp: cut_off_def split: option.splits)
  have plain: "plain_upload E fs m0 s" "\<not> ssDone s"
    using assms(2) by (simp_all add: cut_off_def)
  obtain d b' where d: "readChunk b = (Inr d, b')" "rdErr b' = rdErr b"
    using readChunk_full [of b] readChunk_short [of b] b(2) by (cases "bodyChunkSize \<le> length (rdData b)") auto
  obtain m where "setBodyHTTPBody (texts E) (reflect E) (lib E) (Descriptor E) fs m0
      (header_get (rqHeader (ssRequest s)) ''Content-Type'') d = (None, m)"
    by (rule setBody_data [OF assms(1) plain(1)])
  then have "Receive E (ProtoMessage m0) s = Some (None, ProtoMessage m, s\<lparr>ssBody := Some b'\<rparr>)"
    using b(1) d(1) plain by (simp add: Receive_def receiveStream_def plain_upload_def Let_def)
  moreover have "cut_off E fs m0 (s\<lparr>ssBody := Some b'\<rparr>)"
    using plain b(2) d(2) by (simp add: cut_off_def plain_upload_def)
  ultimately show thesis
    by (rule that)
qed

lemma truncated_upload_hangs:
  assumes "lawful_bodies (reflect E) (lib E) (Descriptor E)" and "cut_off E fs m0 s"
    and "\<And>files data. writeErr dir files key data = None"
  shows "uploadLoop E dir C m0 (Some key) files s = None"
proof -
  have "False" if "uploadLoop E dir C m0 (Some key) files s = Some r" "cut_off E fs m0 s" for files s r
  proof -
    have "uploadLoop a b c d e f g = Some y \<Longrightarrow>
        \<not> (a = E \<and> b = dir \<and> d = m0 \<and> e = Some key \<and> cut_off E fs m0 g)" for a b c d e f g y
    proof (induction a b c d e f g y rule: uploadLoop.raw_induct [rotated, consumes 1])
      case (1 rec a b c d e f g y)
      show ?case
      proof
        assume same: "a = E \<and> b = dir \<and> d = m0 \<and> e = Some key \<and> cut_off E fs m0 g"
        then obtain m s' where "Receive E (ProtoMessage m0) g = Some (None, ProtoMessage m, s')" "cut_off E fs m0 s'"
          using Receive_cut_off [OF assms(1)] by blast
        then show False
          using 1(1) [of E dir c m0 "Some key"] 1(2) same assms(3) by (auto simp: writeFile_def)
      qed
    qed
    then show ?thesis
      using that by blast
  qed
  then show ?thesis
    using assms(2) by (cases "uploadLoop E dir C m0 (Some key) files s") auto
qed

section \<open>A sample server\<close>

definition sampleRoot :: osRoot where
  "sampleRoot =
     \<lparr>rootOpen = (\<lambda>files name. if files name = None then Inl (OtherError ''no such file'') else Inr name),
      rootCreate = (\<lambda>files name. Inr name), rootReadDir = (\<lambda>files name. Inr []), statErr = (\<lambda>files key. None),
      readErr = (\<lambda>files key. EOF), writeErr = (\<lambda>files key data. None)\<rparr>"

definition sampleContent :: "typedMsg contentTypes" where
  "sampleContent =
     \<lparr>GetPage = (\<lambda>m. []), GetFilename = (\<lambda>m. case typedField m ''name'' of VString name \<Rightarrow> name | _ \<Rightarrow> []),
      GetFileData = bodyData uploadEnv [''file''], newHttpBody = fileMsg, newDownloadResponse = fileMsg,
      newEmpty = uploadMsg\<rparr>"

lemma sample_content: "lawful_content uploadEnv sampleContent [''file''] [''name''] [''file'']"
proof -
  have "leafValue (lib uploadEnv) m [''name''] = Some (typedField m ''name'')" for m
    by (simp add: uploadEnv_def uploadLib_def)
  then show ?thesis
    by (auto simp: lawful_content_def sampleContent_def file_response)
qed

lemma named_file: "names_file uploadEnv uploadMsg named_stream [''name''] ''a/b c''"
  using named_value by (auto simp: names_file_def named_stream_def newServerStream_def named_target_def)

definition stored :: files where
  "stored = [''a/b c'' \<mapsto> RegularFile ''a%0b'']"

definition file_routes :: "(string, unit, string) routeTarget routeTrie" where
  "file_routes =
     snd (addRoute (uploadReflect\<lparr>Output := (\<lambda>m. ''Upload'')\<rparr>) (sample_method ''Upload'' StreamTypeServer)
       \<lparr>Selector = [], Pattern = HttpRule_Get ''/v1/{name=**}:download'', Body = [], ResponseBody = ''file''\<rparr> emptyTrie)"

definition file_target :: "(string, unit, string) routeTarget" where
  "file_target = named_target
     \<lparr>target_method := sample_method ''Upload'' StreamTypeServer, httpMethod := ''GET'', template := ''/v1/**:download'',
      pattern := ''GET /v1/{name=**}:download'', requestBodyFieldPath := [], requestBodyFields := None,
      responseBodyFieldPath := ''file'', responseBodyFields := Some [''file'']\<rparr>"

definition file_handler :: "(string, unit, string, string, unit, typedMsg, unit, unit) restHandler" where
  "file_handler =
     (sample_handler False None)\<lparr>hEnv := uploadEnv, hRoutes := file_routes,
       hCall := (\<lambda>p info t s. downloadHandler uploadEnv sampleRoot sampleContent uploadMsg stored s)\<rparr>"

definition file_request :: request where
  "file_request = upload_request
     \<lparr>rqMethod := ''GET'', rqPath := ''/v1/a/b c:download'', rqEscapedPath := ''/v1/a/b%20c:download'',
      rqContentLength := 0, rqBody := \<lparr>rdData = [], rdErr = EOF\<rparr>\<rparr>"

definition file_stream :: "(string, unit, string, unit, unit) serverStream" where
  "file_stream = startStream file_target (file_request\<lparr>rqPattern := pattern file_target\<rparr>) emptyResponse None None"

lemma file_request_named:
  "case Receive uploadEnv (ProtoMessage uploadMsg) file_stream of
     Some (None, ProtoMessage req, s1) \<Rightarrow> GetFilename sampleContent req = ''a/b c''
   | _ \<Rightarrow> False"
  by code_simp

lemma file_routed: "routed file_handler file_request file_target None None None"
  by code_simp

section \<open>Properties\<close>



end
