(* ===== verification/Spec2Isabelle.thy ===== *)
theory Spec2Isabelle
  imports Compression ServerStream TypeResolver Methods Proxy Grpc Codec FileServer
begin

text \<open>
  \<^bold>\<open>A verification library for vanguard-go.\<close>

  Vanguard lets a Connect server answer REST requests and lets a Connect client speak REST: the
  annotations \<open>google.api.http\<close> of a protobuf service say which HTTP method and which URL path
  stand for which procedure, where the fields of the request message go (path, query, body)
  and which field of the response becomes the body.  All Go files of the library itself
  (the package \<open>vanguard\<close> and the package \<open>vanguardgrpc\<close>) are modelled; every definition
  follows one function, method or type of the source and keeps its name.

  \<^bold>\<open>The program's parts.\<close>

  A server is built from options (\<open>Mount\<close> in \<open>vanguard.go\<close>): the methods registered with Connect
  are resolved against descriptors (\<open>type_resolver.go\<close>, \<open>method.go\<close>), the path template of each
  rule is parsed (\<open>path_parser.go\<close>) into a target (\<open>router.go\<close>), and the target is put into a
  prefix trie (\<open>router.go\<close>).  \<open>ServeHTTP\<close> looks a request up in the trie, cuts the values of the
  path variables out of the path, negotiates encodings (\<open>compression.go\<close>), reads the timeout
  and runs the handler on a server stream (\<open>stream_handler.go\<close>), which sets the variables and the
  query parameters (\<open>params.go\<close>), decodes the body (\<open>encoding.go\<close>, \<open>codec.go\<close>) and writes the
  response or an error status (\<open>errors.go\<close>, \<open>httprule.go\<close>).  A client's stream
  (\<open>stream_client.go\<close>) does the reverse with the same targets: path and query are built from
  the message (\<open>httprule.go\<close>), a goroutine runs the HTTP request, and \<open>Receive\<close> decodes what
  comes back.  A proxy (\<open>forward.go\<close>) joins a server stream to a client stream with two concurrent
  loops; the bridge (\<open>vanguardgrpc.go\<close>) lets stubs written for grpc-go run on a server stream.

  \<^bold>\<open>Theories, in the order of their imports.\<close>

  \<^item> \<open>Prelude\<close>: Go strings as byte lists (a \<open>char\<close> is a byte) and the functions of Go's packages
    \<open>strings\<close> and \<open>slices\<close> that the code calls, with the collections \<open>go_strings\<close> and \<open>bytes\<close>.
  \<^item> \<open>Runs\<close>: three locales about sequences of logged steps (an invariant, a frame that every
    step keeps, an operation that succeeds at most once), interpreted for both streams.
  \<^item> \<open>PathEscape\<close> (\<open>path_parser.go\<close>, lines 234 to 373): byte classes and percent-encoding in its
    two modes on 8-bit words; the fast paths agree with the loops, and encoding round-trips.
  \<^item> \<open>PathTemplate\<close> (\<open>path_parser.go\<close>, lines 26 to 232): the recursive-descent parser, its state
    a record.  \<open>PathGrammar\<close>: abstract syntax and printer of templates; the parser accepts
    exactly the printed well-formed syntax and computes its meaning.
  \<^item> \<open>FieldPaths\<close>: the descriptor accessors that the code calls (a record of functions) and
    paths of fields.  \<open>RouteTarget\<close> (\<open>router.go\<close>, lines 182 to 397): targets, verbs, captures.
  \<^item> \<open>RouteTrie\<close> (\<open>router.go\<close>, lines 32 to 222): insertion and lookup.  \<open>RouteSpec\<close>: the abstract
    table behind a trie and the order of patterns by how specific they are; the locale
    \<open>route_table\<close> states what insertion promises and is interpreted on the trie.  \<open>Router\<close>: the
    invariant of every table that \<open>addRoute\<close> can build and what \<open>match\<close> then promises.
  \<^item> \<open>Errors\<close> (\<open>errors.go\<close>, \<open>httprule.go\<close>): a Go error is a value of the datatype \<open>goError\<close>; the
    tables between codes and HTTP statuses, writing and reading an error response.
  \<^item> \<open>Compression\<close> (\<open>compression.go\<close>): registration, negotiation, the body that closes once.
  \<^item> \<open>Numbers\<close>, \<open>Base64\<close>, \<open>Params\<close> (\<open>params.go\<close>): JSON numbers, strconv and base64 written
    out, and the texts of all kinds of fields; what is written is read back.
  \<^item> \<open>Query\<close>, \<open>HttpRule\<close>, \<open>ClientPath\<close> (\<open>encoding.go\<close>, \<open>httprule.go\<close>): query strings on both sides,
    \<open>httpEncodePathValues\<close>, and the proof that the server's captures are the client's values.
  \<^item> \<open>Bodies\<close>, \<open>RequestURL\<close>, \<open>Codec\<close> (\<open>encoding.go\<close>, \<open>codec.go\<close>): whole and chunked bodies,
    \<open>google.api.HttpBody\<close>, timeouts, \<open>decodeRequestURL\<close>, the JSON codec for single fields with the
    scanner of \<open>encoding/json\<close> as a state machine.
  \<^item> \<open>TypeResolver\<close>, \<open>Methods\<close> (\<open>type_resolver.go\<close>, \<open>method.go\<close>, parts of \<open>httprule.go\<close> and
    \<open>vanguard.go\<close>): the registry of files with cyclic imports, resolving all methods of a
    server in the arbitrary order of a Go map, and one method of a transport with its cache.
  \<^item> \<open>ServerStream\<close> (\<open>stream_handler.go\<close>): the record \<open>serverStream\<close>, every operation, and the
    inductive relations \<open>stream_step\<close> and \<open>stream_run\<close> of a handler that calls them in any order.
  \<^item> \<open>ServeHTTP\<close> (\<open>vanguard.go\<close>): options, \<open>Mount\<close>, the HTTP handler with each early return.
  \<^item> \<open>ClientStream\<close> (\<open>stream_client.go\<close>): the record \<open>clientStream\<close>; \<open>client_step\<close> interleaves the
    caller's operations with the results of the request goroutine and the end of the context.
  \<^item> \<open>Transport\<close> (\<open>vanguard.go\<close>): a transport and a server that were configured alike.
    \<open>EndToEnd\<close>: errors, uploads and downloads from one side to the other.
  \<^item> \<open>Forward\<close> (\<open>forward.go\<close>): \<open>forward_step\<close> interleaves the two loops over arbitrary streams;
    the locales \<open>relay_loop\<close> (what was sent is what was received) and \<open>settled_upstream\<close> (streams
    whose response header no longer changes once a response is there).  \<open>Proxy\<close>: their
    interpretation on the streams of this library, and what then holds of a proxy.
  \<^item> \<open>Grpc\<close> (\<open>vanguardgrpc/vanguardgrpc.go\<close>): registration, metadata, the stream adapter with its
    step relation \<open>adapter_run\<close>, errors and their statuses.
  \<^item> \<open>FileServer\<close> (\<open>internal/examples/fileserver/main.go\<close>): a program on top of the library, its
    handlers for uploads and downloads with the directory they work on.

  \<^bold>\<open>How values are modelled.\<close>

  A struct is a record and a method returns it updated; a Go interface or package the code only
  calls is a record of functions and an argument.  A Go error return is \<open>Inl\<close> of a sum or
  \<open>Some\<close> of an option, as the function returns it with or without a result; a panic (a slice
  out of range, a nil pointer) is \<open>None\<close> or a constructor of its own (\<open>Panics\<close>), and a call
  that does not return yet is \<open>Blocks\<close>.  An \<open>io.Reader\<close> is the bytes it delivers and the error
  at its end.  HTTP headers are maps from canonical keys to lists of values.
  A message is an abstract type with the reflection functions the code calls; the few
  theorems that need their documented laws assume them by name (\<open>lawful_bodies\<close>, \<open>lawful_time\<close>
  and the like), and every such theorem is applied at a concrete library.

  \<^bold>\<open>What the theorems show.\<close>  Each property stands in the theory of its component, after a text
  with its number C1 to C40.

  \<^item> Routing: the parser is its grammar (C2); every reachable table is well formed (C29), adding
    a rule changes one entry or nothing (C30), a target keeps the template's variables (C32),
    lookup takes the most specific route (C3), finds a route if there is one (C28), and what it returns can be decoded without a panic (C1); a 405
    answer names methods that the path serves (C27); the order of registration is irrelevant (C40).
  \<^item> The two sides agree: values of path variables (C4), parameters (C31), queries (C35), field
    bodies (C33), encodings (C34), whole calls (C5), errors (C7),
    uploads (C8), downloads (C9), and both together in a program that stores files (C10).
  \<^item> Streams: one status line (C13), one well-formed answer (C6), unary calls send and receive
    once (C15), one outcome (C11), no leaked body (C12), no hanging \<open>Receive\<close> (C16), no panic (C26).
  \<^item> Proxy and bridge: order (C17), complete success (C18), errors (C19, C20, C22), metadata
    (C21, C23, C24), registration (C25, C39).
  \<^item> Termination and bounds: C14, C36, C37, C38.

  \<^bold>\<open>Fuel.\<close>  \<open>httpEncodePathValues\<close> recurses into nested messages of an abstract type and takes a
  number of levels; C36 shows that the depth of the message is enough and that more changes
  nothing.  \<open>addFileRecursive\<close> follows imports, which may be cyclic; C37 shows that the number of
  unregistered paths is enough.  \<open>receiveLoop\<close> counts a handler's calls of \<open>Receive\<close>; C14 shows how
  many read a whole body.  \<open>uploadLoop\<close> of the file server may run forever and is a partial
  function with \<open>None\<close> for that; C10 has that it returns, \<open>truncated_upload_hangs\<close> when it does not.
  All other loops are structural or have a proved measure.  The
  bound \<open>maxNestingDepth\<close> of the JSON scanner is that of \<open>encoding/json\<close>.

  \<^bold>\<open>What the model found.\<close>  Beside the properties, some lemmas state behaviour that the code
  does not seem to mean: \<open>verb_not_canonicalised\<close> (Router), \<open>nested_duplicate_accepted\<close> (PathGrammar),
  \<open>getParameter_index\<close> (Params), \<open>error_body_without_code\<close> (Errors), \<open>open_ended_value_short\<close>
  (ClientPath), \<open>truncated_body_endless\<close> (Bodies), \<open>forward_cancel_race\<close> (Forward),
  \<open>base_dropped\<close> (Codec) and \<open>truncated_upload_hangs\<close> (FileServer).

  \<^bold>\<open>Not modelled.\<close>  The other example programs under \<open>internal/examples\<close> (flags, listeners, calls of
  the library with fixed arguments) and the generated code under \<open>internal/gen\<close>, but for the
  adapters of the file server's handlers.  Outside the source and therefore arguments:
  \<open>net/http\<close>, the protobuf runtime and protojson, connect-go's server and call layer, grpc-go,
  the operating system, compressors, and the formatting of floating point numbers.  The
  errors of resolving rules are constructors of their own with the values their texts mention;
  of the other errors code, text, details and cause are kept.  Go's memory model is not modelled:
  operations that the code guards by a lock or by a channel are single steps.
\<close>

end
